(* ===== verification/Prelude.thy ===== *)
theory Prelude
  imports Main "HOL-Library.Word" "HOL-Library.Char_ord"
begin

text \<open>
  Shared ground of the development: the machine types, C++ exceptions as values, characters,
  decimal printing and \<open>std::stoul\<close>, and the contracts (locales) that several components
  share (\<open>Streams\<close> has the one of the binary readers and writers):
  \<^item> \<open>name_table\<close>: a constant table of (enumerator, name) pairs searched both ways;
  \<^item> \<open>event_machine\<close>: a handler with an invariant, lifted to runs of events;
  \<^item> \<open>sink_registry\<close>: the duplicate-free registration of message sinks.
\<close>

section \<open>Machine types, exceptions\<close>

type_synonym u8 = "8 word"
type_synonym u16 = "16 word"
type_synonym u32 = "32 word"
type_synonym u64 = "64 word"
type_synonym bytes = "char list"

text \<open>
  The C++ exceptions that the modelled code can raise, the failing \<open>assert\<close>, and \<open>std::terminate\<close>
  (a new thread assigned to a \<open>std::thread\<close> that was not joined).
\<close>

datatype exn =
    InvalidArgument
  | OutOfRange
  | LengthError
  | FilesystemError
  | AssertionFailed
  | Terminated

type_synonym 'a result = "exn + 'a"

named_theorems stream_simps \<open>evaluation of the stream operations\<close>
named_theorems codec_simps \<open>what each component's writer emits and its reader returns\<close>

section \<open>Characters of the C locale\<close>

definition is_space :: "char \<Rightarrow> bool" where
  "is_space c \<longleftrightarrow> c \<in> {CHR '' '', CHR 0x09, CHR 0x0A, CHR 0x0B, CHR 0x0C, CHR 0x0D}"

definition is_digit :: "char \<Rightarrow> bool" where
  "is_digit c \<longleftrightarrow> (let n = of_char c :: nat in 48 \<le> n \<and> n \<le> 57)"

definition is_alnum :: "char \<Rightarrow> bool" where
  "is_alnum c \<longleftrightarrow>
     (let n = of_char c :: nat
      in 48 \<le> n \<and> n \<le> 57 \<or> 65 \<le> n \<and> n \<le> 90 \<or> 97 \<le> n \<and> n \<le> 122)"

lemma is_space_not_digit: "is_digit c \<Longrightarrow> \<not> is_space c"
  by (auto simp: is_digit_def is_space_def Let_def)

lemma is_space_not_alnum: "is_alnum c \<Longrightarrow> \<not> is_space c"
  by (auto simp: is_alnum_def is_space_def Let_def)

lemma is_digit_alnum: "is_digit c \<Longrightarrow> is_alnum c"
  by (auto simp: is_alnum_def is_digit_def Let_def)

lemma no_space_word: "list_all (\<lambda>c. \<not> is_space c) s \<longleftrightarrow> (\<forall>c\<in>set s. \<not> is_space c)"
  by (simp add: list_all_iff)

section \<open>Generic facts on lists\<close>

lemma takeWhile_all_append:
  "(\<forall>x\<in>set xs. P x) \<Longrightarrow> ys = [] \<or> \<not> P (hd ys) \<Longrightarrow> takeWhile P (xs @ ys) = xs"
  by (induction xs) (cases ys; auto)+

lemma dropWhile_all_append:
  "(\<forall>x\<in>set xs. P x) \<Longrightarrow> ys = [] \<or> \<not> P (hd ys) \<Longrightarrow> dropWhile P (xs @ ys) = ys"
  by (induction xs) (cases ys; auto)+

lemma find_first_distinct:
  assumes "distinct (map f xs)" and "x \<in> set xs"
  shows "List.find (\<lambda>y. f y = f x) xs = Some x"
  using assms by (induction xs) (auto simp: rev_image_eqI)

lemma find_Some_pred: "List.find P xs = Some x \<Longrightarrow> P x \<and> x \<in> set xs"
  by (induction xs) (auto split: if_splits)

section \<open>Decimal numbers\<close>

text \<open>\<open>std::to_string\<close> and \<open>os << n\<close> of an unsigned integer.\<close>

definition digit_char :: "nat \<Rightarrow> char" where
  "digit_char d = char_of (48 + d)"

definition digit_val :: "char \<Rightarrow> nat" where
  "digit_val c = of_char c - 48"

fun show_nat :: "nat \<Rightarrow> string" where
  "show_nat n = (if n < 10 then [digit_char n] else show_nat (n div 10) @ [digit_char (n mod 10)])"

declare show_nat.simps [simp del]

text \<open>The value of a digit string, most significant digit first.\<close>

definition digits_val :: "string \<Rightarrow> nat" where
  "digits_val s = foldl (\<lambda>n c. 10 * n + digit_val c) 0 s"

lemma of_char_digit: "d < 10 \<Longrightarrow> of_char (digit_char d) = (48 + d :: nat)"
  by (simp add: digit_char_def)

lemma is_digit_digit_char [simp]: "d < 10 \<Longrightarrow> is_digit (digit_char d)"
  by (simp add: is_digit_def of_char_digit Let_def)

lemma digit_val_digit_char [simp]: "d < 10 \<Longrightarrow> digit_val (digit_char d) = d"
  by (simp add: digit_val_def of_char_digit)

lemma digits_val_snoc [simp]: "digits_val (s @ [c]) = 10 * digits_val s + digit_val c"
  by (simp add: digits_val_def)

lemma digits_val_Nil [simp]: "digits_val [] = 0"
  by (simp add: digits_val_def)

lemma digits_val_show_nat [simp]: "digits_val (show_nat n) = n"
proof (induction n rule: show_nat.induct)
  case (1 n)
  show ?case
  proof (cases "n < 10")
    case True
    then show ?thesis by (simp add: show_nat.simps [of n] digits_val_def)
  next
    case False
    with 1 show ?thesis by (simp add: show_nat.simps [of n])
  qed
qed

lemma show_nat_digits: "c \<in> set (show_nat n) \<Longrightarrow> is_digit c"
proof (induction n rule: show_nat.induct)
  case (1 n)
  then show ?case by (cases "n < 10") (auto simp: show_nat.simps [of n])
qed

lemma show_nat_nonempty [simp]: "show_nat n \<noteq> []"
  by (simp add: show_nat.simps [of n])

lemma show_nat_inject [simp]: "show_nat m = show_nat n \<longleftrightarrow> m = n"
  by (metis digits_val_show_nat)

text \<open>\<open>%0wu\<close> of \<open>strftime\<close>, \<open>setfill('0') << setw(w)\<close>: at least \<open>w\<close> digits.\<close>

fun show_fixed :: "nat \<Rightarrow> nat \<Rightarrow> string" where
  "show_fixed 0 n = []"
| "show_fixed (Suc w) n = show_fixed w (n div 10) @ [digit_char (n mod 10)]"

lemma length_show_fixed [simp]: "length (show_fixed w n) = w"
  by (induction w arbitrary: n) auto

lemma show_fixed_digits: "c \<in> set (show_fixed w n) \<Longrightarrow> is_digit c"
  by (induction w arbitrary: n) auto

lemma digits_val_show_fixed [simp]: "digits_val (show_fixed w n) = n mod 10 ^ w"
proof (induction w arbitrary: n)
  case (Suc w)
  have "n mod (10 * 10 ^ w) = 10 * (n div 10 mod 10 ^ w) + n mod 10"
    by (simp add: mod_mult2_eq)
  with Suc show ?case by simp
qed simp

text \<open>
  \<open>std::stoul\<close> in base 10: leading white space and a sign are skipped, at least one digit
  is required, the value must fit 64 bits, and a minus sign negates modulo \<open>2 ^ 64\<close>.
\<close>

definition stoul :: "string \<Rightarrow> u64 result" where
  "stoul s =
     (let s1 = dropWhile is_space s;
          neg = (s1 \<noteq> [] \<and> hd s1 = CHR ''-'');
          s2 = (if s1 \<noteq> [] \<and> hd s1 \<in> {CHR ''-'', CHR ''+''} then tl s1 else s1);
          ds = takeWhile is_digit s2
      in if ds = [] then Inl InvalidArgument
         else if 2 ^ 64 \<le> digits_val ds then Inl OutOfRange
         else Inr (if neg then - of_nat (digits_val ds) else of_nat (digits_val ds)))"

lemma stoul_show_nat:
  assumes "n < 2 ^ 64"
  shows "stoul (show_nat n) = Inr (of_nat n)"
proof -
  have ds: "\<forall>c\<in>set (show_nat n). is_digit c" by (simp add: show_nat_digits)
  obtain c cs where s: "show_nat n = c # cs" by (cases "show_nat n") auto
  with ds have c: "is_digit c" by auto
  from c have "c \<noteq> CHR ''-''" "c \<noteq> CHR ''+''" by (auto simp: is_digit_def Let_def)
  moreover have "takeWhile is_digit (c # cs) = c # cs"
    using ds takeWhile_eq_all_conv[of is_digit "show_nat n"] by (simp add: s)
  moreover have "digits_val (c # cs) = n" using digits_val_show_nat[of n] by (simp add: s)
  ultimately show ?thesis
    using assms is_space_not_digit[OF c] by (simp add: stoul_def s Let_def)
qed

section \<open>Constant tables searched both ways\<close>

text \<open>
  The severity and facility tables are arrays of pairs, searched by \<open>ranges::find\<close> with
  the projection \<open>first\<close> or \<open>second\<close>. A table without repetition on either side gives
  two inverse searches.
\<close>

definition table_name :: "('v \<times> string) list \<Rightarrow> 'v \<Rightarrow> string option" where
  "table_name t v = map_option snd (List.find (\<lambda>p. fst p = v) t)"

definition table_value :: "('v \<times> string) list \<Rightarrow> string \<Rightarrow> 'v option" where
  "table_value t s = map_option fst (List.find (\<lambda>p. snd p = s) t)"

locale name_table =
  fixes tbl :: "('v \<times> string) list"
  assumes distinct_values: "distinct (map fst tbl)"
    and distinct_names: "distinct (map snd tbl)"
begin

lemma name_of_entry: "p \<in> set tbl \<Longrightarrow> table_name tbl (fst p) = Some (snd p)"
  using find_first_distinct[OF distinct_values] by (auto simp: table_name_def)

lemma value_of_entry: "p \<in> set tbl \<Longrightarrow> table_value tbl (snd p) = Some (fst p)"
  using find_first_distinct[OF distinct_names] by (auto simp: table_value_def)

lemma name_SomeD: "table_name tbl v = Some s \<Longrightarrow> (v, s) \<in> set tbl"
  by (auto simp: table_name_def dest: find_Some_pred)

lemma value_SomeD: "table_value tbl s = Some v \<Longrightarrow> (v, s) \<in> set tbl"
  by (auto simp: table_value_def dest: find_Some_pred)

lemma name_iff_value: "table_name tbl v = Some s \<longleftrightarrow> table_value tbl s = Some v"
proof
  assume "table_name tbl v = Some s"
  then show "table_value tbl s = Some v" by (auto dest!: name_SomeD value_of_entry)
next
  assume "table_value tbl s = Some v"
  then show "table_name tbl v = Some s" by (auto dest!: value_SomeD name_of_entry)
qed

lemma name_inject: "table_name tbl v = Some s \<Longrightarrow> table_name tbl w = Some s \<Longrightarrow> v = w"
  by (simp add: name_iff_value)

end

section \<open>Event handlers with an invariant\<close>

text \<open>
  A component that handles one event at a time (a packet, a message, a timer), with what
  it promises to keep. Everything true of one step is true of a run.
\<close>

fun run_events :: "('s \<Rightarrow> 'e \<Rightarrow> 's) \<Rightarrow> 's \<Rightarrow> 'e list \<Rightarrow> 's" where
  "run_events step s [] = s"
| "run_events step s (e # es) = run_events step (step s e) es"

lemma run_events_append:
  "run_events step s (es @ fs) = run_events step (run_events step s es) fs"
  by (induction es arbitrary: s) auto

locale event_machine =
  fixes step :: "'s \<Rightarrow> 'e \<Rightarrow> 's"
    and inv :: "'s \<Rightarrow> bool"
    and ok :: "'e \<Rightarrow> bool"
  assumes inv_step: "inv s \<Longrightarrow> ok e \<Longrightarrow> inv (step s e)"
begin

lemma inv_run: "inv s \<Longrightarrow> list_all ok es \<Longrightarrow> inv (run_events step s es)"
  by (induction es arbitrary: s) (auto intro: inv_step)

lemma run_constant:
  assumes "\<And>s e. inv s \<Longrightarrow> ok e \<Longrightarrow> f (step s e) = f s" and "inv s" "list_all ok es"
  shows "f (run_events step s es) = f s"
  using assms(2,3) by (induction es arbitrary: s) (auto simp: assms(1) inv_step)

end

section \<open>Registries of message sinks\<close>

text \<open>
  \<open>AddSink\<close> of the receivers and \<open>AddSinks\<close> of the logger keep a vector of sink
  pointers without repetition. A sink pointer is a value of an arbitrary type.
\<close>

fun add_all :: "('k \<Rightarrow> 'k list \<Rightarrow> bool \<times> 'k list) \<Rightarrow> 'k list \<Rightarrow> 'k list \<Rightarrow> 'k list" where
  "add_all add [] ks = ks"
| "add_all add (x # xs) ks = add_all add xs (snd (add x ks))"

locale sink_registry =
  fixes add :: "'k \<Rightarrow> 'k list \<Rightarrow> bool \<times> 'k list"
  assumes add_known: "k \<in> set ks \<Longrightarrow> add k ks = (False, ks)"
    and add_new: "k \<notin> set ks \<Longrightarrow> add k ks = (True, ks @ [k])"
begin

lemma add_result: "fst (add k ks) \<longleftrightarrow> k \<notin> set ks"
  by (cases "k \<in> set ks") (auto simp: add_known add_new)

lemma add_set: "set (snd (add k ks)) = insert k (set ks)"
  by (cases "k \<in> set ks") (auto simp: add_known add_new)

lemma add_distinct: "distinct ks \<Longrightarrow> distinct (snd (add k ks))"
  by (cases "k \<in> set ks") (auto simp: add_known add_new)

lemma add_all_distinct: "distinct ks \<Longrightarrow> distinct (add_all add xs ks)"
  by (induction xs arbitrary: ks) (auto simp: add_distinct)

lemma add_all_set: "set (add_all add xs ks) = set xs \<union> set ks"
  by (induction xs arbitrary: ks) (auto simp: add_set)

lemma add_twice: "add k (snd (add k ks)) = (False, snd (add k ks))"
  by (simp add: add_known add_set)

end

end
