(* ===== verification/CTime.thy ===== *)
theory CTime
  imports Prelude
begin

text \<open>
  The part of the C library's calendar the repository uses: \<open>struct tm\<close>, \<open>gmtime\<close>,
  \<open>timegm\<close>, \<open>localtime_r\<close> and \<open>mktime\<close>, over unbounded integers. A time zone has a
  standard and a daylight offset and says when the latter is in force, as a POSIX \<open>TZ\<close>
  does; \<open>mktime\<close> reads \<open>tm_isdst\<close> to know which offset the fields are meant in. Dates are
  counted in years that start in March, so that the leap day comes last.
\<close>

record tm =
  tm_year :: int
  tm_mon :: int
  tm_mday :: int
  tm_hour :: int
  tm_min :: int
  tm_sec :: int
  tm_isdst :: bool
  tm_gmtoff :: int

record timezone =
  std_off :: int
  dst_off :: int
  in_dst :: "int \<Rightarrow> bool"

definition utcoff :: "timezone \<Rightarrow> bool \<Rightarrow> int" where
  "utcoff z dst = (if dst then dst_off z else std_off z)"

definition days_from_civil :: "int \<Rightarrow> int \<Rightarrow> int \<Rightarrow> int" where
  "days_from_civil y m d =
     (let y' = (if m \<le> 2 then y - 1 else y);
          mp = (if 2 < m then m - 3 else m + 9)
      in 365 * y' + y' div 4 - y' div 100 + y' div 400 + (153 * mp + 2) div 5 + d - 1 - 719468)"

definition civil_from_days :: "int \<Rightarrow> int \<times> int \<times> int" where
  "civil_from_days z =
     (let n = z + 719468;
          era = n div 146097;
          doe = n mod 146097;
          c = min 3 (doe div 36524);
          q = (doe - 36524 * c) div 1461;
          a = min 3 ((doe - 36524 * c - 1461 * q) div 365);
          doy = doe - 36524 * c - 1461 * q - 365 * a;
          mp = (5 * doy + 2) div 153;
          d = doy - (153 * mp + 2) div 5 + 1;
          m = (if mp < 10 then mp + 3 else mp - 9);
          y' = 400 * era + 100 * c + 4 * q + a
      in (if m \<le> 2 then y' + 1 else y', m, d))"

definition timegm :: "tm \<Rightarrow> int" where
  "timegm t =
     86400 * days_from_civil (1900 + tm_year t + tm_mon t div 12) (tm_mon t mod 12 + 1) (tm_mday t)
     + 3600 * tm_hour t + 60 * tm_min t + tm_sec t"

definition gmtime :: "int \<Rightarrow> tm" where
  "gmtime t =
     (let (y, m, d) = civil_from_days (t div 86400); s = t mod 86400
      in \<lparr>tm_year = y - 1900, tm_mon = m - 1, tm_mday = d,
          tm_hour = s div 3600, tm_min = s mod 3600 div 60, tm_sec = s mod 60,
          tm_isdst = False, tm_gmtoff = 0\<rparr>)"

definition localtime :: "timezone \<Rightarrow> int \<Rightarrow> tm" where
  "localtime z t =
     (let off = utcoff z (in_dst z t)
      in (gmtime (t + off))\<lparr>tm_isdst := in_dst z t, tm_gmtoff := off\<rparr>)"

definition mktime :: "timezone \<Rightarrow> tm \<Rightarrow> int" where
  "mktime z t = timegm t - utcoff z (tm_isdst t)"

section \<open>The calendar is consistent\<close>

lemma cycle_decomposition:
  fixes doe :: int
  assumes "0 \<le> doe" "doe < 146097"
    and c: "c = min 3 (doe div 36524)"
    and q: "q = (doe - 36524 * c) div 1461"
    and a: "a = min 3 ((doe - 36524 * c - 1461 * q) div 365)"
  shows "0 \<le> c \<and> c \<le> 3 \<and> 0 \<le> q \<and> q \<le> 24 \<and> 0 \<le> a \<and> a \<le> 3
    \<and> 0 \<le> doe - 36524 * c - 1461 * q - 365 * a \<and> doe - 36524 * c - 1461 * q - 365 * a \<le> 365"
proof -
  have c': "0 \<le> c" "c \<le> 3" "0 \<le> doe - 36524 * c" "doe - 36524 * c \<le> 36524"
    using assms(1,2) c by (auto simp: min_def)
  then have q': "0 \<le> q" "q \<le> 24" "0 \<le> doe - 36524 * c - 1461 * q"
      "doe - 36524 * c - 1461 * q \<le> 1460"
    using q by auto
  then have "0 \<le> a" "a \<le> 3" "0 \<le> doe - 36524 * c - 1461 * q - 365 * a"
      "doe - 36524 * c - 1461 * q - 365 * a \<le> 365"
    using a by (auto simp: min_def)
  with c' q' show ?thesis by blast
qed

lemma month_decomposition:
  fixes doy :: int
  assumes "0 \<le> doy" "doy \<le> 365" and mp: "mp = (5 * doy + 2) div 153"
  shows "0 \<le> mp \<and> mp \<le> 11 \<and> 1 \<le> doy - (153 * mp + 2) div 5 + 1
    \<and> doy - (153 * mp + 2) div 5 + 1 \<le> 31"
  using assms by auto

text \<open>Years since the start of a 400-year era, from its century, four-year cycle and year.\<close>

lemma div_quotient:
  fixes k n r x :: int
  assumes "x = n * k + r" "0 \<le> r" "r < n"
  shows "x div n = k"
  using assms int_div_pos_eq by blast

lemma year_quotients:
  fixes era c q a :: int
  assumes "0 \<le> c" "c \<le> 3" "0 \<le> q" "q \<le> 24" "0 \<le> a" "a \<le> 3"
  shows "(400 * era + 100 * c + 4 * q + a) div 4 = 100 * era + 25 * c + q"
    and "(400 * era + 100 * c + 4 * q + a) div 100 = 4 * era + c"
    and "(400 * era + 100 * c + 4 * q + a) div 400 = era"
proof -
  show "(400 * era + 100 * c + 4 * q + a) div 4 = 100 * era + 25 * c + q"
    by (rule div_quotient[of _ _ _ a]) (use assms in auto)
  show "(400 * era + 100 * c + 4 * q + a) div 100 = 4 * era + c"
    by (rule div_quotient[of _ _ _ "4 * q + a"]) (use assms in auto)
  show "(400 * era + 100 * c + 4 * q + a) div 400 = era"
    by (rule div_quotient[of _ _ _ "100 * c + 4 * q + a"]) (use assms in auto)
qed

lemma civil_roundtrip:
  assumes "civil_from_days z = (y, m, d)"
  shows "days_from_civil y m d = z \<and> 1 \<le> m \<and> m \<le> 12 \<and> 1 \<le> d \<and> d \<le> 31"
proof -
  define n where "n = z + 719468"
  define era where "era = n div 146097"
  define doe where "doe = n mod 146097"
  define c where "c = min 3 (doe div 36524)"
  define q where "q = (doe - 36524 * c) div 1461"
  define a where "a = min 3 ((doe - 36524 * c - 1461 * q) div 365)"
  define doy where "doy = doe - 36524 * c - 1461 * q - 365 * a"
  define mp where "mp = (5 * doy + 2) div 153"
  define y' where "y' = 400 * era + 100 * c + 4 * q + a"
  have doe: "0 \<le> doe" "doe < 146097" and n: "n = 146097 * era + doe"
    by (simp_all add: doe_def era_def)
  note cyc = cycle_decomposition[OF doe c_def q_def a_def]
  then have doy: "0 \<le> doy" "doy \<le> 365" by (simp_all add: doy_def)
  note mon = month_decomposition[OF doy mp_def]
  have "civil_from_days z = (if (if mp < 10 then mp + 3 else mp - 9) \<le> 2 then y' + 1 else y',
      if mp < 10 then mp + 3 else mp - 9, doy - (153 * mp + 2) div 5 + 1)"
    unfolding civil_from_days_def Let_def y'_def mp_def doy_def a_def q_def c_def doe_def era_def n_def
    by (rule refl)
  then have res: "m = (if mp < 10 then mp + 3 else mp - 9)" "d = doy - (153 * mp + 2) div 5 + 1"
      "y = (if m \<le> 2 then y' + 1 else y')"
    unfolding assms by simp_all
  have m: "1 \<le> m" "m \<le> 12" using mon res(1) by auto
  have mp': "(if 2 < m then m - 3 else m + 9) = mp" using mon res(1) by auto
  have yy: "(if m \<le> 2 then y - 1 else y) = y'" using res(3) by auto
  have "days_from_civil y m d = 365 * y' + y' div 4 - y' div 100 + y' div 400 + doy - 719468"
    by (simp add: days_from_civil_def Let_def mp' yy res(2))
  also have "\<dots> = 146097 * era + doe - 719468"
    using cyc by (simp add: y'_def year_quotients doy_def)
  also have "\<dots> = z" using n by (simp add: n_def)
  finally show ?thesis using m mon res(2) by auto
qed

text \<open>Day, hour, minute and second fields enter \<open>timegm\<close> linearly, in range or not.\<close>

lemma days_from_civil_linear:
  "days_from_civil y m d = days_from_civil y m 0 + d"
  by (simp add: days_from_civil_def Let_def)

lemma day_fields:
  fixes s :: int
  assumes "0 \<le> s" "s < 86400"
  shows "0 \<le> s div 3600" "s div 3600 < 24" "0 \<le> s mod 3600 div 60" "s mod 3600 div 60 < 60"
    "0 \<le> s mod 60" "s mod 60 < 60"
    and "s = 3600 * (s div 3600) + 60 * (s mod 3600 div 60) + s mod 60"
proof -
  have m: "0 \<le> s mod 3600" "s mod 3600 < 3600" by simp_all
  show "0 \<le> s div 3600" "s div 3600 < 24" using assms by auto
  show "0 \<le> s mod 3600 div 60" "s mod 3600 div 60 < 60" using m by linarith+
  show "0 \<le> s mod 60" "s mod 60 < 60" by simp_all
  have "s mod 3600 mod 60 = s mod 60" by (simp add: mod_mod_cancel)
  then have "s mod 3600 = 60 * (s mod 3600 div 60) + s mod 60"
    by (metis mult_div_mod_eq)
  then show "s = 3600 * (s div 3600) + 60 * (s mod 3600 div 60) + s mod 60"
    using mult_div_mod_eq[of 3600 s] by linarith
qed

lemma gmtime_date:
  "0 \<le> tm_mon (gmtime t)" "tm_mon (gmtime t) \<le> 11" "1 \<le> tm_mday (gmtime t)" "tm_mday (gmtime t) \<le> 31"
proof -
  obtain y m d where c: "civil_from_days (t div 86400) = (y, m, d)" by (cases "civil_from_days (t div 86400)")
  show "0 \<le> tm_mon (gmtime t)" "tm_mon (gmtime t) \<le> 11" "1 \<le> tm_mday (gmtime t)" "tm_mday (gmtime t) \<le> 31"
    using civil_roundtrip[OF c] by (simp_all add: gmtime_def c Let_def)
qed

lemma gmtime_clock:
  "0 \<le> tm_hour (gmtime t)" "tm_hour (gmtime t) < 24" "0 \<le> tm_min (gmtime t)" "tm_min (gmtime t) < 60"
  "0 \<le> tm_sec (gmtime t)" "tm_sec (gmtime t) < 60"
proof -
  obtain y m d where c: "civil_from_days (t div 86400) = (y, m, d)" by (cases "civil_from_days (t div 86400)")
  have s: "0 \<le> t mod 86400" "t mod 86400 < 86400" by simp_all
  have g: "tm_hour (gmtime t) = t mod 86400 div 3600" "tm_min (gmtime t) = t mod 86400 mod 3600 div 60"
    "tm_sec (gmtime t) = t mod 86400 mod 60"
    unfolding gmtime_def c Let_def by (simp_all only: prod.case tm.simps)
  show "0 \<le> tm_hour (gmtime t)" "tm_hour (gmtime t) < 24" "0 \<le> tm_min (gmtime t)" "tm_min (gmtime t) < 60"
    "0 \<le> tm_sec (gmtime t)" "tm_sec (gmtime t) < 60"
    unfolding g by (rule day_fields[OF s])+
qed

lemmas gmtime_fields = gmtime_date gmtime_clock

lemma timegm_gmtime [simp]: "timegm (gmtime t) = t"
proof -
  obtain y m d where c: "civil_from_days (t div 86400) = (y, m, d)" by (cases "civil_from_days (t div 86400)")
  have r: "days_from_civil y m d = t div 86400" "1 \<le> m" "m \<le> 12" using civil_roundtrip[OF c] by auto
  then have m: "(m - 1) div 12 = 0" "(m - 1) mod 12 = m - 1" by auto
  have s: "0 \<le> t mod 86400" "t mod 86400 < 86400" by simp_all
  have g: "gmtime t = \<lparr>tm_year = y - 1900, tm_mon = m - 1, tm_mday = d,
      tm_hour = t mod 86400 div 3600, tm_min = t mod 86400 mod 3600 div 60, tm_sec = t mod 86400 mod 60,
      tm_isdst = False, tm_gmtoff = 0\<rparr>"
    unfolding gmtime_def c Let_def by (simp only: prod.case)
  have "timegm (gmtime t) = 86400 * (t div 86400) + (3600 * (t mod 86400 div 3600)
      + 60 * (t mod 86400 mod 3600 div 60) + t mod 86400 mod 60)"
    unfolding g timegm_def by (simp only: tm.simps m) (simp add: r)
  also have "\<dots> = t"
    unfolding day_fields(7)[OF s, symmetric] by simp
  finally show ?thesis .
qed

lemma timegm_flags [simp]:
  "timegm (t\<lparr>tm_isdst := b\<rparr>) = timegm t" "timegm (t\<lparr>tm_gmtoff := g\<rparr>) = timegm t"
  by (simp_all add: timegm_def)

lemma mktime_localtime [simp]: "mktime z (localtime z t) = t"
  by (simp add: mktime_def localtime_def Let_def)

lemma localtime_fields:
  "0 \<le> tm_mon (localtime z t)" "tm_mon (localtime z t) \<le> 11"
  "1 \<le> tm_mday (localtime z t)" "tm_mday (localtime z t) \<le> 31"
  "0 \<le> tm_hour (localtime z t)" "tm_hour (localtime z t) < 24"
  "0 \<le> tm_min (localtime z t)" "tm_min (localtime z t) < 60"
  "0 \<le> tm_sec (localtime z t)" "tm_sec (localtime z t) < 60"
  using gmtime_fields[of "t + utcoff z (in_dst z t)"] by (simp_all add: localtime_def Let_def)

lemma timegm_localtime: "timegm (localtime z t) = t + tm_gmtoff (localtime z t)"
  by (simp add: localtime_def Let_def)

end
