(* ===== verification/RollInterval.thy ===== *)
theory RollInterval
  imports CTime
begin

text \<open>
  \<open>DwmMclogRollPeriod.{hh,cc}\<close> and \<open>DwmMclogRollInterval.{hh,cc}\<close>: how long a log file is
  written before it is rolled. A period names a field of \<open>struct tm\<close> and an amount; the end
  of the interval is the next multiple of the amount in that field, in local time with the
  daylight flag of now. The lemmas: the loop that finds the mark ends and finds the next
  multiple; the interval contains the time it was computed at and has the period's length;
  its end lies on the period's grid.
\<close>

section \<open>Periods\<close>

datatype RollPeriod =
    minutes_5 | minutes_15 | minutes_30
  | hours_1 | hours_2 | hours_4 | hours_6 | hours_8 | hours_12
  | days_1 | days_7

definition rollPeriods :: "(string \<times> RollPeriod) list" where
  "rollPeriods =
     [(''5m'', minutes_5), (''15m'', minutes_15), (''30m'', minutes_30), (''60m'', hours_1),
      (''1h'', hours_1), (''2h'', hours_2), (''4h'', hours_4), (''6h'', hours_6), (''8h'', hours_8),
      (''12h'', hours_12), (''24h'', days_1), (''1d'', days_1), (''7d'', days_7)]"

definition GetRollPeriod :: "string \<Rightarrow> RollPeriod" where
  "GetRollPeriod str =
     (case List.find (\<lambda>rp. fst rp = str) rollPeriods of Some rp \<Rightarrow> snd rp | None \<Rightarrow> days_1)"

section \<open>Increments\<close>

datatype tm_field = Fld_min | Fld_hour | Fld_mday

record IncrementInfo =
  inc_rp :: RollPeriod
  inc_field :: tm_field
  inc_amount :: int
  inc_secs :: int

definition inc :: "RollPeriod \<Rightarrow> tm_field \<Rightarrow> int \<Rightarrow> int \<Rightarrow> IncrementInfo" where
  "inc rp fld amount secs = \<lparr>inc_rp = rp, inc_field = fld, inc_amount = amount, inc_secs = secs\<rparr>"

definition g_incrementInfo :: "IncrementInfo list" where
  "g_incrementInfo =
     [inc minutes_5 Fld_min 5 300, inc minutes_15 Fld_min 15 900, inc minutes_30 Fld_min 30 1800,
      inc hours_1 Fld_hour 1 3600, inc hours_2 Fld_hour 2 7200, inc hours_4 Fld_hour 4 14400,
      inc hours_6 Fld_hour 6 21600, inc hours_8 Fld_hour 8 28800, inc hours_12 Fld_hour 12 43200,
      inc days_1 Fld_mday 1 86400, inc days_7 Fld_mday 7 604800]"

definition FieldToIncrement :: "RollPeriod \<Rightarrow> tm_field" where
  "FieldToIncrement rp =
     (case List.find (\<lambda>i. inc_rp i = rp) g_incrementInfo of Some i \<Rightarrow> inc_field i | None \<Rightarrow> Fld_mday)"

definition IncrementAmount :: "RollPeriod \<Rightarrow> int" where
  "IncrementAmount rp =
     (case List.find (\<lambda>i. inc_rp i = rp) g_incrementInfo of Some i \<Rightarrow> inc_amount i | None \<Rightarrow> 1)"

definition IncrementSeconds :: "RollPeriod \<Rightarrow> int" where
  "IncrementSeconds rp =
     (case List.find (\<lambda>i. inc_rp i = rp) g_incrementInfo of Some i \<Rightarrow> inc_secs i | None \<Rightarrow> 1)"

text \<open>Reading and setting a field through a pointer to member.\<close>

fun get_field :: "tm_field \<Rightarrow> tm \<Rightarrow> int" where
  "get_field Fld_min t = tm_min t"
| "get_field Fld_hour t = tm_hour t"
| "get_field Fld_mday t = tm_mday t"

fun set_field :: "tm_field \<Rightarrow> int \<Rightarrow> tm \<Rightarrow> tm" where
  "set_field Fld_min v t = t\<lparr>tm_min := v\<rparr>"
| "set_field Fld_hour v t = t\<lparr>tm_hour := v\<rparr>"
| "set_field Fld_mday v t = t\<lparr>tm_mday := v\<rparr>"

text \<open>
  \<open>while (mark <= field) mark += amount\<close>. Every amount of the table is positive
  (\<open>IncrementAmount_pos\<close>); with another the loop of the source does not end.
\<close>

function mark_loop :: "int \<Rightarrow> int \<Rightarrow> int \<Rightarrow> int" where
  "mark_loop amount fld mark =
     (if mark \<le> fld \<and> 0 < amount then mark_loop amount fld (mark + amount) else mark)"
  by pat_completeness auto

termination
  by (relation "measure (\<lambda>(amount, fld, mark). nat (fld + 1 - mark))") auto

declare mark_loop.simps [simp del]

definition NextMark :: "timezone \<Rightarrow> RollPeriod \<Rightarrow> int \<Rightarrow> int" where
  "NextMark z rp now =
     (let fld = FieldToIncrement rp; amount = IncrementAmount rp;
          tms = localtime z now;
          mark = mark_loop amount (get_field fld tms) 0;
          tms = set_field fld mark tms;
          tms = (if fld = Fld_mday then tms\<lparr>tm_hour := 0, tm_min := 0, tm_sec := 0\<rparr>
                 else if fld = Fld_hour then tms\<lparr>tm_min := 0, tm_sec := 0\<rparr>
                 else tms\<lparr>tm_sec := 0\<rparr>)
      in mktime z tms)"

section \<open>Intervals\<close>

record RollInterval =
  ri_rp :: RollPeriod
  ri_fieldToIncrement :: tm_field
  ri_incrementAmount :: int
  ri_endTime :: int

text \<open>
  The default constructor leaves \<open>_rp\<close> uninitialised: \<open>rp\<close> is what the storage holds.
\<close>

definition RollInterval_default :: "timezone \<Rightarrow> int \<Rightarrow> RollPeriod \<Rightarrow> RollInterval" where
  "RollInterval_default z now rp =
     \<lparr>ri_rp = rp, ri_fieldToIncrement = Fld_mday, ri_incrementAmount = 1,
      ri_endTime = NextMark z days_1 now\<rparr>"

definition RollInterval_new :: "timezone \<Rightarrow> int \<Rightarrow> RollPeriod \<Rightarrow> RollInterval" where
  "RollInterval_new z now rp =
     \<lparr>ri_rp = rp, ri_fieldToIncrement = FieldToIncrement rp, ri_incrementAmount = IncrementAmount rp,
      ri_endTime = NextMark z rp now\<rparr>"

definition SetToCurrent :: "timezone \<Rightarrow> int \<Rightarrow> RollInterval \<Rightarrow> RollInterval" where
  "SetToCurrent z now ri = ri\<lparr>ri_endTime := NextMark z (ri_rp ri) now\<rparr>"

definition StartTime :: "RollInterval \<Rightarrow> int" where
  "StartTime ri = ri_endTime ri - IncrementSeconds (ri_rp ri)"

definition EndTime :: "RollInterval \<Rightarrow> int" where
  "EndTime ri = ri_endTime ri"

definition show_stamp :: "tm \<Rightarrow> string" where
  "show_stamp t =
     show_nat (nat (1900 + tm_year t)) @ ''/'' @ show_fixed 2 (nat (tm_mon t + 1)) @ ''/''
     @ show_fixed 2 (nat (tm_mday t)) @ '' '' @ show_fixed 2 (nat (tm_hour t)) @ '':''
     @ show_fixed 2 (nat (tm_min t)) @ '':'' @ show_fixed 2 (nat (tm_sec t))"

definition RollInterval_put :: "timezone \<Rightarrow> RollInterval \<Rightarrow> string" where
  "RollInterval_put z ri =
     show_stamp (localtime z (StartTime ri)) @ '' - '' @ show_stamp (localtime z (ri_endTime ri))"

section \<open>Lemmas\<close>

lemmas increment_defs =
  FieldToIncrement_def IncrementAmount_def IncrementSeconds_def g_incrementInfo_def inc_def

lemma IncrementAmount_pos: "0 < IncrementAmount rp"
  by (cases rp) (simp_all add: increment_defs)

text \<open>The seconds of a period are its amount in units of its field.\<close>

fun field_seconds :: "tm_field \<Rightarrow> int" where
  "field_seconds Fld_min = 60"
| "field_seconds Fld_hour = 3600"
| "field_seconds Fld_mday = 86400"

lemma IncrementSeconds_units:
  "IncrementSeconds rp = IncrementAmount rp * field_seconds (FieldToIncrement rp)"
  by (cases rp) (simp_all add: increment_defs)

lemma mark_loop_next:
  assumes "0 < amount" "mark \<le> fld + amount" "mark mod amount = 0"
  shows "fld < mark_loop amount fld mark \<and> mark_loop amount fld mark \<le> max mark (fld + amount)
    \<and> mark_loop amount fld mark mod amount = 0"
  using assms
proof (induction amount fld mark rule: mark_loop.induct)
  case (1 amount fld mark)
  show ?case
  proof (cases "mark \<le> fld")
    case True
    with 1 have "fld < mark_loop amount fld (mark + amount)
        \<and> mark_loop amount fld (mark + amount) \<le> max (mark + amount) (fld + amount)
        \<and> mark_loop amount fld (mark + amount) mod amount = 0" by simp
    with True 1(2) show ?thesis by (subst (1 2 3) mark_loop.simps) auto
  next
    case False
    with 1 show ?thesis by (subst (1 2 3) mark_loop.simps) auto
  qed
qed

lemma mark_loop_from_zero:
  assumes "0 < amount" "0 \<le> fld"
  shows "fld < mark_loop amount fld 0" "mark_loop amount fld 0 \<le> fld + amount"
    "mark_loop amount fld 0 mod amount = 0"
  using mark_loop_next[of amount 0 fld] assms by auto

lemma localtime_isdst: "tm_isdst (localtime z t) = in_dst z t"
  by (simp add: localtime_def Let_def)

lemma localtime_gmtoff: "tm_gmtoff (localtime z t) = utcoff z (in_dst z t)"
  by (simp add: localtime_def Let_def)

text \<open>
  The end of the interval against the time it is computed at: the increment of the field,
  less what the smaller fields hold.
\<close>

lemma timegm_mday: "timegm (t\<lparr>tm_mday := d, tm_hour := 0, tm_min := 0, tm_sec := 0\<rparr>) =
    timegm t + 86400 * (d - tm_mday t) - 3600 * tm_hour t - 60 * tm_min t - tm_sec t"
  using days_from_civil_linear[of _ _ d] days_from_civil_linear[of _ _ "tm_mday t"]
  by (simp add: timegm_def)

lemma timegm_hour: "timegm (t\<lparr>tm_hour := h, tm_min := 0, tm_sec := 0\<rparr>) =
    timegm t + 3600 * (h - tm_hour t) - 60 * tm_min t - tm_sec t"
  by (simp add: timegm_def)

lemma timegm_min: "timegm (t\<lparr>tm_min := m, tm_sec := 0\<rparr>) = timegm t + 60 * (m - tm_min t) - tm_sec t"
  by (simp add: timegm_def)

definition below_field :: "tm_field \<Rightarrow> tm \<Rightarrow> int" where
  "below_field fld t =
     (case fld of Fld_min \<Rightarrow> tm_sec t | Fld_hour \<Rightarrow> 60 * tm_min t + tm_sec t
      | Fld_mday \<Rightarrow> 3600 * tm_hour t + 60 * tm_min t + tm_sec t)"

lemma NextMark_eq:
  "NextMark z rp now =
     (let fld = FieldToIncrement rp; t = localtime z now
      in now + field_seconds fld * (mark_loop (IncrementAmount rp) (get_field fld t) 0 - get_field fld t)
         - below_field fld t)"
proof -
  let ?t = "localtime z now"
  have now: "timegm ?t - utcoff z (in_dst z now) = now"
    using timegm_localtime[of z now] by (simp add: localtime_gmtoff)
  show ?thesis
  proof (cases "FieldToIncrement rp")
    case Fld_min
    then show ?thesis
      using now by (simp add: NextMark_def Let_def mktime_def timegm_min localtime_isdst below_field_def)
  next
    case Fld_hour
    then show ?thesis
      using now by (simp add: NextMark_def Let_def mktime_def timegm_hour localtime_isdst below_field_def)
  next
    case Fld_mday
    then show ?thesis
      using now by (simp add: NextMark_def Let_def mktime_def timegm_mday localtime_isdst below_field_def)
  qed
qed

lemma below_field_bounds:
  "0 \<le> below_field fld (localtime z now)" "below_field fld (localtime z now) < field_seconds fld"
  using localtime_fields[of z now] by (cases fld; simp add: below_field_def)+

lemma get_field_nonneg: "0 \<le> get_field fld (localtime z now)"
  using localtime_fields[of z now] by (cases fld) simp_all

lemma NextMark_bounds:
  "now < NextMark z rp now \<and> NextMark z rp now \<le> now + IncrementSeconds rp"
proof -
  define fld where "fld = FieldToIncrement rp"
  define f where "f = get_field fld (localtime z now)"
  define m where "m = mark_loop (IncrementAmount rp) f 0"
  define b where "b = below_field fld (localtime z now)"
  have e: "NextMark z rp now = now + field_seconds fld * (m - f) - b"
    by (simp add: NextMark_eq Let_def fld_def f_def m_def b_def)
  have m: "f < m" "m \<le> f + IncrementAmount rp"
    using mark_loop_from_zero[OF IncrementAmount_pos, of f rp] get_field_nonneg[of fld z now]
    by (simp_all add: f_def m_def)
  have b: "0 \<le> b" "b < field_seconds fld" using below_field_bounds by (simp_all add: b_def)
  have p: "0 < field_seconds fld" by (cases fld) simp_all
  have "field_seconds fld * 1 \<le> field_seconds fld * (m - f)"
    using m(1) p by (intro mult_left_mono) auto
  moreover have "field_seconds fld * (m - f) \<le> field_seconds fld * IncrementAmount rp"
    using m(2) p by (intro mult_left_mono) auto
  moreover have "IncrementSeconds rp = field_seconds fld * IncrementAmount rp"
    by (simp add: IncrementSeconds_units fld_def)
  ultimately show ?thesis using b e by linarith
qed

lemma on_grid: "s dvd c \<Longrightarrow> (c * x + s * y) mod s = (0 :: int)"
  by (simp add: dvd_imp_mod_0)

text \<open>On the clock of the current offset, the end is a multiple of the period from midnight.\<close>

lemma NextMark_aligned:
  assumes "rp \<noteq> days_7"
  shows "(NextMark z rp now + utcoff z (in_dst z now)) mod IncrementSeconds rp = 0"
proof -
  let ?t = "localtime z now"
  define fld where "fld = FieldToIncrement rp"
  define a where "a = IncrementAmount rp"
  define f where "f = get_field fld ?t"
  define m where "m = mark_loop a f 0"
  have m: "m mod a = 0"
    unfolding m_def
    by (rule mark_loop_from_zero(3)) (simp_all only: a_def f_def IncrementAmount_pos get_field_nonneg)
  then obtain k where k: "m = a * k" by (metis mod_0_imp_dvd dvdE)
  define D where "D = days_from_civil (1900 + tm_year ?t + tm_mon ?t div 12) (tm_mon ?t mod 12 + 1) 0"
  have lin: "days_from_civil (1900 + tm_year ?t + tm_mon ?t div 12) (tm_mon ?t mod 12 + 1) d = D + d" for d
    unfolding D_def by (rule days_from_civil_linear)
  have now: "now + utcoff z (in_dst z now) = 86400 * (D + tm_mday ?t) + 3600 * tm_hour ?t + 60 * tm_min ?t + tm_sec ?t"
    using timegm_localtime[of z now] lin by (simp add: localtime_gmtoff timegm_def)
  have e: "NextMark z rp now = now + field_seconds fld * (m - f) - below_field fld ?t"
    by (simp add: NextMark_eq Let_def fld_def f_def m_def a_def)
  show ?thesis
  proof (cases fld)
    case Fld_min
    have "NextMark z rp now + utcoff z (in_dst z now) = 3600 * (24 * (D + tm_mday ?t) + tm_hour ?t) + 60 * m"
      using now e Fld_min by (simp add: f_def below_field_def)
    moreover have "60 * m = IncrementSeconds rp * k"
      using Fld_min k by (cases rp; simp add: a_def fld_def increment_defs)
    moreover have "IncrementSeconds rp dvd 3600"
      using Fld_min by (cases rp; simp add: fld_def increment_defs)
    ultimately show ?thesis using on_grid by metis
  next
    case Fld_hour
    have "NextMark z rp now + utcoff z (in_dst z now) = 86400 * (D + tm_mday ?t) + 3600 * m"
      using now e Fld_hour by (simp add: f_def below_field_def)
    moreover have "3600 * m = IncrementSeconds rp * k"
      using Fld_hour k by (cases rp; simp add: a_def fld_def increment_defs)
    moreover have "IncrementSeconds rp dvd 86400"
      using Fld_hour by (cases rp; simp add: fld_def increment_defs)
    ultimately show ?thesis using on_grid by metis
  next
    case Fld_mday
    have "NextMark z rp now + utcoff z (in_dst z now) = 86400 * (D + m)"
      using now e Fld_mday by (simp add: f_def below_field_def)
    moreover have "IncrementSeconds rp = 86400"
      using Fld_mday assms by (cases rp; simp add: fld_def increment_defs)
    ultimately show ?thesis by simp
  qed
qed

lemma GetRollPeriod_known: "p \<in> set rollPeriods \<Longrightarrow> GetRollPeriod (fst p) = snd p"
proof -
  assume p: "p \<in> set rollPeriods"
  have "distinct (map fst rollPeriods)" by code_simp
  from find_first_distinct[OF this p] show ?thesis by (simp add: GetRollPeriod_def)
qed

section \<open>Properties\<close>

text \<open>
  C24. A roll interval, freshly constructed or set to current, contains the time it was computed
  at: it starts no later and ends strictly after, and it is exactly as long as its period.
  This holds for every period, time zone and time.
\<close>

theorem roll_interval_contains_now:
  "(let ri = RollInterval_new z now rp
    in StartTime ri \<le> now \<and> now < EndTime ri \<and> EndTime ri - StartTime ri = IncrementSeconds rp)
   \<and> (let ri' = SetToCurrent z now ri
      in StartTime ri' \<le> now \<and> now < EndTime ri' \<and> EndTime ri' - StartTime ri' = IncrementSeconds (ri_rp ri))"
  using NextMark_bounds[of now z rp] NextMark_bounds[of now z "ri_rp ri"]
  by (simp add: StartTime_def EndTime_def RollInterval_new_def SetToCurrent_def Let_def)

text \<open>
  The end of an interval lies on the grid of its period: for every period but the
  seven-day one, the local time at the end, read with the offset in force now, is a whole
  number of periods after midnight.
\<close>

theorem roll_interval_end_on_grid:
  assumes "rp \<noteq> days_7"
  shows "(EndTime (RollInterval_new z now rp) + utcoff z (in_dst z now)) mod IncrementSeconds rp = 0"
  using NextMark_aligned[OF assms] by (simp add: EndTime_def RollInterval_new_def)

lemma roll_interval_end_on_grid_witness:
  "(EndTime (RollInterval_new \<lparr>std_off = 3600, dst_off = 7200, in_dst = (\<lambda>_. True)\<rparr> 1700000000 hours_6)
    + 7200) mod 21600 = 0"
  using roll_interval_end_on_grid[of hours_6 "\<lparr>std_off = 3600, dst_off = 7200, in_dst = (\<lambda>_. True)\<rparr>" 1700000000]
  by (simp add: utcoff_def IncrementSeconds_def g_incrementInfo_def inc_def)

text \<open>
  The seven-day period is not one: its marks are multiples of seven of the day of the
  month, so the interval that follows one across the end of a month is shorter. Computed on
  29 January 2024 the interval ends on 4 February, and the next one ends three days later.
\<close>

theorem seven_days_restart_each_month:
  "let z = \<lparr>std_off = 0, dst_off = 0, in_dst = (\<lambda>_. False)\<rparr>;
       e1 = EndTime (RollInterval_new z 1706529600 days_7);
       e2 = EndTime (RollInterval_new z e1 days_7)
   in e1 = 1707004800 \<and> e2 - e1 = 3 * 86400 \<and> IncrementSeconds days_7 = 7 * 86400"
proof -
  let ?z = "\<lparr>std_off = 0, dst_off = 0, in_dst = (\<lambda>_. False)\<rparr>"
  have 1: "localtime ?z 1706529600 = \<lparr>tm_year = 124, tm_mon = 0, tm_mday = 29, tm_hour = 12, tm_min = 0,
      tm_sec = 0, tm_isdst = False, tm_gmtoff = 0\<rparr>"
    by code_simp
  have 2: "localtime ?z 1707004800 = \<lparr>tm_year = 124, tm_mon = 1, tm_mday = 4, tm_hour = 0, tm_min = 0,
      tm_sec = 0, tm_isdst = False, tm_gmtoff = 0\<rparr>"
    by code_simp
  have "NextMark ?z days_7 1706529600 = 1707004800"
    by (simp add: NextMark_eq 1 increment_defs mark_loop.simps below_field_def)
  moreover have "NextMark ?z days_7 1707004800 = 1707264000"
    by (simp add: NextMark_eq 2 increment_defs mark_loop.simps below_field_def)
  ultimately show ?thesis
    by (simp add: EndTime_def RollInterval_new_def Let_def increment_defs)
qed

end
