(* ===== verification/Streams.thy ===== *)
theory Streams
  imports Prelude "HOL-Library.Monad_Syntax"
begin

text \<open>
  The C++ streams the repository reads and writes through.
  \<^item> \<open>istream\<close>: what is left to read and the failbit (\<open>operator bool\<close> is its negation).
    An operation on a failed stream does nothing.
  \<^item> \<open>ostream\<close>: a buffer, the put position, the room of a fixed \<open>std::span\<close> (\<open>None\<close> for a
    stream that grows) and the failbit. A write that does not fit stores the part that fits
    and fails, as \<open>std::ostream::write\<close> on a \<open>std::spanbuf\<close> does.
  \<^item> \<open>read_loop\<close>: \<open>while (x.Read(is)) { ... }\<close>, \<open>None\<close> when it does not end.
\<close>

section \<open>Input streams\<close>

record istream =
  inb :: bytes
  failb :: bool

definition good :: "bytes \<Rightarrow> istream" where
  "good s = \<lparr>inb = s, failb = False\<rparr>"

definition set_fail :: "istream \<Rightarrow> istream" where
  "set_fail is = is\<lparr>failb := True\<rparr>"

lemma good_sel [simp]: "inb (good s) = s" "\<not> failb (good s)"
  by (simp_all add: good_def)

lemma set_fail_sel [simp]: "inb (set_fail is) = inb is" "failb (set_fail is)"
  by (simp_all add: set_fail_def)

lemma good_eq_iff [simp]: "good s = good t \<longleftrightarrow> s = t"
  by (simp add: good_def)

lemma not_failed_good: "\<not> failb is \<Longrightarrow> is = good (inb is)"
  by (simp add: good_def)

text \<open>\<open>is >> s\<close> into a \<open>std::string\<close>: skip white space, take the next word, fail on none.\<close>

definition extract_word :: "istream \<Rightarrow> string \<times> istream" where
  "extract_word is =
     (if failb is then ([], is)
      else let s = dropWhile is_space (inb is);
               w = takeWhile (\<lambda>c. \<not> is_space c) s;
               r = dropWhile (\<lambda>c. \<not> is_space c) s
           in (w, \<lparr>inb = r, failb = (w = [])\<rparr>))"

text \<open>\<open>is >> std::ws\<close>.\<close>

definition skip_ws :: "istream \<Rightarrow> istream" where
  "skip_ws is = (if failb is then is else is\<lparr>inb := dropWhile is_space (inb is)\<rparr>)"

text \<open>\<open>std::getline(is, s)\<close>: fails when there is nothing left to read.\<close>

definition get_line :: "istream \<Rightarrow> string \<times> istream" where
  "get_line is =
     (if failb is then ([], is)
      else if inb is = [] then ([], set_fail is)
      else (takeWhile (\<lambda>c. c \<noteq> CHR ''\<newline>'') (inb is),
            good (drop 1 (dropWhile (\<lambda>c. c \<noteq> CHR ''\<newline>'') (inb is)))))"

text \<open>\<open>is.read(buf, n)\<close>: exactly \<open>n\<close> bytes, or whatever is left and a failure.\<close>

definition read_exact :: "nat \<Rightarrow> istream \<Rightarrow> bytes \<times> istream" where
  "read_exact n is =
     (if failb is then ([], is)
      else (take n (inb is),
            \<lparr>inb = drop n (inb is), failb = (length (inb is) < n)\<rparr>))"

lemma extract_word_good [stream_simps]:
  assumes "w \<noteq> []" and "\<forall>c\<in>set w. \<not> is_space c" and "s = [] \<or> is_space (hd s)"
  shows "extract_word (good (w @ s)) = (w, good s)"
proof -
  from assms(1,2) have "dropWhile is_space (w @ s) = w @ s"
    by (cases w) auto
  moreover have "takeWhile (\<lambda>c. \<not> is_space c) (w @ s) = w"
    using assms(2,3) by (intro takeWhile_all_append) auto
  moreover have "dropWhile (\<lambda>c. \<not> is_space c) (w @ s) = s"
    using assms(2,3) by (intro dropWhile_all_append) auto
  ultimately show ?thesis using assms(1)
    by (simp add: extract_word_def Let_def good_def)
qed

lemma extract_word_skip [stream_simps]:
  "is_space c \<Longrightarrow> extract_word (good (c # s)) = extract_word (good s)"
  by (simp add: extract_word_def)

lemma read_exact_good [stream_simps]:
  "length b = n \<Longrightarrow> read_exact n (good (b @ s)) = (b, good s)"
  by (simp add: read_exact_def good_def)

lemma get_line_good [stream_simps]:
  "CHR ''\<newline>'' \<notin> set l \<Longrightarrow> get_line (good (l @ CHR ''\<newline>'' # s)) = (l, good s)"
proof -
  assume "CHR ''\<newline>'' \<notin> set l"
  then have l: "\<forall>c\<in>set l. c \<noteq> CHR ''\<newline>''" by auto
  have "takeWhile (\<lambda>c. c \<noteq> CHR ''\<newline>'') (l @ CHR ''\<newline>'' # s) = l"
    using l by (intro takeWhile_all_append) auto
  moreover have "dropWhile (\<lambda>c. c \<noteq> CHR ''\<newline>'') (l @ CHR ''\<newline>'' # s) = CHR ''\<newline>'' # s"
    using l by (intro dropWhile_all_append) auto
  ultimately show ?thesis by (simp add: get_line_def)
qed

lemma skip_ws_good [stream_simps]:
  "s = [] \<or> \<not> is_space (hd s) \<Longrightarrow> is_space c \<Longrightarrow> skip_ws (good (c # s)) = good s"
  by (cases s) (auto simp: skip_ws_def good_def)

lemma failed_stream_noop [stream_simps]:
  "failb is \<Longrightarrow> extract_word is = ([], is)"
  "failb is \<Longrightarrow> skip_ws is = is"
  "failb is \<Longrightarrow> get_line is = ([], is)"
  "failb is \<Longrightarrow> read_exact n is = ([], is)"
  by (simp_all add: extract_word_def skip_ws_def get_line_def read_exact_def)

section \<open>Output streams\<close>

record ostream =
  obuf :: bytes
  opos :: nat
  olimit :: "nat option"
  ofail :: bool

definition os_room :: "ostream \<Rightarrow> nat \<Rightarrow> nat" where
  "os_room os n = (case olimit os of None \<Rightarrow> n | Some m \<Rightarrow> m - opos os)"

definition os_write :: "bytes \<Rightarrow> ostream \<Rightarrow> ostream" where
  "os_write bs os =
     (if ofail os then os
      else let w = take (os_room os (length bs)) bs
           in os\<lparr>obuf := take (opos os) (obuf os) @ w @ drop (opos os + length w) (obuf os),
                 opos := opos os + length w,
                 ofail := os_room os (length bs) < length bs\<rparr>)"

text \<open>A growing stream (\<open>std::ostringstream\<close>, an appended file) holding \<open>s\<close>.\<close>

definition os_growing :: "bytes \<Rightarrow> ostream" where
  "os_growing s = \<lparr>obuf = s, opos = length s, olimit = None, ofail = False\<rparr>"

text \<open>\<open>std::spanstream\<close> over the buffer \<open>s\<close>, at its start.\<close>

definition os_span :: "bytes \<Rightarrow> ostream" where
  "os_span s = \<lparr>obuf = s, opos = 0, olimit = Some (length s), ofail = False\<rparr>"

text \<open>\<open>seekp\<close> and \<open>clear\<close>: a failed stream ignores the former.\<close>

definition os_seekp :: "nat \<Rightarrow> ostream \<Rightarrow> ostream" where
  "os_seekp n os = (if ofail os then os else os\<lparr>opos := n\<rparr>)"

definition os_clear :: "ostream \<Rightarrow> ostream" where
  "os_clear os = os\<lparr>ofail := False\<rparr>"

lemma os_write_Nil [simp]: "os_write [] os = os"
  by (simp add: os_write_def os_room_def)

lemma os_write_failed [simp]: "ofail os \<Longrightarrow> os_write bs os = os"
  by (simp add: os_write_def)

lemma os_write_limit [simp]: "olimit (os_write bs os) = olimit os"
  by (simp add: os_write_def Let_def)

lemma os_write_growing [stream_simps]:
  "os_write bs (os_growing s) = os_growing (s @ bs)"
  by (simp add: os_write_def os_growing_def os_room_def)

text \<open>The put position stays inside the buffer, and the buffer of a span keeps its length.\<close>

definition os_wf :: "ostream \<Rightarrow> bool" where
  "os_wf os \<longleftrightarrow> opos os \<le> length (obuf os) \<and>
     (case olimit os of None \<Rightarrow> True | Some m \<Rightarrow> length (obuf os) = m)"

lemma os_wf_span: "os_wf (os_span s)"
  by (simp add: os_wf_def os_span_def)

lemma os_wf_write: "os_wf os \<Longrightarrow> os_wf (os_write bs os)"
  by (auto simp: os_wf_def os_write_def os_room_def Let_def split: option.splits)

lemma os_write_fits:
  assumes "os_wf os" "\<not> ofail os" "olimit os = Some m" "opos os + length bs \<le> m"
  shows "os_write bs os =
    os\<lparr>obuf := take (opos os) (obuf os) @ bs @ drop (opos os + length bs) (obuf os),
       opos := opos os + length bs\<rparr>"
  using assms by (simp add: os_write_def os_room_def Let_def)

lemma os_write_overflow:
  assumes "os_wf os" "\<not> ofail os" "olimit os = Some m" "m < opos os + length bs"
  shows "ofail (os_write bs os) \<and> take (opos os) (obuf (os_write bs os)) = take (opos os) (obuf os)"
  using assms by (auto simp: os_write_def os_room_def os_wf_def Let_def)

text \<open>Writing in one piece or in two makes no difference, failures included.\<close>

lemma os_write_append:
  assumes "os_wf os"
  shows "os_write cs (os_write bs os) = os_write (bs @ cs) os"
proof (cases "ofail os")
  case True
  then show ?thesis by simp
next
  case False
  show ?thesis
  proof (cases "olimit os")
    case None
    with False assms show ?thesis
      by (simp add: os_write_def os_room_def os_wf_def min_def ac_simps)
  next
    case (Some m)
    show ?thesis
    proof (cases "opos os + length bs \<le> m")
      case True
      with False assms Some show ?thesis
        by (auto simp: os_write_def os_room_def os_wf_def Let_def min_def ac_simps
              diff_diff_left take_all)
    next
      case over: False
      then have "ofail (os_write bs os)"
        using False Some assms by (simp add: os_write_def os_room_def os_wf_def Let_def less_diff_conv2)
      then have "os_write cs (os_write bs os) = os_write bs os" by simp
      also have "\<dots> = os_write (bs @ cs) os"
        using over False Some assms
        by (simp add: os_write_def os_room_def os_wf_def Let_def less_diff_conv2 trans_less_add1)
      finally show ?thesis .
    qed
  qed
qed

section \<open>The read loop\<close>

text \<open>
  \<open>while (x.Read(is)) { use x }\<close>: the values read, in order, and what the object holds
  after the read that failed. The object is the same in every round, so a reader takes
  what it holds as an argument.
\<close>

partial_function (option) read_loop ::
    "(istream \<Rightarrow> 'a \<Rightarrow> 'a \<times> istream) \<Rightarrow> istream \<Rightarrow> 'a \<Rightarrow> ('a list \<times> 'a) option" where
  "read_loop rd is x =
     (if failb (snd (rd is x)) then Some ([], fst (rd is x))
      else Option.bind (read_loop rd (snd (rd is x)) (fst (rd is x)))
             (\<lambda>r. Some (fst (rd is x) # fst r, snd r)))"

lemma read_loop_stop: "failb (snd (rd is x)) \<Longrightarrow> read_loop rd is x = Some ([], fst (rd is x))"
  by (subst read_loop.simps) simp

lemma read_loop_step:
  "rd is x = (y, js) \<Longrightarrow> \<not> failb js \<Longrightarrow>
   read_loop rd is x = Option.bind (read_loop rd js y) (\<lambda>r. Some (y # fst r, snd r))"
  by (subst read_loop.simps) simp

section \<open>Binary codecs\<close>

text \<open>
  A class with a binary \<open>Write\<close> and \<open>Read\<close>: \<open>wr\<close> is what \<open>Write\<close> puts on the stream,
  \<open>rd\<close> what \<open>Read\<close> makes of a stream and the object it reads into, \<open>ok\<close> the values the
  format can carry, \<open>env\<close> the third-party primitives both are built on.
\<close>

locale stream_codec =
  fixes env_ok :: "'e \<Rightarrow> bool"
    and wr :: "'e \<Rightarrow> 'a \<Rightarrow> bytes"
    and rd :: "'e \<Rightarrow> istream \<Rightarrow> 'a \<Rightarrow> 'a \<times> istream"
    and ok :: "'a \<Rightarrow> bool"
  assumes rd_wr: "env_ok e \<Longrightarrow> ok x \<Longrightarrow> rd e (good (wr e x @ s)) x0 = (x, good s)"
    and rd_shrinks: "env_ok e \<Longrightarrow> \<not> failb (snd (rd e is x0)) \<Longrightarrow>
      \<not> failb is \<and> length (inb (snd (rd e is x0))) < length (inb is)"
begin

lemma rd_empty: "env_ok e \<Longrightarrow> failb (snd (rd e (good []) x0))"
  using rd_shrinks[of e "good []" x0] by auto

lemma wr_nonempty: "env_ok e \<Longrightarrow> ok x \<Longrightarrow> wr e x \<noteq> []"
proof
  assume "env_ok e" "ok x" "wr e x = []"
  with rd_wr[of e x "[]" x] have "rd e (good []) x = (x, good [])" by simp
  with rd_empty[OF \<open>env_ok e\<close>, of x] show False by simp
qed

lemma prefix_free:
  assumes "env_ok e" "ok x" "ok y" "wr e x @ s = wr e y @ t"
  shows "x = y \<and> s = t"
proof -
  have "(x, good s) = rd e (good (wr e x @ s)) x" by (rule rd_wr[OF assms(1,2), symmetric])
  also have "\<dots> = (y, good t)" unfolding assms(4) by (rule rd_wr[OF assms(1,3)])
  finally show ?thesis by simp
qed

lemma wr_inject: "env_ok e \<Longrightarrow> ok x \<Longrightarrow> ok y \<Longrightarrow> wr e x = wr e y \<Longrightarrow> x = y"
  using prefix_free[of e x y "[]" "[]"] by simp

lemma loop_total: "env_ok e \<Longrightarrow> \<exists>r. read_loop (rd e) is x0 = Some r"
proof (induction "length (inb is)" arbitrary: "is" x0 rule: less_induct)
  case less
  show ?case
  proof (cases "failb (snd (rd e is x0))")
    case True
    then show ?thesis by (simp add: read_loop_stop)
  next
    case False
    with less.prems have "length (inb (snd (rd e is x0))) < length (inb is)"
      by (blast dest: rd_shrinks)
    with less obtain r where "read_loop (rd e) (snd (rd e is x0)) (fst (rd e is x0)) = Some r"
      by blast
    with False show ?thesis by (subst read_loop.simps) simp
  qed
qed

lemma loop_append:
  assumes "env_ok e" and "\<forall>x\<in>set xs. ok x"
  shows "read_loop (rd e) (good (concat (map (wr e) xs) @ s)) x0 =
         map_option (apfst ((@) xs)) (read_loop (rd e) (good s) (last (x0 # xs)))"
  using assms(2)
proof (induction xs arbitrary: x0)
  case Nil
  show ?case by (simp add: apfst_def map_prod_def case_prod_beta map_option_case split: option.split)
next
  case (Cons x xs)
  then have "rd e (good (wr e x @ concat (map (wr e) xs) @ s)) x0 = (x, good (concat (map (wr e) xs) @ s))"
    by (simp add: rd_wr assms(1))
  then have "read_loop (rd e) (good (wr e x @ concat (map (wr e) xs) @ s)) x0 =
      Option.bind (read_loop (rd e) (good (concat (map (wr e) xs) @ s)) x) (\<lambda>r. Some (x # fst r, snd r))"
    by (rule read_loop_step) simp
  with Cons show ?case
    by (cases "read_loop (rd e) (good s) (last (x # xs))") (auto simp: apfst_def map_prod_def)
qed

lemma loop_concat:
  assumes "env_ok e" and "\<forall>x\<in>set xs. ok x"
  shows "\<exists>y. read_loop (rd e) (good (concat (map (wr e) xs))) x0 = Some (xs, y)"
  using loop_append[OF assms, of "[]" x0] read_loop_stop[of "rd e" "good []" "last (x0 # xs)"]
    rd_empty[OF assms(1)] by auto

end

end
