(* ===== verification/Wire.thy ===== *)
theory Wire
  imports Streams
begin

text \<open>
  The third-party primitives of the binary format (libDwm's \<open>StreamIO\<close>, \<open>EncodedU64\<close>,
  \<open>IOUtils::StreamedLength\<close>; libCredence's \<open>ShortString\<close>) are a parameter \<open>io\<close> of every
  definition that uses them. \<open>io_ok\<close> states what the code relies on: a value written is
  the value read back, whatever follows it on the stream; a read that succeeds has consumed
  something; the announced length is the length written; a short enough string becomes a
  \<open>ShortString\<close> unchanged. \<open>sample_io\<close> is a concrete format that meets these laws.
\<close>

section \<open>The primitives\<close>

record dwm_io =
  enc_u8 :: "u8 \<Rightarrow> bytes"
  dec_u8 :: "istream \<Rightarrow> u8 \<Rightarrow> u8 \<times> istream"
  enc_u32 :: "u32 \<Rightarrow> bytes"
  dec_u32 :: "istream \<Rightarrow> u32 \<Rightarrow> u32 \<times> istream"
  enc_eu64 :: "u64 \<Rightarrow> bytes"
  dec_eu64 :: "istream \<Rightarrow> u64 \<Rightarrow> u64 \<times> istream"
  enc_short :: "nat \<Rightarrow> string \<Rightarrow> bytes"
  dec_short :: "nat \<Rightarrow> istream \<Rightarrow> string \<Rightarrow> string \<times> istream"
  enc_str :: "string \<Rightarrow> bytes"
  dec_str :: "istream \<Rightarrow> string \<Rightarrow> string \<times> istream"
  slen_u8 :: "u8 \<Rightarrow> nat"
  slen_u32 :: "u32 \<Rightarrow> nat"
  slen_eu64 :: "u64 \<Rightarrow> nat"
  slen_short :: "nat \<Rightarrow> string \<Rightarrow> nat"
  short :: "nat \<Rightarrow> string \<Rightarrow> string result"

definition prim_ok :: "('a \<Rightarrow> bytes) \<Rightarrow> (istream \<Rightarrow> 'a \<Rightarrow> 'a \<times> istream) \<Rightarrow> ('a \<Rightarrow> bool) \<Rightarrow> bool" where
  "prim_ok enc dec ok \<longleftrightarrow>
     (\<forall>x s y. ok x \<longrightarrow> dec (good (enc x @ s)) y = (x, good s)) \<and>
     (\<forall>is y. \<not> failb (snd (dec is y)) \<longrightarrow>
        \<not> failb is \<and> length (inb (snd (dec is y))) < length (inb is))"

definition io_ok :: "dwm_io \<Rightarrow> bool" where
  "io_ok io \<longleftrightarrow>
     prim_ok (enc_u8 io) (dec_u8 io) (\<lambda>_. True) \<and>
     prim_ok (enc_u32 io) (dec_u32 io) (\<lambda>_. True) \<and>
     prim_ok (enc_eu64 io) (dec_eu64 io) (\<lambda>_. True) \<and>
     (\<forall>n. prim_ok (enc_short io n) (dec_short io n) (\<lambda>s. length s \<le> n)) \<and>
     prim_ok (enc_str io) (dec_str io) (\<lambda>_. True) \<and>
     slen_u8 io = length \<circ> enc_u8 io \<and>
     slen_u32 io = length \<circ> enc_u32 io \<and>
     slen_eu64 io = length \<circ> enc_eu64 io \<and>
     (\<forall>n. slen_short io n = length \<circ> enc_short io n) \<and>
     (\<forall>n s. length s \<le> n \<longrightarrow> short io n s = Inr s)"

lemma prim_roundtrip:
  "prim_ok enc dec ok \<Longrightarrow> ok x \<Longrightarrow> dec (good (enc x @ s)) y = (x, good s)"
  by (simp add: prim_ok_def)

lemma prim_shrinks:
  "prim_ok enc dec ok \<Longrightarrow> dec is y = (x, js) \<Longrightarrow> \<not> failb js \<Longrightarrow>
   \<not> failb is \<and> length (inb js) < length (inb is)"
  unfolding prim_ok_def by (metis snd_conv)

lemma io_ok_prims:
  assumes "io_ok io"
  shows "prim_ok (enc_u8 io) (dec_u8 io) (\<lambda>_. True)"
    and "prim_ok (enc_u32 io) (dec_u32 io) (\<lambda>_. True)"
    and "prim_ok (enc_eu64 io) (dec_eu64 io) (\<lambda>_. True)"
    and "prim_ok (enc_short io n) (dec_short io n) (\<lambda>s. length s \<le> n)"
    and "prim_ok (enc_str io) (dec_str io) (\<lambda>_. True)"
  using assms by (simp_all add: io_ok_def)

text \<open>The shape in which the classes use the laws: what one primitive read returns.\<close>

lemma dec_prims [codec_simps]:
  assumes "io_ok io"
  shows "dec_u8 io (good (enc_u8 io b @ s)) b' = (b, good s)"
    and "dec_u32 io (good (enc_u32 io w @ s)) w' = (w, good s)"
    and "dec_eu64 io (good (enc_eu64 io q @ s)) q' = (q, good s)"
    and "length t \<le> n \<Longrightarrow> dec_short io n (good (enc_short io n t @ s)) t' = (t, good s)"
    and "dec_str io (good (enc_str io t @ s)) t' = (t, good s)"
  using io_ok_prims[OF assms] by (auto intro: prim_roundtrip)

lemma slen_prims [codec_simps]:
  assumes "io_ok io"
  shows "slen_u8 io b = length (enc_u8 io b)"
    and "slen_u32 io w = length (enc_u32 io w)"
    and "slen_eu64 io q = length (enc_eu64 io q)"
    and "slen_short io n t = length (enc_short io n t)"
    and "length t \<le> n \<Longrightarrow> short io n t = Inr t"
  using assms by (simp_all add: io_ok_def)

lemma prims_shrink:
  assumes "io_ok io"
  shows "dec_u8 io is b' = (b, js) \<Longrightarrow> \<not> failb js \<Longrightarrow> \<not> failb is \<and> length (inb js) < length (inb is)"
    and "dec_u32 io is w' = (w, js) \<Longrightarrow> \<not> failb js \<Longrightarrow> \<not> failb is \<and> length (inb js) < length (inb is)"
    and "dec_eu64 io is q' = (q, js) \<Longrightarrow> \<not> failb js \<Longrightarrow> \<not> failb is \<and> length (inb js) < length (inb is)"
    and "dec_short io n is t' = (t, js) \<Longrightarrow> \<not> failb js \<Longrightarrow> \<not> failb is \<and> length (inb js) < length (inb is)"
    and "dec_str io is t' = (t, js) \<Longrightarrow> \<not> failb js \<Longrightarrow> \<not> failb is \<and> length (inb js) < length (inb is)"
  using io_ok_prims[OF assms] by (blast dest: prim_shrinks)+

section \<open>A concrete format\<close>

text \<open>Numbers in decimal closed by a semicolon, strings after their length.\<close>

definition sample_enc :: "nat \<Rightarrow> bytes" where
  "sample_enc n = show_nat n @ '';''"

definition sample_dec :: "istream \<Rightarrow> nat option \<times> istream" where
  "sample_dec is =
     (let ds = takeWhile is_digit (inb is); r = dropWhile is_digit (inb is)
      in if failb is \<or> ds = [] \<or> r = [] then (None, set_fail is)
         else (Some (digits_val ds), good (tl r)))"

definition sample_dec_word :: "istream \<Rightarrow> 'a::len word \<Rightarrow> 'a word \<times> istream" where
  "sample_dec_word is w =
     (case sample_dec is of (None, js) \<Rightarrow> (w, js) | (Some n, js) \<Rightarrow> (of_nat n, js))"

definition sample_enc_str :: "string \<Rightarrow> bytes" where
  "sample_enc_str s = sample_enc (length s) @ s"

definition sample_dec_str :: "nat option \<Rightarrow> istream \<Rightarrow> string \<Rightarrow> string \<times> istream" where
  "sample_dec_str m is s =
     (case sample_dec is of
        (None, js) \<Rightarrow> (s, js)
      | (Some n, js) \<Rightarrow>
          if (case m of None \<Rightarrow> False | Some k \<Rightarrow> k < n) \<or> length (inb js) < n
          then (s, set_fail js)
          else (take n (inb js), good (drop n (inb js))))"

definition sample_io :: dwm_io where
  "sample_io =
     \<lparr>enc_u8 = \<lambda>w. sample_enc (unat w), dec_u8 = sample_dec_word,
      enc_u32 = \<lambda>w. sample_enc (unat w), dec_u32 = sample_dec_word,
      enc_eu64 = \<lambda>w. sample_enc (unat w), dec_eu64 = sample_dec_word,
      enc_short = \<lambda>_. sample_enc_str, dec_short = \<lambda>n. sample_dec_str (Some n),
      enc_str = sample_enc_str, dec_str = sample_dec_str None,
      slen_u8 = \<lambda>w. length (sample_enc (unat w)),
      slen_u32 = \<lambda>w. length (sample_enc (unat w)),
      slen_eu64 = \<lambda>w. length (sample_enc (unat w)),
      slen_short = \<lambda>_ s. length (sample_enc_str s),
      short = \<lambda>n s. if length s \<le> n then Inr s else Inl LengthError\<rparr>"

lemma sample_dec_enc: "sample_dec (good (sample_enc n @ s)) = (Some n, good s)"
proof -
  have ds: "\<forall>c\<in>set (show_nat n). is_digit c" by (simp add: show_nat_digits)
  have semi: "\<not> is_digit (CHR '';'')" by (simp add: is_digit_def)
  have "takeWhile is_digit (show_nat n @ '';'' @ s) = show_nat n"
    using ds semi by (intro takeWhile_all_append) auto
  moreover have "dropWhile is_digit (show_nat n @ '';'' @ s) = '';'' @ s"
    using ds semi by (intro dropWhile_all_append) auto
  ultimately show ?thesis by (simp add: sample_dec_def sample_enc_def Let_def)
qed

lemma sample_dec_shrinks:
  assumes "sample_dec is = (r, js)" "\<not> failb js"
  shows "\<not> failb is \<and> length (inb js) < length (inb is) \<and> r \<noteq> None"
proof -
  have "length (tl (dropWhile is_digit (inb is))) < length (inb is)"
    if "dropWhile is_digit (inb is) \<noteq> []"
  proof -
    have "length (tl (dropWhile is_digit (inb is))) < length (dropWhile is_digit (inb is))"
      using that by (cases "dropWhile is_digit (inb is)") auto
    also have "\<dots> \<le> length (inb is)" by (rule length_dropWhile_le)
    finally show ?thesis .
  qed
  with assms show ?thesis by (auto simp: sample_dec_def Let_def split: if_splits)
qed

lemma sample_dec_SomeD: "sample_dec is = (Some n, js) \<Longrightarrow> \<not> failb js"
  by (auto simp: sample_dec_def Let_def split: if_splits)

lemma sample_word_ok: "prim_ok (\<lambda>w. sample_enc (unat w)) sample_dec_word (\<lambda>_. True)"
  unfolding prim_ok_def sample_dec_word_def
  by (auto simp: sample_dec_enc dest: sample_dec_shrinks split: prod.splits option.splits)

lemma sample_str_ok:
  "prim_ok sample_enc_str (sample_dec_str m) (\<lambda>s. case m of None \<Rightarrow> True | Some k \<Rightarrow> length s \<le> k)"
  unfolding prim_ok_def
proof (intro conjI allI impI)
  fix x s y :: string assume "case m of None \<Rightarrow> True | Some k \<Rightarrow> length x \<le> k"
  then show "sample_dec_str m (good (sample_enc_str x @ s)) y = (x, good s)"
    by (auto simp: sample_dec_str_def sample_enc_str_def sample_dec_enc split: option.splits)
next
  fix "is" and y :: string assume *: "\<not> failb (snd (sample_dec_str m is y))"
  obtain r js where r: "sample_dec is = (r, js)" by fastforce
  have js: "\<not> failb js"
    using * r sample_dec_SomeD[of "is" _ js] by (cases r) (auto simp: sample_dec_str_def)
  have "length (inb (snd (sample_dec_str m is y))) \<le> length (inb js)"
    using r by (auto simp: sample_dec_str_def split: option.splits)
  with sample_dec_shrinks[OF r js]
  show "\<not> failb is" "length (inb (snd (sample_dec_str m is y))) < length (inb is)" by auto
qed

lemma sample_io_ok: "io_ok sample_io"
  using sample_word_ok[where ?'a = 8] sample_word_ok[where ?'a = 32] sample_word_ok[where ?'a = 64]
    sample_str_ok[of None] sample_str_ok[of "Some n" for n]
  by (simp add: io_ok_def sample_io_def fun_eq_iff)

end
