(* ===== verification/SeverityFacility.thy ===== *)
theory SeverityFacility
  imports Wire
begin

text \<open>
  \<open>DwmMclogSeverity.{hh,cc}\<close> and \<open>DwmMclogFacility.{hh,cc}\<close>. Both enumerations have the
  underlying type \<open>uint8_t\<close> and are read from the wire as a raw byte, so a value is an 8-bit
  word and the enumerators are the syslog constants; a value that is no enumerator is a value
  of the type too (\<open>operator <<\<close> prints it as \<open>[U]\<close>, \<open>FacilityName\<close> as \<open>unknown\<close>). The
  lemmas: the tables are searched consistently both ways, printing and reading back are
  inverse on the enumerators, everything else goes to the documented default.
\<close>

section \<open>Severity\<close>

type_synonym severity = u8

abbreviation sev_emerg :: severity where "sev_emerg \<equiv> 0"
abbreviation sev_alert :: severity where "sev_alert \<equiv> 1"
abbreviation sev_crit :: severity where "sev_crit \<equiv> 2"
abbreviation sev_err :: severity where "sev_err \<equiv> 3"
abbreviation sev_warning :: severity where "sev_warning \<equiv> 4"
abbreviation sev_notice :: severity where "sev_notice \<equiv> 5"
abbreviation sev_info :: severity where "sev_info \<equiv> 6"
abbreviation sev_debug :: severity where "sev_debug \<equiv> 7"

definition g_severityNames :: "(severity \<times> string) list" where
  "g_severityNames =
     [(sev_emerg, ''emerg''), (sev_alert, ''alert''), (sev_crit, ''crit''),
      (sev_err, ''err''), (sev_warning, ''warning''), (sev_notice, ''notice''),
      (sev_info, ''info''), (sev_debug, ''debug'')]"

definition SeverityName :: "severity \<Rightarrow> string" where
  "SeverityName severity =
     (case table_name g_severityNames severity of Some s \<Rightarrow> s | None \<Rightarrow> [])"

definition SeverityValue :: "string \<Rightarrow> severity" where
  "SeverityValue name =
     (case table_value g_severityNames name of Some v \<Rightarrow> v | None \<Rightarrow> sev_emerg)"

definition severity_tags :: "(severity \<times> string) list" where
  "severity_tags =
     [(sev_emerg, ''[M]''), (sev_alert, ''[A]''), (sev_crit, ''[C]''),
      (sev_err, ''[E]''), (sev_warning, ''[W]''), (sev_notice, ''[N]''),
      (sev_info, ''[I]''), (sev_debug, ''[D]'')]"

text \<open>\<open>operator << (ostream, Severity)\<close>: the characters printed.\<close>

definition severity_put :: "severity \<Rightarrow> string" where
  "severity_put severity =
     (case table_name severity_tags severity of Some s \<Rightarrow> s | None \<Rightarrow> ''[U]'')"

text \<open>\<open>operator >> (istream, Severity)\<close>: an unknown tag fails the stream and keeps the value.\<close>

definition severity_get :: "istream \<Rightarrow> severity \<Rightarrow> severity \<times> istream" where
  "severity_get is severity =
     (let (s, js) = extract_word is
      in if failb js then (severity, js)
         else case table_value severity_tags s of
                Some v \<Rightarrow> (v, js)
              | None \<Rightarrow> (severity, set_fail js))"

definition valid_severity :: "severity \<Rightarrow> bool" where
  "valid_severity s \<longleftrightarrow> s \<le> sev_debug"

interpretation sev_names: name_table g_severityNames
  by unfold_locales (simp_all add: g_severityNames_def)

interpretation sev_tags: name_table severity_tags
  by unfold_locales (simp_all add: severity_tags_def)

lemma valid_severity_cases:
  assumes "valid_severity s"
  obtains "s = sev_emerg" | "s = sev_alert" | "s = sev_crit" | "s = sev_err"
    | "s = sev_warning" | "s = sev_notice" | "s = sev_info" | "s = sev_debug"
proof -
  have "unat s \<le> 7" using assms by (simp add: valid_severity_def word_le_nat_alt)
  then have "unat s \<in> {0, 1, 2, 3, 4, 5, 6, 7}" by auto
  then have "s \<in> of_nat ` {0, 1, 2, 3, 4, 5, 6, 7}"
    by (intro image_eqI [where x = "unat s"]) simp_all
  then have "s \<in> {0, 1, 2, 3, 4, 5, 6, 7}" by simp
  with that show thesis by blast
qed

lemma severity_named: "table_name g_severityNames s = None \<longleftrightarrow> \<not> valid_severity s"
proof (cases "valid_severity s")
  case True
  then have "table_name g_severityNames s \<noteq> None"
    by (cases rule: valid_severity_cases) (simp_all add: table_name_def g_severityNames_def)
  with True show ?thesis by simp
next
  case False
  then have "(s, n) \<notin> set g_severityNames" for n
    by (auto simp: g_severityNames_def valid_severity_def)
  then have "table_name g_severityNames s = None"
    using sev_names.name_SomeD[of s] by (cases "table_name g_severityNames s") auto
  with False show ?thesis by simp
qed

lemma SeverityValue_SeverityName [simp]: "valid_severity s \<Longrightarrow> SeverityValue (SeverityName s) = s"
  using severity_named[of s] sev_names.name_iff_value[of s]
  by (auto simp: SeverityName_def SeverityValue_def split: option.splits)

lemma SeverityName_SeverityValue:
  "name \<in> snd ` set g_severityNames \<Longrightarrow> SeverityName (SeverityValue name) = name"
  using sev_names.value_of_entry sev_names.name_of_entry
  by (auto simp: SeverityName_def SeverityValue_def)

lemma valid_SeverityValue: "valid_severity (SeverityValue name)"
  using sev_names.value_SomeD[of name]
  by (fastforce simp: SeverityValue_def valid_severity_def g_severityNames_def split: option.splits)

lemma severity_tagged:
  assumes "valid_severity s"
  shows "table_name severity_tags s = Some (severity_put s)"
  using assms by (cases rule: valid_severity_cases)
    (simp_all add: severity_put_def table_name_def severity_tags_def)

lemma severity_put_word:
  "severity_put s \<noteq> [] \<and> (\<forall>c\<in>set (severity_put s). \<not> is_space c)"
proof (cases "table_name severity_tags s")
  case None
  then show ?thesis by (simp add: severity_put_def is_space_def)
next
  case (Some t)
  then have "(s, t) \<in> set severity_tags" by (rule sev_tags.name_SomeD)
  with Some show ?thesis by (auto simp: severity_put_def severity_tags_def is_space_def)
qed

lemma severity_get_put [codec_simps]:
  assumes "valid_severity v" and "s = [] \<or> is_space (hd s)"
  shows "severity_get (good (severity_put v @ s)) v0 = (v, good s)"
  using assms severity_put_word[of v] severity_tagged[OF assms(1)]
  by (simp add: severity_get_def extract_word_good sev_tags.name_iff_value)

lemma severity_get_unknown:
  "\<not> valid_severity v \<Longrightarrow> s = [] \<or> is_space (hd s) \<Longrightarrow>
   severity_get (good (severity_put v @ s)) v0 = (v0, set_fail (good s))"
proof -
  assume v: "\<not> valid_severity v" and s: "s = [] \<or> is_space (hd s)"
  have "table_name severity_tags v = None"
    using v sev_tags.name_SomeD[of v]
    by (cases "table_name severity_tags v") (auto simp: severity_tags_def valid_severity_def)
  then have p: "severity_put v = ''[U]''" by (simp add: severity_put_def)
  have "table_value severity_tags ''[U]'' = None"
    by (simp add: table_value_def severity_tags_def)
  then show ?thesis
    using s severity_put_word[of v]
    by (simp add: severity_get_def extract_word_good flip: p)
qed

section \<open>Facility\<close>

type_synonym facility = u8

abbreviation fac_kernel :: facility where "fac_kernel \<equiv> 0"
abbreviation fac_user :: facility where "fac_user \<equiv> 8"
abbreviation fac_local0 :: facility where "fac_local0 \<equiv> 128"
abbreviation fac_local7 :: facility where "fac_local7 \<equiv> 184"

definition g_facilities :: "(facility \<times> string) list" where
  "g_facilities =
     [(fac_kernel, ''kernel''), (fac_user, ''user''), (16, ''mail''), (24, ''daemon''),
      (32, ''auth''), (40, ''syslog''), (48, ''lpr''), (56, ''news''), (64, ''uucp''),
      (72, ''cron''), (80, ''authpriv''), (88, ''ftp''), (fac_local0, ''local0''),
      (136, ''local1''), (144, ''local2''), (152, ''local3''), (160, ''local4''),
      (168, ''local5''), (176, ''local6''), (fac_local7, ''local7'')]"

definition FacilityName :: "facility \<Rightarrow> string" where
  "FacilityName facility =
     (case table_name g_facilities facility of Some s \<Rightarrow> s | None \<Rightarrow> ''unknown'')"

definition FacilityValue :: "string \<Rightarrow> facility" where
  "FacilityValue facilityName =
     (case table_value g_facilities facilityName of Some v \<Rightarrow> v | None \<Rightarrow> fac_local7)"

definition facility_put :: "facility \<Rightarrow> string" where
  "facility_put facility = FacilityName facility"

definition facility_get :: "istream \<Rightarrow> facility \<Rightarrow> facility \<times> istream" where
  "facility_get is facility =
     (let (s, js) = extract_word is
      in if failb js then (facility, js) else (FacilityValue s, js))"

text \<open>\<open>Facilities(rgxstr, facilities)\<close>, with \<open>std::regex_match\<close> of the expression as \<open>matches\<close>.\<close>

definition Facilities :: "(string \<Rightarrow> bool) \<Rightarrow> facility set" where
  "Facilities matches = set (map fst (filter (\<lambda>p. matches (snd p)) g_facilities))"

definition valid_facility :: "facility \<Rightarrow> bool" where
  "valid_facility f \<longleftrightarrow> f \<in> fst ` set g_facilities"

interpretation fac_names: name_table g_facilities
  by unfold_locales (simp_all add: g_facilities_def)

lemma facility_named: "table_name g_facilities f = None \<longleftrightarrow> \<not> valid_facility f"
  using fac_names.name_SomeD[of f] fac_names.name_of_entry
  by (cases "table_name g_facilities f") (force simp: valid_facility_def)+

lemma FacilityValue_FacilityName [simp]: "valid_facility f \<Longrightarrow> FacilityValue (FacilityName f) = f"
  using facility_named[of f] fac_names.name_iff_value[of f]
  by (auto simp: FacilityName_def FacilityValue_def split: option.splits)

lemma FacilityName_inject:
  "valid_facility f \<Longrightarrow> valid_facility g \<Longrightarrow> FacilityName f = FacilityName g \<Longrightarrow> f = g"
  by (metis FacilityValue_FacilityName)

lemma FacilityName_invalid: "\<not> valid_facility f \<Longrightarrow> FacilityName f = ''unknown''"
  using facility_named[of f] by (simp add: FacilityName_def)

lemma FacilityName_range: "FacilityName f \<in> insert ''unknown'' (snd ` set g_facilities)"
  using fac_names.name_SomeD[of f] by (force simp: FacilityName_def split: option.splits)

lemma FacilityName_word:
  "FacilityName f \<noteq> [] \<and> (\<forall>c\<in>set (FacilityName f). is_alnum c)"
  using FacilityName_range[of f] by (auto simp: g_facilities_def is_alnum_def)

lemma facility_get_put [codec_simps]:
  assumes "valid_facility v" and "s = [] \<or> is_space (hd s)"
  shows "facility_get (good (facility_put v @ s)) v0 = (v, good s)"
  using assms FacilityName_word[of v] is_space_not_alnum
  by (auto simp: facility_get_def facility_put_def extract_word_good)

lemma valid_facility_le: "valid_facility f \<Longrightarrow> f \<le> fac_local7"
  by (auto simp: valid_facility_def g_facilities_def)

text \<open>Enumerators are multiples of 8, so a facility and a severity share no bit.\<close>

lemma valid_facility_unat: "valid_facility f \<Longrightarrow> unat f mod 8 = 0"
  by (auto simp: valid_facility_def g_facilities_def)

lemma Facilities_all: "Facilities (\<lambda>_. True) = {f. valid_facility f}"
  by (auto simp: Facilities_def valid_facility_def)

end
