(* ===== verification/Timestamp.thy ===== *)
theory Timestamp
  imports CTime Wire
begin

text \<open>
  \<open>DwmMclogTimestamp.{hh,cc}\<close>: microseconds since the epoch in a \<open>uint64_t\<close>, the binary
  form (an \<open>EncodedU64\<close>), the printed form
  \<open>YYYY-mm-dd HH:MM:SS.uuuuuu+hhmm\<close> in local time, and its reader, which takes 31 characters
  and runs \<open>sscanf\<close> over them. The lemmas: both forms read back, what the text reader
  rejects, and the order of time stamps.
\<close>

section \<open>sscanf\<close>

text \<open>
  The conversions of the format the reader uses. A number skips white space, takes a sign
  and at most its width of characters, and needs a digit; \<open>%c\<close> takes the next character
  whatever it is; a blank skips white space; any other character must be there. The result
  is the list of values assigned before the first mismatch.
\<close>

datatype scan_conv = ConvInt nat | ConvUInt nat | ConvChar | Lit char | Blank
datatype scan_val = VInt int | VUInt u32 | VChar char

definition scan_num :: "nat \<Rightarrow> string \<Rightarrow> (bool \<times> nat \<times> string) option" where
  "scan_num w s =
     (let s1 = dropWhile is_space s;
          sgn = (s1 \<noteq> [] \<and> hd s1 \<in> {CHR ''-'', CHR ''+''});
          s2 = (if sgn then tl s1 else s1);
          ds = takeWhile is_digit (take (if sgn then w - 1 else w) s2)
      in if ds = [] then None
         else Some (sgn \<and> hd s1 = CHR ''-'', digits_val ds, drop (length ds) s2))"

fun sscanf :: "scan_conv list \<Rightarrow> string \<Rightarrow> scan_val list" where
  "sscanf [] s = []"
| "sscanf (ConvInt w # fs) s =
     (case scan_num w s of
        None \<Rightarrow> []
      | Some (neg, n, r) \<Rightarrow> VInt (if neg then - int n else int n) # sscanf fs r)"
| "sscanf (ConvUInt w # fs) s =
     (case scan_num w s of
        None \<Rightarrow> []
      | Some (neg, n, r) \<Rightarrow> VUInt (if neg then - of_nat n else of_nat n) # sscanf fs r)"
| "sscanf (ConvChar # fs) s = (case s of [] \<Rightarrow> [] | c # r \<Rightarrow> VChar c # sscanf fs r)"
| "sscanf (Lit c # fs) s = (case s of [] \<Rightarrow> [] | d # r \<Rightarrow> if d = c then sscanf fs r else [])"
| "sscanf (Blank # fs) s = sscanf fs (dropWhile is_space s)"

text \<open>\<open>"%04d-%02d-%02d %02d:%02d:%02d.%06u%c%02u%02u"\<close>\<close>

definition timestamp_format :: "scan_conv list" where
  "timestamp_format =
     [ConvInt 4, Lit CHR ''-'', ConvInt 2, Lit CHR ''-'', ConvInt 2, Blank,
      ConvInt 2, Lit CHR '':'', ConvInt 2, Lit CHR '':'', ConvInt 2, Lit CHR ''.'',
      ConvUInt 6, ConvChar, ConvUInt 2, ConvUInt 2]"

section \<open>The class\<close>

datatype Timestamp = Timestamp (ts_usecs: u64)

text \<open>\<open>operator <=>\<close> is defaulted: the order of the only member.\<close>

instantiation Timestamp :: linorder
begin

definition less_eq_Timestamp :: "Timestamp \<Rightarrow> Timestamp \<Rightarrow> bool" where
  "less_eq_Timestamp a b \<longleftrightarrow> ts_usecs a \<le> ts_usecs b"

definition less_Timestamp :: "Timestamp \<Rightarrow> Timestamp \<Rightarrow> bool" where
  "less_Timestamp a b \<longleftrightarrow> ts_usecs a < ts_usecs b"

instance
  by standard (auto simp: less_eq_Timestamp_def less_Timestamp_def Timestamp.expand)

end

text \<open>The default constructor, from what \<open>gettimeofday\<close> reports.\<close>

definition Timestamp_now :: "u64 \<Rightarrow> u64 \<Rightarrow> Timestamp" where
  "Timestamp_now tv_sec tv_usec = Timestamp (tv_sec * 1000000 + tv_usec)"

definition Secs :: "Timestamp \<Rightarrow> u64" where
  "Secs ts = ts_usecs ts div 1000000"

definition Usecs :: "Timestamp \<Rightarrow> u64" where
  "Usecs ts = ts_usecs ts mod 1000000"

definition IsNormal :: "tm \<Rightarrow> u32 \<Rightarrow> u32 \<Rightarrow> bool" where
  "IsNormal t offhours offmins \<longleftrightarrow>
     tm_mon t \<ge> 0 \<and> tm_mon t < 12 \<and> tm_mday t > 0 \<and> tm_mday t < 32
     \<and> tm_hour t \<ge> 0 \<and> tm_hour t < 24 \<and> tm_min t \<ge> 0 \<and> tm_min t < 60
     \<and> tm_sec t \<ge> 0 \<and> tm_sec t < 60 \<and> offhours < 24 \<and> offmins < 60"

text \<open>
  \<open>offsecs\<close> is an \<open>int32_t\<close> computed in \<open>uint32_t\<close>; \<open>timegm(&tms) - offsecs\<close> is a signed
  64-bit value stored into a \<open>uint64_t\<close>.
\<close>

definition ToMicroseconds :: "string \<Rightarrow> u64" where
  "ToMicroseconds s =
     (case sscanf timestamp_format s of
        [VInt year, VInt mon, VInt mday, VInt hour, VInt mins, VInt sec,
         VUInt usecs, VChar offsign, VUInt offhours, VUInt offmins] \<Rightarrow>
          let tms = \<lparr>tm_year = year, tm_mon = mon - 1, tm_mday = mday, tm_hour = hour,
                     tm_min = mins, tm_sec = sec, tm_isdst = False, tm_gmtoff = 0\<rparr>
          in if \<not> IsNormal tms offhours offmins then 0
             else let tms = tms\<lparr>tm_year := tm_year tms - 1900\<rparr>;
                      offsecs = sint (offhours * 3600 + offmins * 60)
                  in if offsign = CHR ''-'' then
                       of_int (timegm tms + offsecs) * 1000000 + ucast usecs
                     else if offsign \<noteq> CHR ''+'' then 0
                     else of_int (timegm tms - offsecs) * 1000000 + ucast usecs
      | _ \<Rightarrow> 0)"

section \<open>Binary form\<close>

definition Timestamp_Read :: "dwm_io \<Rightarrow> istream \<Rightarrow> Timestamp \<Rightarrow> Timestamp \<times> istream" where
  "Timestamp_Read io is ts =
     (let (eu64, js) = dec_eu64 io is 0
      in if failb js then (Timestamp 0, js) else (Timestamp eu64, js))"

definition Timestamp_enc :: "dwm_io \<Rightarrow> Timestamp \<Rightarrow> bytes" where
  "Timestamp_enc io ts = enc_eu64 io (ts_usecs ts)"

definition Timestamp_Write :: "dwm_io \<Rightarrow> Timestamp \<Rightarrow> ostream \<Rightarrow> ostream" where
  "Timestamp_Write io ts os = os_write (enc_eu64 io (ts_usecs ts)) os"

definition Timestamp_StreamedLength :: "dwm_io \<Rightarrow> Timestamp \<Rightarrow> nat" where
  "Timestamp_StreamedLength io ts = slen_eu64 io (ts_usecs ts)"

text \<open>
  The compressed forms: the primitive of \<open>EncodedU64\<close> is a parameter that returns the byte
  count (not positive on failure), the value and the file.
\<close>

definition Timestamp_BZRead ::
    "('f \<Rightarrow> u64 \<Rightarrow> int \<times> u64 \<times> 'f) \<Rightarrow> 'f \<Rightarrow> Timestamp \<Rightarrow> int \<times> Timestamp \<times> 'f" where
  "Timestamp_BZRead rd f ts =
     (let (rc, eu64, f') = rd f 0 in (rc, if 0 < rc then Timestamp eu64 else Timestamp 0, f'))"

definition Timestamp_BZWrite :: "(u64 \<Rightarrow> 'f \<Rightarrow> int \<times> 'f) \<Rightarrow> Timestamp \<Rightarrow> 'f \<Rightarrow> int \<times> 'f" where
  "Timestamp_BZWrite wr ts f = wr (ts_usecs ts) f"

definition Timestamp_GZRead ::
    "('f \<Rightarrow> u64 \<Rightarrow> int \<times> u64 \<times> 'f) \<Rightarrow> 'f \<Rightarrow> Timestamp \<Rightarrow> int \<times> Timestamp \<times> 'f" where
  "Timestamp_GZRead rd f ts =
     (let (rc, eu64, f') = rd f 0 in (rc, if 0 < rc then Timestamp eu64 else Timestamp 0, f'))"

definition Timestamp_GZWrite :: "(u64 \<Rightarrow> 'f \<Rightarrow> int \<times> 'f) \<Rightarrow> Timestamp \<Rightarrow> 'f \<Rightarrow> int \<times> 'f" where
  "Timestamp_GZWrite wr ts f = wr (ts_usecs ts) f"

section \<open>Text form\<close>

text \<open>\<open>strftime\<close>'s \<open>%z\<close> and \<open>"%Y-%m-%d %H:%M:%S"\<close>\<close>

definition show_zone :: "int \<Rightarrow> string" where
  "show_zone off =
     (if off < 0 then CHR ''-'' else CHR ''+'')
     # show_fixed 2 (nat \<bar>off\<bar> div 3600) @ show_fixed 2 (nat \<bar>off\<bar> div 60 mod 60)"

definition show_datetime :: "tm \<Rightarrow> string" where
  "show_datetime t =
     show_nat (nat (1900 + tm_year t)) @ ''-'' @ show_fixed 2 (nat (tm_mon t + 1)) @ ''-''
     @ show_fixed 2 (nat (tm_mday t)) @ '' '' @ show_fixed 2 (nat (tm_hour t)) @ '':''
     @ show_fixed 2 (nat (tm_min t)) @ '':'' @ show_fixed 2 (nat (tm_sec t))"

definition timestamp_put :: "timezone \<Rightarrow> Timestamp \<Rightarrow> string" where
  "timestamp_put z ts =
     (let ltm = localtime z (uint (Secs ts))
      in show_datetime ltm @ ''.'' @ show_fixed 6 (unat (Usecs ts)) @ show_zone (tm_gmtoff ltm))"

text \<open>The buffer handed to \<open>ToMicroseconds\<close> is read as a C string, up to its first NUL.\<close>

definition timestamp_get :: "istream \<Rightarrow> Timestamp \<Rightarrow> Timestamp \<times> istream" where
  "timestamp_get is ts =
     (let (buf, js) = read_exact 31 is
      in if failb js then (Timestamp 0, js)
         else let us = ToMicroseconds (takeWhile (\<lambda>c. c \<noteq> CHR 0x00) buf)
              in (Timestamp us, if us = 0 then set_fail js else js))"

section \<open>Lemmas: the binary form\<close>

lemma Timestamp_Write_enc: "Timestamp_Write io ts os = os_write (Timestamp_enc io ts) os"
  by (simp add: Timestamp_Write_def Timestamp_enc_def)

lemma Timestamp_StreamedLength_enc:
  "io_ok io \<Longrightarrow> Timestamp_StreamedLength io ts = length (Timestamp_enc io ts)"
  by (simp add: Timestamp_StreamedLength_def Timestamp_enc_def slen_prims)

interpretation timestamp_codec: stream_codec io_ok Timestamp_enc Timestamp_Read "\<lambda>_. True"
proof unfold_locales
  fix io :: dwm_io and ts ts0 and s
  assume "io_ok io"
  then show "Timestamp_Read io (good (Timestamp_enc io ts @ s)) ts0 = (ts, good s)"
    by (simp add: Timestamp_Read_def Timestamp_enc_def dec_prims)
next
  fix io :: dwm_io and "is" and ts0
  assume io: "io_ok io" and *: "\<not> failb (snd (Timestamp_Read io is ts0))"
  obtain e js where e: "dec_eu64 io is 0 = (e, js)" by fastforce
  with * have "\<not> failb js" by (auto simp: Timestamp_Read_def split: if_splits)
  with prims_shrink(3)[OF io e] e
  show "\<not> failb is \<and> length (inb (snd (Timestamp_Read io is ts0))) < length (inb is)"
    by (simp add: Timestamp_Read_def)
qed

section \<open>Lemmas: the text form\<close>

lemma Secs_Usecs: "Secs ts * 1000000 + Usecs ts = ts_usecs ts"
  unfolding Secs_def Usecs_def by (rule word_mod_div_equality)

lemma unat_Usecs: "unat (Usecs ts) < 1000000"
  by (simp add: Usecs_def unat_mod)

lemma skip_fixed [simp]: "0 < w \<Longrightarrow> dropWhile is_space (show_fixed w n @ r) = show_fixed w n @ r"
proof -
  assume "0 < w"
  then obtain c cs where c: "show_fixed w n = c # cs"
    by (cases "show_fixed w n") (metis length_show_fixed less_numeral_extra(3) list.size(3))
  then have "is_digit c" using show_fixed_digits[of c w n] by simp
  then show ?thesis by (simp add: c is_space_not_digit)
qed

lemma scan_num_fixed [simp]:
  assumes "0 < w"
  shows "scan_num w (show_fixed w n @ r) = Some (False, n mod 10 ^ w, r)"
proof -
  have ds: "\<forall>c\<in>set (show_fixed w n). is_digit c" by (simp add: show_fixed_digits)
  obtain c cs where c: "show_fixed w n = c # cs"
    using assms by (cases "show_fixed w n") (metis length_show_fixed less_numeral_extra(3) list.size(3))
  with ds have "is_digit c" by auto
  then have ns: "c \<noteq> CHR ''-''" "c \<noteq> CHR ''+''" by (auto simp: is_digit_def)
  have tw: "takeWhile is_digit (show_fixed w n) = show_fixed w n"
    using ds takeWhile_eq_all_conv by blast
  have hd: "hd (show_fixed w n @ r) = c" using c by simp
  show ?thesis
    using assms ns by (simp add: scan_num_def skip_fixed hd tw Let_def) (simp add: c)
qed

lemma scan_num_fixed_end [simp]:
  "0 < w \<Longrightarrow> scan_num w (show_fixed w n) = Some (False, n mod 10 ^ w, [])"
  using scan_num_fixed[of w n "[]"] by simp

lemma show_nat_year:
  assumes "1000 \<le> y" "y < 10000"
  shows "show_nat y = show_fixed 4 y"
proof -
  have e: "y div 10 div 10 = y div 100" "y div 100 div 10 = y div 1000"
    using div_mult2_eq[of y 10 10] div_mult2_eq[of y 100 10] by simp_all
  have c: "y div 1000 < 10" "\<not> y < 10" "\<not> y div 10 < 10" "\<not> y div 100 < 10"
    using assms by linarith+
  have d: "y div 10 div 10 div 10 < 10" "\<not> y < 10" "\<not> y div 10 < 10" "\<not> y div 10 div 10 < 10"
    unfolding e by (fact c)+
  have four: "(4 :: nat) = Suc (Suc (Suc (Suc 0)))" by simp
  have "show_fixed 4 y = [digit_char (y div 10 div 10 div 10 mod 10), digit_char (y div 10 div 10 mod 10),
      digit_char (y div 10 mod 10), digit_char (y mod 10)]"
    unfolding four show_fixed.simps append.simps by (rule refl)
  also have "\<dots> = show_nat y"
    unfolding show_nat.simps[of y] show_nat.simps[of "y div 10"] show_nat.simps[of "y div 10 div 10"]
      show_nat.simps[of "y div 10 div 10 div 10"] using d by (simp only: if_False if_True append.simps mod_less)
  finally show ?thesis by simp
qed

lemma sscanf_timestamp:
  "sscanf timestamp_format
     (show_fixed 4 y @ ''-'' @ show_fixed 2 mo @ ''-'' @ show_fixed 2 d @ '' '' @ show_fixed 2 h @ '':''
      @ show_fixed 2 mi @ '':'' @ show_fixed 2 se @ ''.'' @ show_fixed 6 us @ sg # show_fixed 2 oh
      @ show_fixed 2 om) =
   [VInt (int (y mod 10000)), VInt (int (mo mod 100)), VInt (int (d mod 100)), VInt (int (h mod 100)),
    VInt (int (mi mod 100)), VInt (int (se mod 100)), VUInt (of_nat (us mod 1000000)), VChar sg,
    VUInt (of_nat (oh mod 100)), VUInt (of_nat (om mod 100))]"
  by (simp add: timestamp_format_def is_space_def)

text \<open>The zones whose offset the printed form can carry: whole minutes, less than a day.\<close>

definition zone_ok :: "timezone \<Rightarrow> bool" where
  "zone_ok z \<longleftrightarrow> (\<forall>b. \<bar>utcoff z b\<bar> < 86400 \<and> utcoff z b mod 60 = 0)"

text \<open>The local year is printed with four digits.\<close>

definition year_ok :: "timezone \<Rightarrow> Timestamp \<Rightarrow> bool" where
  "year_ok z ts \<longleftrightarrow>
     (let y = 1900 + tm_year (localtime z (uint (Secs ts))) in 1000 \<le> y \<and> y < 10000)"

lemma hours_minutes:
  fixes n :: nat
  assumes "n mod 60 = 0"
  shows "n div 3600 * 3600 + n div 60 mod 60 * 60 = n"
proof -
  obtain q where q: "n = 60 * q" using assms by auto
  have "60 * q div 3600 = q div 60" using div_mult_mult1[of 60 q 60] by simp
  moreover have "\<And>a b. q = a * 60 + b \<Longrightarrow> a * 3600 + b * 60 = 60 * q" by simp
  from this[of "q div 60" "q mod 60"] have "q div 60 * 3600 + q mod 60 * 60 = 60 * q" by simp
  ultimately show ?thesis by (simp add: q)
qed

lemma zone_split:
  fixes off :: int
  assumes "\<bar>off\<bar> < 86400" "off mod 60 = 0"
  shows "nat \<bar>off\<bar> div 3600 < 24" "nat \<bar>off\<bar> div 60 mod 60 < 60"
    and "int (nat \<bar>off\<bar> div 3600) * 3600 + int (nat \<bar>off\<bar> div 60 mod 60) * 60 = \<bar>off\<bar>"
proof -
  let ?n = "nat \<bar>off\<bar>"
  show "?n div 3600 < 24" using assms(1) by (simp add: div_less_iff_less_mult nat_less_iff)
  show "?n div 60 mod 60 < 60" by simp
  have "\<bar>off\<bar> mod 60 = 0" using assms(2) by presburger
  then have m: "?n mod 60 = 0" by (simp add: nat_mod_as_int)
  have "?n div 3600 * 3600 + ?n div 60 mod 60 * 60 = ?n" by (rule hours_minutes[OF m])
  then have "int (?n div 3600 * 3600 + ?n div 60 mod 60 * 60) = int ?n" by (rule arg_cong)
  then show "int (?n div 3600) * 3600 + int (?n div 60 mod 60) * 60 = \<bar>off\<bar>"
    by (simp only: of_nat_add of_nat_mult of_nat_numeral int_nat_eq abs_ge_zero if_True)
qed

lemma offsecs_value:
  assumes "oh < 24" "om < 60"
  shows "sint (of_nat oh * 3600 + of_nat om * 60 :: u32) = int oh * 3600 + int om * 60"
proof -
  have *: "n < 2 ^ 31 \<Longrightarrow> sint (of_nat n :: u32) = int n" for n
    by (simp add: signed_of_nat signed_take_bit_int_eq_self)
  have "of_nat oh * 3600 + of_nat om * 60 = (of_nat (oh * 3600 + om * 60) :: u32)" by simp
  then show ?thesis using *[of "oh * 3600 + om * 60"] assms by simp
qed

lemma timestamp_put_fixed:
  assumes "year_ok z ts"
  defines "l \<equiv> localtime z (uint (Secs ts))"
  shows "timestamp_put z ts =
    show_fixed 4 (nat (1900 + tm_year l)) @ ''-'' @ show_fixed 2 (nat (tm_mon l + 1)) @ ''-''
    @ show_fixed 2 (nat (tm_mday l)) @ '' '' @ show_fixed 2 (nat (tm_hour l)) @ '':''
    @ show_fixed 2 (nat (tm_min l)) @ '':'' @ show_fixed 2 (nat (tm_sec l)) @ ''.''
    @ show_fixed 6 (unat (Usecs ts))
    @ (if tm_gmtoff l < 0 then CHR ''-'' else CHR ''+'') # show_fixed 2 (nat \<bar>tm_gmtoff l\<bar> div 3600)
    @ show_fixed 2 (nat \<bar>tm_gmtoff l\<bar> div 60 mod 60)"
proof -
  have y: "1000 \<le> nat (1900 + tm_year l)" "nat (1900 + tm_year l) < 10000"
    using assms(1) by (auto simp: year_ok_def l_def Let_def)
  show ?thesis
    by (simp add: timestamp_put_def Let_def show_datetime_def show_zone_def show_nat_year[OF y] flip: l_def)
qed

lemma length_timestamp_put: "year_ok z ts \<Longrightarrow> length (timestamp_put z ts) = 31"
  by (simp add: timestamp_put_fixed)

lemma timestamp_put_no_nul:
  assumes "year_ok z ts" "c \<in> set (timestamp_put z ts)"
  shows "c \<noteq> CHR 0x00"
proof -
  have d: "d \<in> set (show_fixed w n) \<Longrightarrow> d \<noteq> CHR 0x00" for d w n
    using show_fixed_digits[of d w n] by (auto simp: is_digit_def)
  show ?thesis
    using assms(2) d unfolding timestamp_put_fixed[OF assms(1)] by (auto split: if_splits)
qed

lemma ToMicroseconds_put:
  assumes z: "zone_ok z" and y: "year_ok z ts"
  shows "ToMicroseconds (timestamp_put z ts) = ts_usecs ts"
proof -
  define t where "t = uint (Secs ts)"
  define l where "l = localtime z t"
  define us where "us = unat (Usecs ts)"
  define off where "off = tm_gmtoff l"
  define oh where "oh = nat \<bar>off\<bar> div 3600"
  define om where "om = nat \<bar>off\<bar> div 60 mod 60"
  have off: "\<bar>off\<bar> < 86400" "off mod 60 = 0"
    using z by (auto simp: off_def l_def localtime_def zone_ok_def Let_def)
  note zs = zone_split[OF off, folded oh_def om_def]
  have us: "us < 1000000" by (simp add: us_def unat_Usecs)
  have yr: "1000 \<le> 1900 + tm_year l" "1900 + tm_year l < 10000"
    using y by (auto simp: year_ok_def l_def t_def Let_def)
  note f = localtime_fields[of z t, folded l_def]
  let ?sg = "if off < 0 then CHR ''-'' else CHR ''+''"
  let ?tm = "\<lparr>tm_year = 1900 + tm_year l, tm_mon = tm_mon l, tm_mday = tm_mday l, tm_hour = tm_hour l,
    tm_min = tm_min l, tm_sec = tm_sec l, tm_isdst = False, tm_gmtoff = 0\<rparr>"
  have vals: "int (nat (1900 + tm_year l) mod 10000) = 1900 + tm_year l"
    "int (nat (tm_mon l + 1) mod 100) = tm_mon l + 1" "int (nat (tm_mday l) mod 100) = tm_mday l"
    "int (nat (tm_hour l) mod 100) = tm_hour l" "int (nat (tm_min l) mod 100) = tm_min l"
    "int (nat (tm_sec l) mod 100) = tm_sec l" "us mod 1000000 = us" "oh mod 100 = oh" "om mod 100 = om"
    using f yr us zs by (simp_all add: nat_less_iff)
  have scan: "sscanf timestamp_format (timestamp_put z ts) =
      [VInt (1900 + tm_year l), VInt (tm_mon l + 1), VInt (tm_mday l), VInt (tm_hour l),
       VInt (tm_min l), VInt (tm_sec l), VUInt (of_nat us), VChar ?sg, VUInt (of_nat oh), VUInt (of_nat om)]"
    unfolding timestamp_put_fixed[OF y, folded t_def, folded l_def, folded off_def us_def,
        folded oh_def om_def]
    unfolding sscanf_timestamp vals by (rule refl)
  have norm: "IsNormal ?tm (of_nat oh) (of_nat om)"
  proof -
    have "(of_nat oh :: u32) < 24" "(of_nat om :: u32) < 60"
      using zs by (simp_all add: word_less_nat_alt take_bit_nat_eq_self unat_of_nat)
    with f show ?thesis by (simp add: IsNormal_def)
  qed
  have gm: "timegm (?tm\<lparr>tm_year := tm_year ?tm - 1900\<rparr>) = t + off"
    using timegm_localtime[of z t, folded l_def off_def] by (simp add: timegm_def)
  have sec: "sint (of_nat oh * 3600 + of_nat om * 60 :: u32) = \<bar>off\<bar>"
    using offsecs_value[OF zs(1,2)] zs(3) by simp
  have u: "(ucast (of_nat us :: u32) :: u64) = Usecs ts"
    using us by (intro word_unat_eq_iff[THEN iffD2])
      (simp add: us_def[symmetric] unsigned_ucast_eq unsigned_of_nat take_bit_nat_eq_self)
  have tot: "of_int t * 1000000 + Usecs ts = ts_usecs ts"
    using Secs_Usecs[of ts] by (simp add: t_def)
  show ?thesis
  proof (cases "off < 0")
    case True
    then show ?thesis
      unfolding ToMicroseconds_def scan
      using norm gm sec u tot by (simp add: Let_def)
  next
    case False
    then show ?thesis
      unfolding ToMicroseconds_def scan
      using norm gm sec u tot by (simp add: Let_def)
  qed
qed

lemma timestamp_get_put [codec_simps]:
  assumes "zone_ok z" "year_ok z ts" "ts \<noteq> Timestamp 0"
  shows "timestamp_get (good (timestamp_put z ts @ s)) ts0 = (ts, good s)"
proof -
  have tw: "takeWhile (\<lambda>c. c \<noteq> CHR 0x00) (timestamp_put z ts) = timestamp_put z ts"
    using timestamp_put_no_nul[OF assms(2)] by (auto simp: takeWhile_eq_all_conv)
  have "ts_usecs ts \<noteq> 0" using assms(3) by (cases ts) simp
  then show ?thesis
    using ToMicroseconds_put[OF assms(1,2)] length_timestamp_put[OF assms(2)]
    by (simp add: timestamp_get_def read_exact_good Let_def tw)
qed

text \<open>The epoch itself is printed but not read: 0 is the reader's error value.\<close>

lemma timestamp_get_zero:
  "timestamp_get is ts0 = (Timestamp 0, js) \<Longrightarrow> failb js"
  by (auto simp: timestamp_get_def Let_def split: prod.splits if_splits)

end
