(* ===== verification/MessageOrigin.thy ===== *)
theory MessageOrigin
  imports Wire
begin

text \<open>
  \<open>DwmMclogMessageOrigin.{hh,cc}\<close>: who logged a message (host, application, process id),
  its validation, its binary form (two short strings and a \<open>uint32_t\<close>), the compressed
  forms over a BZ2 or gzip file, and the printed form \<open>host app[pid]\<close> with its reader. The
  mutex of the class only serialises its members. The lemmas: what the validation accepts,
  that no reader delivers an invalid name, and that both forms read back.
\<close>

record MessageOrigin =
  hostname :: string
  appname :: string
  procid :: u32

section \<open>Validation\<close>

text \<open>The scan of \<open>IsValidHostname\<close>: the value of the index \<open>i\<close> when its loop is left.\<close>

fun hostname_scan :: "string \<Rightarrow> nat \<Rightarrow> nat" where
  "hostname_scan [] i = i"
| "hostname_scan (c # hn) i =
     (if is_alnum c then hostname_scan hn (i + 1)
      else if c = CHR ''-'' \<or> c = CHR ''.'' then hostname_scan hn (i + 1)
      else i)"

definition IsValidHostname :: "string \<Rightarrow> bool" where
  "IsValidHostname hn \<longleftrightarrow> length hn = hostname_scan hn 0 \<and> hn \<noteq> []"

fun appname_scan :: "string \<Rightarrow> nat \<Rightarrow> nat" where
  "appname_scan [] i = i"
| "appname_scan (c # an) i =
     (if is_alnum c then appname_scan an (i + 1)
      else if c = CHR ''_'' \<or> c = CHR ''.'' \<or> c = CHR ''-'' then appname_scan an (i + 1)
      else i)"

definition IsValidAppName :: "string \<Rightarrow> bool" where
  "IsValidAppName an \<longleftrightarrow> length an = appname_scan an 0 \<and> an \<noteq> []"

section \<open>Construction and comparison\<close>

text \<open>\<open>ShortString<255>\<close> is constructed from the C strings given; \<open>pid_t\<close> becomes \<open>uint32_t\<close>.\<close>

definition MessageOrigin_new :: "dwm_io \<Rightarrow> string \<Rightarrow> string \<Rightarrow> int \<Rightarrow> MessageOrigin result" where
  "MessageOrigin_new io hn an pid =
     (case short io 255 hn of Inl e \<Rightarrow> Inl e
      | Inr h \<Rightarrow> (case short io 255 an of Inl e \<Rightarrow> Inl e
        | Inr a \<Rightarrow> Inr \<lparr>hostname = h, appname = a, procid = of_int pid\<rparr>))"

text \<open>The setters; a name is assigned to a \<open>ShortString<255>\<close> as it is when one is constructed.\<close>

definition set_hostname :: "dwm_io \<Rightarrow> string \<Rightarrow> MessageOrigin \<Rightarrow> (string \<times> MessageOrigin) result" where
  "set_hostname io hn org = map_sum (\<lambda>x. x) (\<lambda>h. (h, org\<lparr>hostname := h\<rparr>)) (short io 255 hn)"

definition set_appname :: "dwm_io \<Rightarrow> string \<Rightarrow> MessageOrigin \<Rightarrow> (string \<times> MessageOrigin) result" where
  "set_appname io an org = map_sum (\<lambda>x. x) (\<lambda>a. (a, org\<lparr>appname := a\<rparr>)) (short io 255 an)"

definition set_processid :: "u32 \<Rightarrow> MessageOrigin \<Rightarrow> u32 \<times> MessageOrigin" where
  "set_processid pid org = (pid, org\<lparr>procid := pid\<rparr>)"

text \<open>Copying and moving, member by member.\<close>

definition MessageOrigin_copy :: "MessageOrigin \<Rightarrow> MessageOrigin" where
  "MessageOrigin_copy org = \<lparr>hostname = hostname org, appname = appname org, procid = procid org\<rparr>"

definition MessageOrigin_assign :: "MessageOrigin \<Rightarrow> MessageOrigin \<Rightarrow> MessageOrigin" where
  "MessageOrigin_assign src org = org\<lparr>hostname := hostname src, appname := appname src, procid := procid src\<rparr>"

lemma MessageOrigin_copies: "MessageOrigin_copy org = org" "MessageOrigin_assign src org = src"
  by (simp_all add: MessageOrigin_copy_def MessageOrigin_assign_def)

text \<open>Setting what an origin is made of is making it.\<close>

lemma set_origin_new:
  "set_hostname io hn org = Inr (hn', o1) \<Longrightarrow> set_appname io an o1 = Inr (an', o2) \<Longrightarrow>
   MessageOrigin_new io hn an pid = Inr (snd (set_processid (of_int pid) o2))"
  by (auto simp: set_hostname_def set_appname_def set_processid_def MessageOrigin_new_def map_sum_def split: sum.splits)

definition MessageOrigin_eq :: "MessageOrigin \<Rightarrow> MessageOrigin \<Rightarrow> bool" where
  "MessageOrigin_eq a b \<longleftrightarrow>
     hostname a = hostname b \<and> appname a = appname b \<and> procid a = procid b"

section \<open>Binary form\<close>

definition MessageOrigin_Read :: "dwm_io \<Rightarrow> istream \<Rightarrow> MessageOrigin \<Rightarrow> MessageOrigin \<times> istream" where
  "MessageOrigin_Read io is org =
     (let (hn, is1) = dec_short io 255 is (hostname org); o1 = org\<lparr>hostname := hn\<rparr>
      in if failb is1 then (o1, is1)
         else if \<not> IsValidHostname hn then (o1, set_fail is1)
         else let (an, is2) = dec_short io 255 is1 (appname o1); o2 = o1\<lparr>appname := an\<rparr>
              in if failb is2 then (o2, is2)
                 else if \<not> IsValidAppName an then (o2, set_fail is2)
                 else let (pid, is3) = dec_u32 io is2 (procid o2)
                      in (o2\<lparr>procid := pid\<rparr>, is3))"

definition MessageOrigin_enc :: "dwm_io \<Rightarrow> MessageOrigin \<Rightarrow> bytes" where
  "MessageOrigin_enc io org =
     enc_short io 255 (hostname org) @ enc_short io 255 (appname org) @ enc_u32 io (procid org)"

definition MessageOrigin_Write :: "dwm_io \<Rightarrow> MessageOrigin \<Rightarrow> ostream \<Rightarrow> ostream" where
  "MessageOrigin_Write io org os =
     (let os1 = os_write (enc_short io 255 (hostname org)) os
      in if ofail os1 then os1
         else let os2 = os_write (enc_short io 255 (appname org)) os1
              in if ofail os2 then os2 else os_write (enc_u32 io (procid org)) os2)"

definition MessageOrigin_StreamedLength :: "dwm_io \<Rightarrow> MessageOrigin \<Rightarrow> nat" where
  "MessageOrigin_StreamedLength io org =
     slen_short io 255 (hostname org) + slen_short io 255 (appname org) + slen_u32 io (procid org)"

text \<open>
  The compressed forms. \<open>BZ2IO::BZReadV\<close> and \<open>GZIO::ReadV\<close> of the three members are a
  parameter that says how many bytes were read, what the members hold and the file
  afterwards; so are the writers.
\<close>

type_synonym 'f readv_origin =
  "'f \<Rightarrow> string \<times> string \<times> u32 \<Rightarrow> int \<times> (string \<times> string \<times> u32) \<times> 'f"

definition MessageOrigin_BZRead ::
    "'f readv_origin \<Rightarrow> 'f \<Rightarrow> MessageOrigin \<Rightarrow> int \<times> MessageOrigin \<times> 'f" where
  "MessageOrigin_BZRead readv f org =
     (let (bytesRead, (hn, an, pid), f') = readv f (hostname org, appname org, procid org);
          o' = \<lparr>hostname = hn, appname = an, procid = pid\<rparr>
      in (if 0 < bytesRead \<and> IsValidHostname hn \<and> IsValidAppName an then bytesRead else -1, o', f'))"

definition MessageOrigin_BZWrite ::
    "(string \<times> string \<times> u32 \<Rightarrow> 'f \<Rightarrow> int \<times> 'f) \<Rightarrow> MessageOrigin \<Rightarrow> 'f \<Rightarrow> int \<times> 'f" where
  "MessageOrigin_BZWrite writev org f = writev (hostname org, appname org, procid org) f"

definition MessageOrigin_GZRead ::
    "'f readv_origin \<Rightarrow> 'f \<Rightarrow> MessageOrigin \<Rightarrow> int \<times> MessageOrigin \<times> 'f" where
  "MessageOrigin_GZRead readv f org =
     (let (bytesRead, (hn, an, pid), f') = readv f (hostname org, appname org, procid org);
          o' = \<lparr>hostname = hn, appname = an, procid = pid\<rparr>
      in (if 0 < bytesRead \<and> IsValidHostname hn \<and> IsValidAppName an then bytesRead else -1, o', f'))"

definition MessageOrigin_GZWrite ::
    "(string \<times> string \<times> u32 \<Rightarrow> 'f \<Rightarrow> int \<times> 'f) \<Rightarrow> MessageOrigin \<Rightarrow> 'f \<Rightarrow> int \<times> 'f" where
  "MessageOrigin_GZWrite writev org f = writev (hostname org, appname org, procid org) f"

section \<open>Text form\<close>

definition origin_put :: "MessageOrigin \<Rightarrow> string" where
  "origin_put org =
     hostname org @ '' '' @ appname org @ ''['' @ show_nat (unat (procid org)) @ '']''"

text \<open>\<open>std::string::find_first_of\<close> of one character, \<open>None\<close> for \<open>npos\<close>.\<close>

fun find_first_of :: "char \<Rightarrow> string \<Rightarrow> nat option" where
  "find_first_of c [] = None"
| "find_first_of c (d # s) = (if c = d then Some 0 else map_option Suc (find_first_of c s))"

text \<open>
  The two words are extracted into locals, so a failed extraction changes nothing. What
  \<open>stoul\<close> (or the \<open>ShortString\<close> assignments) throw escapes. The process id is cut to 32 bits.
\<close>

definition origin_get :: "dwm_io \<Rightarrow> istream \<Rightarrow> MessageOrigin \<Rightarrow> (MessageOrigin \<times> istream) result" where
  "origin_get io is org =
     (let (hn, is1) = extract_word is; (procInfo, is2) = extract_word is1
      in if failb is2 then Inr (org, is2)
         else if \<not> length hn \<le> 255 then Inr (org, set_fail is2)
         else case find_first_of CHR ''['' procInfo of
           None \<Rightarrow> Inr (org, set_fail is2)
         | Some aidx \<Rightarrow>
             if \<not> aidx < 255 then Inr (org, set_fail is2)
             else case find_first_of CHR '']'' procInfo of
               None \<Rightarrow> Inr (org, set_fail is2)
             | Some pidx \<Rightarrow>
                 if \<not> pidx > aidx + 1 then Inr (org, set_fail is2)
                 else case short io 255 hn of Inl e \<Rightarrow> Inl e
                 | Inr hn' \<Rightarrow> (case short io 255 (take aidx procInfo) of Inl e \<Rightarrow> Inl e
                   | Inr an' \<Rightarrow>
                       (case stoul (take (pidx - (aidx + 1)) (drop (aidx + 1) procInfo)) of
                          Inl e \<Rightarrow> Inl e
                        | Inr pid \<Rightarrow>
                            Inr (\<lparr>hostname = hn', appname = an', procid = ucast pid\<rparr>, is2))))"

section \<open>Lemmas: validation\<close>

lemma hostname_scan_le: "hostname_scan hn i \<le> length hn + i"
proof (induction hn arbitrary: i)
  case (Cons c hn)
  then show ?case using Cons.IH[of "Suc i"] by simp
qed simp

lemma hostname_scan_all:
  "hostname_scan hn i = length hn + i \<longleftrightarrow>
   (\<forall>c\<in>set hn. is_alnum c \<or> c = CHR ''-'' \<or> c = CHR ''.'')"
proof (induction hn arbitrary: i)
  case (Cons c hn)
  then show ?case using Cons.IH[of "Suc i"] hostname_scan_le[of hn "Suc i"] by auto
qed simp

lemma IsValidHostname_iff:
  "IsValidHostname hn \<longleftrightarrow> hn \<noteq> [] \<and> (\<forall>c\<in>set hn. is_alnum c \<or> c = CHR ''-'' \<or> c = CHR ''.'')"
  using hostname_scan_all[of hn 0] by (auto simp: IsValidHostname_def)

lemma appname_scan_all:
  "appname_scan an i = length an + i \<longleftrightarrow>
   (\<forall>c\<in>set an. is_alnum c \<or> c = CHR ''_'' \<or> c = CHR ''.'' \<or> c = CHR ''-'')"
proof (induction an arbitrary: i)
  case (Cons c an)
  then show ?case using Cons.IH[of "Suc i"] by auto
qed simp

lemma IsValidAppName_iff:
  "IsValidAppName an \<longleftrightarrow>
   an \<noteq> [] \<and> (\<forall>c\<in>set an. is_alnum c \<or> c = CHR ''_'' \<or> c = CHR ''.'' \<or> c = CHR ''-'')"
  using appname_scan_all[of an 0] by (auto simp: IsValidAppName_def)

text \<open>A valid name is one word of the text form and holds none of its delimiters.\<close>

lemma valid_name_word:
  assumes "IsValidHostname s \<or> IsValidAppName s"
  shows "s \<noteq> []" "\<forall>c\<in>set s. \<not> is_space c" "CHR ''['' \<notin> set s" "CHR '']'' \<notin> set s"
    "CHR ''/'' \<notin> set s"
  using assms by (auto simp: IsValidHostname_iff IsValidAppName_iff is_space_not_alnum)
    (auto simp: is_alnum_def is_space_def)

text \<open>The origins the wire format can carry.\<close>

definition origin_ok :: "MessageOrigin \<Rightarrow> bool" where
  "origin_ok org \<longleftrightarrow>
     IsValidHostname (hostname org) \<and> length (hostname org) \<le> 255
     \<and> IsValidAppName (appname org) \<and> length (appname org) \<le> 255"

section \<open>Lemmas: the binary form\<close>

lemma MessageOrigin_Read_valid:
  assumes "MessageOrigin_Read io is org = (o', js)" "\<not> failb js"
  shows "IsValidHostname (hostname o') \<and> IsValidAppName (appname o')"
  using assms by (auto simp: MessageOrigin_Read_def Let_def split: prod.splits if_splits)

lemma MessageOrigin_Write_enc:
  "os_wf os \<Longrightarrow> MessageOrigin_Write io org os = os_write (MessageOrigin_enc io org) os"
  by (simp add: MessageOrigin_Write_def MessageOrigin_enc_def Let_def os_write_append os_wf_write
      flip: os_write_append)

lemma MessageOrigin_StreamedLength_enc:
  "io_ok io \<Longrightarrow> MessageOrigin_StreamedLength io org = length (MessageOrigin_enc io org)"
  by (simp add: MessageOrigin_StreamedLength_def MessageOrigin_enc_def slen_prims)

lemma MessageOrigin_Read_enc:
  assumes "io_ok io" "origin_ok org"
  shows "MessageOrigin_Read io (good (MessageOrigin_enc io org @ s)) o0 = (org, good s)"
  using assms by (simp add: MessageOrigin_Read_def MessageOrigin_enc_def origin_ok_def dec_prims Let_def)

lemma MessageOrigin_Read_shrinks:
  assumes "io_ok io" "\<not> failb (snd (MessageOrigin_Read io is o0))"
  shows "\<not> failb is \<and> length (inb (snd (MessageOrigin_Read io is o0))) < length (inb is)"
proof -
  obtain hn is1 where 1: "dec_short io 255 is (hostname o0) = (hn, is1)" by fastforce
  obtain an is2 where 2: "dec_short io 255 is1 (appname o0) = (an, is2)" by fastforce
  obtain p is3 where 3: "dec_u32 io is2 (procid o0) = (p, is3)" by fastforce
  from assms(2) have f: "\<not> failb is1" "\<not> failb is2" "\<not> failb is3"
    "snd (MessageOrigin_Read io is o0) = is3"
    by (auto simp: MessageOrigin_Read_def 1 2 3 Let_def split: if_splits)
  show ?thesis
    using prims_shrink(4)[OF assms(1) 1 f(1)] prims_shrink(4)[OF assms(1) 2 f(2)]
      prims_shrink(2)[OF assms(1) 3 f(3)] f(4) by simp
qed

interpretation origin_codec: stream_codec io_ok MessageOrigin_enc MessageOrigin_Read origin_ok
  by unfold_locales (auto intro: MessageOrigin_Read_enc dest: MessageOrigin_Read_shrinks)

section \<open>Lemmas: the compressed forms\<close>

lemma MessageOrigin_compressed_valid:
  assumes "MessageOrigin_BZRead readv f org = (rc, o', f') \<or> MessageOrigin_GZRead readv f org = (rc, o', f')"
    and "0 < rc"
  shows "IsValidHostname (hostname o') \<and> IsValidAppName (appname o')
    \<and> readv f (hostname org, appname org, procid org) = (rc, (hostname o', appname o', procid o'), f')"
  using assms
  by (auto simp: MessageOrigin_BZRead_def MessageOrigin_GZRead_def Let_def split: prod.splits if_splits)

section \<open>Lemmas: the text form\<close>

lemma find_first_of_append:
  "c \<notin> set s \<Longrightarrow> find_first_of c (s @ c # t) = Some (length s)"
  by (induction s) auto

text \<open>
  The text reader checks neither name, but its limit on the application's name is one
  character tighter than the binary form's.
\<close>

definition origin_text_ok :: "MessageOrigin \<Rightarrow> bool" where
  "origin_text_ok org \<longleftrightarrow> origin_ok org \<and> length (appname org) < 255"

lemma origin_get_put [codec_simps]:
  assumes io: "io_ok io" and ok: "origin_text_ok org"
    and t: "\<forall>c\<in>set t. \<not> is_space c" and s: "s = [] \<or> is_space (hd s)"
  shows "origin_get io (good (origin_put org @ t @ s)) o0 = Inr (org, good s)"
proof -
  let ?pid = "show_nat (unat (procid org))"
  have h: "IsValidHostname (hostname org)" "length (hostname org) \<le> 255"
    and a: "IsValidAppName (appname org)" "length (appname org) < 255"
    using ok by (auto simp: origin_text_ok_def origin_ok_def)
  note hw = valid_name_word[OF disjI1[OF h(1)]] and aw = valid_name_word[OF disjI2[OF a(1)]]
  have pd: "\<forall>c\<in>set ?pid. is_digit c" by (simp add: show_nat_digits)
  then have pw: "\<forall>c\<in>set ?pid. \<not> is_space c" "CHR '']'' \<notin> set ?pid"
    using is_space_not_digit by (auto simp: is_digit_def)
  let ?w = "appname org @ ''['' @ ?pid @ '']'' @ t"
  have sp: "is_space CHR '' ''" "\<not> is_space CHR ''[''" "\<not> is_space CHR '']''" by (simp_all add: is_space_def)
  have w1: "extract_word (good (origin_put org @ t @ s)) = (hostname org, good ('' '' @ ?w @ s))"
    using extract_word_good[of "hostname org" "'' '' @ ?w @ s"] hw sp by (simp add: origin_put_def)
  have w2: "extract_word (good ('' '' @ ?w @ s)) = (?w, good s)"
  proof -
    have "?w \<noteq> []" "\<forall>c\<in>set ?w. \<not> is_space c" using aw(2) pw t sp by auto
    then have "extract_word (good (?w @ s)) = (?w, good s)" using s by (rule extract_word_good)
    then show ?thesis using extract_word_skip[OF sp(1), of "?w @ s"] by simp
  qed
  have i1: "find_first_of CHR ''['' ?w = Some (length (appname org))"
    using aw(3) find_first_of_append[of "CHR ''[''" "appname org"] by simp
  have i2: "find_first_of CHR '']'' ?w = Some (length (appname org) + 1 + length ?pid)"
    using aw(4) pw(2) find_first_of_append[of "CHR '']''" "appname org @ ''['' @ ?pid" t] by simp
  have "unat (procid org) < 2 ^ 64"
    using unsigned_less[of "procid org", where ?'a = nat] by simp
  then have st: "stoul ?pid = Inr (of_nat (unat (procid org)))" by (rule stoul_show_nat)
  have uc: "ucast (ucast (procid org) :: u64) = procid org"
    by (rule bit_word_eqI) (simp add: bit_unsigned_iff)
  have ne: "length ?pid \<noteq> 0" by simp
  show ?thesis
    unfolding origin_get_def w1 Let_def prod.case w2 i1 i2 option.case
    using h a ne io by (simp add: slen_prims st uc)
qed

text \<open>A process id that is no number escapes as an exception of \<open>stoul\<close>.\<close>

lemma origin_get_throws:
  "origin_get sample_io (good ''host app[x]'') o0 = Inl InvalidArgument"
  by (simp add: origin_get_def extract_word_def is_space_def stoul_def sample_io_def is_digit_def good_def)

end
