(* ===== verification/Message.thy ===== *)
theory Message
  imports SeverityFacility Timestamp MessageOrigin
begin

text \<open>
  \<open>DwmMclogMessageHeader.{hh,cc}\<close> and \<open>DwmMclogMessage.{hh,cc}\<close>: a log message is a header
  (time stamp, facility, severity, origin) and its text, at most 1500 characters. As for
  the other classes: binary form, compressed forms, printed form. \<open>StreamIO::ReadV\<close> and
  \<open>WriteV\<close> handle their arguments in order and stop at the first failure. The lemmas: what a
  reader can deliver, that \<open>Read\<close> inverts \<open>Write\<close> and a read loop recovers a written
  sequence, that the announced length is the length written, and that a printed log line reads
  back.
\<close>

section \<open>The header\<close>

record MessageHeader =
  timestamp :: Timestamp
  facility :: facility
  severity :: severity
  origin :: MessageOrigin

text \<open>The constructor stamps the message with the current time, \<open>now\<close>.\<close>

definition MessageHeader_new ::
    "Timestamp \<Rightarrow> facility \<Rightarrow> severity \<Rightarrow> MessageOrigin \<Rightarrow> MessageHeader" where
  "MessageHeader_new now fac sev org =
     \<lparr>timestamp = now, facility = fac, severity = sev, origin = org\<rparr>"

definition MessageHeader_Read :: "dwm_io \<Rightarrow> istream \<Rightarrow> MessageHeader \<Rightarrow> MessageHeader \<times> istream" where
  "MessageHeader_Read io is hdr =
     (let (ts, is1) = Timestamp_Read io is (timestamp hdr); h1 = hdr\<lparr>timestamp := ts\<rparr>
      in if failb is1 then (h1, is1)
         else let (fac, is2) = dec_u8 io is1 (facility h1); h2 = h1\<lparr>facility := fac\<rparr>
              in if failb is2 then (h2, is2)
                 else let (sev, is3) = dec_u8 io is2 (severity h2); h3 = h2\<lparr>severity := sev\<rparr>
                      in if failb is3 then (h3, is3)
                         else let (org, is4) = MessageOrigin_Read io is3 (origin h3);
                                  h4 = h3\<lparr>origin := org\<rparr>
                              in if failb is4 then (h4, is4)
                                 else if fac_local7 < fac \<or> sev_debug < sev then (h4, set_fail is4)
                                 else (h4, is4))"

definition MessageHeader_enc :: "dwm_io \<Rightarrow> MessageHeader \<Rightarrow> bytes" where
  "MessageHeader_enc io hdr =
     Timestamp_enc io (timestamp hdr) @ enc_u8 io (facility hdr) @ enc_u8 io (severity hdr)
     @ MessageOrigin_enc io (origin hdr)"

definition MessageHeader_Write :: "dwm_io \<Rightarrow> MessageHeader \<Rightarrow> ostream \<Rightarrow> ostream" where
  "MessageHeader_Write io hdr os =
     (let os1 = Timestamp_Write io (timestamp hdr) os
      in if ofail os1 then os1
         else let os2 = os_write (enc_u8 io (facility hdr)) os1
              in if ofail os2 then os2
                 else let os3 = os_write (enc_u8 io (severity hdr)) os2
                      in if ofail os3 then os3 else MessageOrigin_Write io (origin hdr) os3)"

definition MessageHeader_StreamedLength :: "dwm_io \<Rightarrow> MessageHeader \<Rightarrow> nat" where
  "MessageHeader_StreamedLength io hdr =
     Timestamp_StreamedLength io (timestamp hdr) + slen_u8 io (facility hdr)
     + slen_u8 io (severity hdr) + MessageOrigin_StreamedLength io (origin hdr)"

text \<open>
  The compressed readers and writers of the four members are a parameter; the check of the
  enumerations is the header's own.
\<close>

type_synonym header_fields = "Timestamp \<times> facility \<times> severity \<times> MessageOrigin"

definition header_fields :: "MessageHeader \<Rightarrow> header_fields" where
  "header_fields hdr = (timestamp hdr, facility hdr, severity hdr, origin hdr)"

definition MessageHeader_BZRead ::
    "('f \<Rightarrow> header_fields \<Rightarrow> int \<times> header_fields \<times> 'f) \<Rightarrow> 'f \<Rightarrow> MessageHeader
     \<Rightarrow> int \<times> MessageHeader \<times> 'f" where
  "MessageHeader_BZRead readv f hdr =
     (let (rc, (ts, fac, sev, org), f') = readv f (header_fields hdr)
      in (if 0 < rc \<and> (fac_local7 < fac \<or> sev_debug < sev) then -1 else rc,
          \<lparr>timestamp = ts, facility = fac, severity = sev, origin = org\<rparr>, f'))"

definition MessageHeader_BZWrite ::
    "(header_fields \<Rightarrow> 'f \<Rightarrow> int \<times> 'f) \<Rightarrow> MessageHeader \<Rightarrow> 'f \<Rightarrow> int \<times> 'f" where
  "MessageHeader_BZWrite writev hdr f = writev (header_fields hdr) f"

definition MessageHeader_GZRead ::
    "('f \<Rightarrow> header_fields \<Rightarrow> int \<times> header_fields \<times> 'f) \<Rightarrow> 'f \<Rightarrow> MessageHeader
     \<Rightarrow> int \<times> MessageHeader \<times> 'f" where
  "MessageHeader_GZRead readv f hdr =
     (let (rc, (ts, fac, sev, org), f') = readv f (header_fields hdr)
      in (if 0 < rc \<and> (fac_local7 < fac \<or> sev_debug < sev) then -1 else rc,
          \<lparr>timestamp = ts, facility = fac, severity = sev, origin = org\<rparr>, f'))"

definition MessageHeader_GZWrite ::
    "(header_fields \<Rightarrow> 'f \<Rightarrow> int \<times> 'f) \<Rightarrow> MessageHeader \<Rightarrow> 'f \<Rightarrow> int \<times> 'f" where
  "MessageHeader_GZWrite writev hdr f = writev (header_fields hdr) f"

definition header_put :: "timezone \<Rightarrow> MessageHeader \<Rightarrow> string" where
  "header_put z hdr =
     timestamp_put z (timestamp hdr) @ '' '' @ facility_put (facility hdr) @ '' ''
     @ origin_put (origin hdr) @ '': '' @ severity_put (severity hdr)"

definition header_get :: "dwm_io \<Rightarrow> istream \<Rightarrow> MessageHeader \<Rightarrow> (MessageHeader \<times> istream) result" where
  "header_get io is hdr =
     (let (ts, is1) = timestamp_get is (timestamp hdr);
          (fac, is2) = facility_get is1 (facility hdr)
      in case origin_get io is2 (origin hdr) of
           Inl e \<Rightarrow> Inl e
         | Inr (org, is3) \<Rightarrow>
             let (sev, is4) = severity_get is3 (severity hdr)
             in Inr (\<lparr>timestamp = ts, facility = fac, severity = sev, origin = org\<rparr>, is4))"

section \<open>The message\<close>

record Message =
  msg_header :: MessageHeader
  msg_data :: string

definition Message_new :: "dwm_io \<Rightarrow> MessageHeader \<Rightarrow> string \<Rightarrow> Message result" where
  "Message_new io hdr s =
     (case short io 1500 s of Inl e \<Rightarrow> Inl e | Inr d \<Rightarrow> Inr \<lparr>msg_header = hdr, msg_data = d\<rparr>)"

definition Message_Read :: "dwm_io \<Rightarrow> istream \<Rightarrow> Message \<Rightarrow> Message \<times> istream" where
  "Message_Read io is msg =
     (let (hdr, is1) = MessageHeader_Read io is (msg_header msg); m1 = msg\<lparr>msg_header := hdr\<rparr>
      in if failb is1 then (m1, is1)
         else let (s, is2) = dec_short io 1500 is1 (msg_data m1) in (m1\<lparr>msg_data := s\<rparr>, is2))"

definition Message_enc :: "dwm_io \<Rightarrow> Message \<Rightarrow> bytes" where
  "Message_enc io msg = MessageHeader_enc io (msg_header msg) @ enc_short io 1500 (msg_data msg)"

definition Message_Write :: "dwm_io \<Rightarrow> Message \<Rightarrow> ostream \<Rightarrow> ostream" where
  "Message_Write io msg os =
     (let os1 = MessageHeader_Write io (msg_header msg) os
      in if ofail os1 then os1 else os_write (enc_short io 1500 (msg_data msg)) os1)"

definition Message_StreamedLength :: "dwm_io \<Rightarrow> Message \<Rightarrow> nat" where
  "Message_StreamedLength io msg =
     MessageHeader_StreamedLength io (msg_header msg) + slen_short io 1500 (msg_data msg)"

definition Message_BZRead ::
    "('f \<Rightarrow> MessageHeader \<times> string \<Rightarrow> int \<times> (MessageHeader \<times> string) \<times> 'f) \<Rightarrow> 'f \<Rightarrow> Message
     \<Rightarrow> int \<times> Message \<times> 'f" where
  "Message_BZRead readv f msg =
     (let (rc, (hdr, s), f') = readv f (msg_header msg, msg_data msg)
      in (rc, \<lparr>msg_header = hdr, msg_data = s\<rparr>, f'))"

definition Message_BZWrite ::
    "(MessageHeader \<times> string \<Rightarrow> 'f \<Rightarrow> int \<times> 'f) \<Rightarrow> Message \<Rightarrow> 'f \<Rightarrow> int \<times> 'f" where
  "Message_BZWrite writev msg f = writev (msg_header msg, msg_data msg) f"

definition Message_GZRead ::
    "('f \<Rightarrow> MessageHeader \<times> string \<Rightarrow> int \<times> (MessageHeader \<times> string) \<times> 'f) \<Rightarrow> 'f \<Rightarrow> Message
     \<Rightarrow> int \<times> Message \<times> 'f" where
  "Message_GZRead readv f msg =
     (let (rc, (hdr, s), f') = readv f (msg_header msg, msg_data msg)
      in (rc, \<lparr>msg_header = hdr, msg_data = s\<rparr>, f'))"

definition Message_GZWrite ::
    "(MessageHeader \<times> string \<Rightarrow> 'f \<Rightarrow> int \<times> 'f) \<Rightarrow> Message \<Rightarrow> 'f \<Rightarrow> int \<times> 'f" where
  "Message_GZWrite writev msg f = writev (msg_header msg, msg_data msg) f"

definition message_put :: "timezone \<Rightarrow> Message \<Rightarrow> string" where
  "message_put z msg = header_put z (msg_header msg) @ '' '' @ msg_data msg @ [CHR ''\<newline>'']"

text \<open>\<open>is >> std::ws\<close>, then the rest of the line; more than 1500 characters are refused.\<close>

definition message_get :: "dwm_io \<Rightarrow> istream \<Rightarrow> Message \<Rightarrow> (Message \<times> istream) result" where
  "message_get io is msg =
     (case header_get io is (msg_header msg) of
        Inl e \<Rightarrow> Inl e
      | Inr (hdr, is1) \<Rightarrow>
          let m1 = msg\<lparr>msg_header := hdr\<rparr>
          in if failb is1 then Inr (m1, is1)
             else let (s, is2) = get_line (skip_ws is1)
                  in if length s \<le> 1500
                     then (case short io 1500 s of Inl e \<Rightarrow> Inl e
                           | Inr s' \<Rightarrow> Inr (m1\<lparr>msg_data := s'\<rparr>, is2))
                     else Inr (m1, set_fail is2))"

section \<open>Lemmas: the binary form\<close>

text \<open>What the binary form can carry: the enumerations are only bounded from above.\<close>

definition header_ok :: "MessageHeader \<Rightarrow> bool" where
  "header_ok hdr \<longleftrightarrow> facility hdr \<le> fac_local7 \<and> severity hdr \<le> sev_debug \<and> origin_ok (origin hdr)"

definition message_ok :: "Message \<Rightarrow> bool" where
  "message_ok msg \<longleftrightarrow> header_ok (msg_header msg) \<and> length (msg_data msg) \<le> 1500"

lemma MessageHeader_Read_valid:
  assumes "MessageHeader_Read io is hdr = (h, js)" "\<not> failb js"
  shows "facility h \<le> fac_local7 \<and> severity h \<le> sev_debug
    \<and> IsValidHostname (hostname (origin h)) \<and> IsValidAppName (appname (origin h))"
  using assms
  by (auto simp: MessageHeader_Read_def Let_def not_less split: prod.splits if_splits
      dest: MessageOrigin_Read_valid)

lemma Message_Read_valid:
  assumes "Message_Read io is msg = (m, js)" "\<not> failb js"
  shows "facility (msg_header m) \<le> fac_local7 \<and> severity (msg_header m) \<le> sev_debug
    \<and> IsValidHostname (hostname (origin (msg_header m)))
    \<and> IsValidAppName (appname (origin (msg_header m)))"
proof -
  obtain h is1 where h: "MessageHeader_Read io is (msg_header msg) = (h, is1)" by fastforce
  with assms have "\<not> failb is1" "msg_header m = h"
    by (auto simp: Message_Read_def Let_def split: prod.splits if_splits)
  with MessageHeader_Read_valid[OF h] show ?thesis by simp
qed

lemma MessageHeader_Write_enc:
  "os_wf os \<Longrightarrow> MessageHeader_Write io hdr os = os_write (MessageHeader_enc io hdr) os"
  by (simp add: MessageHeader_Write_def MessageHeader_enc_def Let_def Timestamp_Write_enc
      MessageOrigin_Write_enc os_wf_write flip: os_write_append)

lemma Message_Write_enc:
  "os_wf os \<Longrightarrow> Message_Write io msg os = os_write (Message_enc io msg) os"
  by (simp add: Message_Write_def Message_enc_def Let_def MessageHeader_Write_enc os_wf_write
      flip: os_write_append)

lemma MessageHeader_StreamedLength_enc:
  "io_ok io \<Longrightarrow> MessageHeader_StreamedLength io hdr = length (MessageHeader_enc io hdr)"
  by (simp add: MessageHeader_StreamedLength_def MessageHeader_enc_def slen_prims
      Timestamp_StreamedLength_enc MessageOrigin_StreamedLength_enc)

lemma Message_StreamedLength_enc:
  "io_ok io \<Longrightarrow> Message_StreamedLength io msg = length (Message_enc io msg)"
  by (simp add: Message_StreamedLength_def Message_enc_def slen_prims MessageHeader_StreamedLength_enc)

lemma MessageHeader_Read_enc:
  assumes "io_ok io" "header_ok hdr"
  shows "MessageHeader_Read io (good (MessageHeader_enc io hdr @ s)) h0 = (hdr, good s)"
  using assms
  by (simp add: MessageHeader_Read_def MessageHeader_enc_def header_ok_def dec_prims Let_def
      timestamp_codec.rd_wr origin_codec.rd_wr not_less leD)

lemma MessageHeader_Read_shrinks:
  assumes io: "io_ok io" and "\<not> failb (snd (MessageHeader_Read io is h0))"
  shows "\<not> failb is \<and> length (inb (snd (MessageHeader_Read io is h0))) < length (inb is)"
proof -
  obtain ts is1 where 1: "Timestamp_Read io is (timestamp h0) = (ts, is1)" by fastforce
  obtain f is2 where 2: "dec_u8 io is1 (facility h0) = (f, is2)" by fastforce
  obtain v is3 where 3: "dec_u8 io is2 (severity h0) = (v, is3)" by fastforce
  obtain g is4 where 4: "MessageOrigin_Read io is3 (origin h0) = (g, is4)" by fastforce
  from assms(2) have f: "\<not> failb is1" "\<not> failb is2" "\<not> failb is3" "\<not> failb is4"
    "snd (MessageHeader_Read io is h0) = is4"
    by (auto simp: MessageHeader_Read_def 1 2 3 4 Let_def split: if_splits)
  show ?thesis
    using timestamp_codec.rd_shrinks[OF io, of "is" "timestamp h0"] prims_shrink(1)[OF io 2 f(2)]
      prims_shrink(1)[OF io 3 f(3)] origin_codec.rd_shrinks[OF io, of is3 "origin h0"] 1 4 f by simp
qed

interpretation header_codec: stream_codec io_ok MessageHeader_enc MessageHeader_Read header_ok
  by unfold_locales (auto intro: MessageHeader_Read_enc dest: MessageHeader_Read_shrinks)

lemma Message_Read_enc:
  assumes "io_ok io" "message_ok msg"
  shows "Message_Read io (good (Message_enc io msg @ s)) m0 = (msg, good s)"
  using assms
  by (simp add: Message_Read_def Message_enc_def message_ok_def dec_prims Let_def header_codec.rd_wr)

lemma Message_Read_shrinks:
  assumes io: "io_ok io" and "\<not> failb (snd (Message_Read io is m0))"
  shows "\<not> failb is \<and> length (inb (snd (Message_Read io is m0))) < length (inb is)"
proof -
  obtain h is1 where 1: "MessageHeader_Read io is (msg_header m0) = (h, is1)" by fastforce
  obtain d is2 where 2: "dec_short io 1500 is1 (msg_data m0) = (d, is2)" by fastforce
  from assms(2) have f: "\<not> failb is1" "\<not> failb is2" "snd (Message_Read io is m0) = is2"
    by (auto simp: Message_Read_def 1 2 Let_def split: if_splits)
  show ?thesis
    using header_codec.rd_shrinks[OF io, of "is" "msg_header m0"] prims_shrink(4)[OF io 2 f(2)] 1 f
    by simp
qed

interpretation message_codec: stream_codec io_ok Message_enc Message_Read message_ok
  by unfold_locales (auto intro: Message_Read_enc dest: Message_Read_shrinks)

section \<open>Lemmas: the compressed forms\<close>

lemma MessageHeader_compressed_valid:
  assumes "MessageHeader_BZRead readv f hdr = (rc, h, f') \<or> MessageHeader_GZRead readv f hdr = (rc, h, f')"
    and "0 < rc"
  shows "facility h \<le> fac_local7 \<and> severity h \<le> sev_debug
    \<and> readv f (header_fields hdr) = (rc, header_fields h, f')"
  using assms
  by (auto simp: MessageHeader_BZRead_def MessageHeader_GZRead_def header_fields_def not_less
      split: prod.splits if_splits)

section \<open>Lemmas: the text form\<close>

definition header_text_ok :: "timezone \<Rightarrow> MessageHeader \<Rightarrow> bool" where
  "header_text_ok z hdr \<longleftrightarrow>
     timestamp hdr \<noteq> Timestamp 0 \<and> year_ok z (timestamp hdr)
     \<and> valid_facility (facility hdr) \<and> valid_severity (severity hdr) \<and> origin_text_ok (origin hdr)"

definition message_text_ok :: "timezone \<Rightarrow> Message \<Rightarrow> bool" where
  "message_text_ok z msg \<longleftrightarrow>
     header_text_ok z (msg_header msg) \<and> length (msg_data msg) \<le> 1500
     \<and> msg_data msg \<noteq> [] \<and> \<not> is_space (hd (msg_data msg)) \<and> CHR ''\<newline>'' \<notin> set (msg_data msg)"

lemma facility_get_skip: "is_space c \<Longrightarrow> facility_get (good (c # s)) f = facility_get (good s) f"
  by (simp add: facility_get_def extract_word_skip)

lemma severity_get_skip: "is_space c \<Longrightarrow> severity_get (good (c # s)) v = severity_get (good s) v"
  by (simp add: severity_get_def extract_word_skip)

lemma origin_get_skip: "is_space c \<Longrightarrow> origin_get io (good (c # s)) g = origin_get io (good s) g"
  by (simp add: origin_get_def extract_word_skip)

lemma header_get_put [codec_simps]:
  assumes io: "io_ok io" and z: "zone_ok z" and ok: "header_text_ok z hdr"
    and s: "s = [] \<or> is_space (hd s)"
  shows "header_get io (good (header_put z hdr @ s)) h0 = Inr (hdr, good s)"
proof -
  have sp: "is_space CHR '' ''" "\<not> is_space CHR '':''" by (simp_all add: is_space_def)
  let ?sv = "severity_put (severity hdr) @ s"
  let ?og = "origin_put (origin hdr) @ '':'' @ '' '' @ ?sv"
  let ?fc = "facility_put (facility hdr) @ '' '' @ ?og"
  have 1: "timestamp_get (good (timestamp_put z (timestamp hdr) @ '' '' @ ?fc)) (timestamp h0) =
      (timestamp hdr, good ('' '' @ ?fc))"
    using ok z by (intro timestamp_get_put) (auto simp: header_text_ok_def)
  have 2: "facility_get (good ('' '' @ ?fc)) (facility h0) = (facility hdr, good ('' '' @ ?og))"
    using facility_get_skip[OF sp(1), of ?fc] facility_get_put[of "facility hdr" "'' '' @ ?og"] ok sp
    by (simp add: header_text_ok_def)
  have 3: "origin_get io (good ('' '' @ ?og)) (origin h0) = Inr (origin hdr, good ('' '' @ ?sv))"
    using origin_get_skip[OF sp(1), of io ?og]
      origin_get_put[OF io, of "origin hdr" "'':''" "'' '' @ ?sv"] ok sp
    by (simp add: header_text_ok_def)
  have 4: "severity_get (good ('' '' @ ?sv)) (severity h0) = (severity hdr, good s)"
    using severity_get_skip[OF sp(1), of ?sv] severity_get_put[of "severity hdr" s] ok s
    by (simp add: header_text_ok_def)
  have e: "header_put z hdr @ s = timestamp_put z (timestamp hdr) @ '' '' @ ?fc"
    by (simp add: header_put_def)
  show ?thesis
    unfolding header_get_def e 1 Let_def prod.case 2 3 sum.case 4 by simp
qed

lemma message_get_put [codec_simps]:
  assumes io: "io_ok io" and z: "zone_ok z" and ok: "message_text_ok z msg"
  shows "message_get io (good (message_put z msg @ s)) m0 = Inr (msg, good s)"
proof -
  let ?d = "msg_data msg @ CHR ''\<newline>'' # s"
  have sp: "is_space CHR '' ''" by (simp add: is_space_def)
  have d: "msg_data msg \<noteq> []" "\<not> is_space (hd (msg_data msg))" "CHR ''\<newline>'' \<notin> set (msg_data msg)"
    "length (msg_data msg) \<le> 1500" and h: "header_text_ok z (msg_header msg)"
    using ok by (auto simp: message_text_ok_def)
  have e: "message_put z msg @ s = header_put z (msg_header msg) @ '' '' @ ?d"
    by (simp add: message_put_def)
  have 1: "header_get io (good (header_put z (msg_header msg) @ '' '' @ ?d)) (msg_header m0) =
      Inr (msg_header msg, good ('' '' @ ?d))"
    using sp by (intro header_get_put io z h) simp
  have 2: "skip_ws (good ('' '' @ ?d)) = good ?d"
    using skip_ws_good[of ?d "CHR '' ''"] d sp by simp
  have 3: "get_line (good ?d) = (msg_data msg, good s)" by (rule get_line_good[OF d(3)])
  show ?thesis
    unfolding message_get_def e 1 sum.case prod.case Let_def 2 3
    using d io by (simp add: slen_prims)
qed

text \<open>The reader of a printed log never delivers more than 1500 characters of text.\<close>

lemma message_get_bound:
  assumes "io_ok io" "message_get io is m0 = Inr (m, js)" "\<not> failb js"
  shows "length (msg_data m) \<le> 1500"
  using assms
  by (auto simp: message_get_def Let_def slen_prims split: sum.splits prod.splits if_splits)

section \<open>A sample message\<close>

definition sample_message :: Message where
  "sample_message =
     \<lparr>msg_header = \<lparr>timestamp = Timestamp 1700000000123456, facility = fac_user, severity = sev_info,
        origin = \<lparr>hostname = ''ns1.lab'', appname = ''cron-d'', procid = 4711\<rparr>\<rparr>,
      msg_data = ''disk 7% free''\<rparr>"

definition sample_zone :: timezone where
  "sample_zone = \<lparr>std_off = -18000, dst_off = -14400, in_dst = (\<lambda>_. False)\<rparr>"

lemma sample_names:
  "IsValidHostname ''ns1.lab''" "IsValidAppName ''cron-d''"
  by (simp_all add: IsValidHostname_def IsValidAppName_def is_alnum_def)

lemma sample_message_ok: "message_ok sample_message"
  by (simp add: sample_message_def message_ok_def header_ok_def origin_ok_def sample_names)

lemma sample_zone_ok: "zone_ok sample_zone"
  by (simp add: sample_zone_def zone_ok_def utcoff_def)

lemma sample_year_ok: "year_ok sample_zone (Timestamp 1700000000123456)"
proof -
  have "civil_from_days 19675 = (2023, 11, 14)" by code_simp
  then show ?thesis
    by (simp add: year_ok_def sample_zone_def Secs_def localtime_def utcoff_def gmtime_def)
qed

lemma sample_message_text_ok: "message_text_ok sample_zone sample_message"
  using sample_year_ok
  by (simp add: sample_message_def message_text_ok_def header_text_ok_def origin_text_ok_def
      origin_ok_def sample_names valid_facility_def g_facilities_def valid_severity_def is_space_def)

section \<open>Properties\<close>

text \<open>
  C17. Any sequence of messages written with \<open>Message::Write\<close> to one growing stream is
  recovered, in order and completely, by the loop \<open>while (msg.Read(is))\<close> over the bytes
  written, and the loop ends. The messages are those the format carries: names of the
  accepted alphabets, at most 255 and 1500 characters, enumerations in range.
\<close>

theorem message_stream_roundtrip:
  assumes "io_ok io" and "\<forall>m\<in>set ms. message_ok m"
  shows "\<exists>y. read_loop (Message_Read io)
           (good (obuf (fold (Message_Write io) ms (os_growing [])))) m0 = Some (ms, y)"
proof -
  have "fold (Message_Write io) ms (os_growing s) = os_growing (s @ concat (map (Message_enc io) ms))" for s
  proof (induction ms arbitrary: s)
    case (Cons m ms)
    have "os_wf (os_growing s)" by (simp add: os_wf_def os_growing_def)
    then show ?case using Cons by (simp add: Message_Write_enc os_write_growing)
  qed simp
  from this[of "[]"] show ?thesis
    using message_codec.loop_concat[OF assms, of m0] by (simp add: os_growing_def)
qed

lemma message_stream_roundtrip_witness:
  "\<exists>y. read_loop (Message_Read sample_io)
     (good (obuf (fold (Message_Write sample_io) [sample_message, sample_message] (os_growing []))))
     sample_message = Some ([sample_message, sample_message], y)"
  by (rule message_stream_roundtrip) (simp_all add: sample_io_ok sample_message_ok)

text \<open>
  C18. A printed log line reads back: for a time zone whose offsets are whole minutes below a
  day and a message with a four-digit local year, an enumerator as facility and severity, valid
  names and a one-line text that does not start with white space, \<open>is >> msg\<close> on the
  output of \<open>os << msg\<close> returns the message and leaves what follows the line unread.
\<close>

theorem message_text_roundtrip:
  assumes "io_ok io" and "zone_ok z" and "message_text_ok z msg"
  shows "message_get io (good (message_put z msg @ s)) m0 = Inr (msg, good s)"
  using assms by (rule message_get_put)

lemma message_text_roundtrip_witness:
  "message_get sample_io (good (message_put sample_zone sample_message @ ''next'')) sample_message =
   Inr (sample_message, good ''next'')"
  by (rule message_text_roundtrip[OF sample_io_ok sample_zone_ok sample_message_text_ok])

text \<open>
  C19. No reader accepts a bad header: when \<open>MessageHeader::Read\<close> leaves the stream good, or a
  compressed read returns a positive count, the facility is at most \<open>local7\<close> and the severity
  at most \<open>debug\<close>; and after the stream read both names of the origin are non-empty and of
  the accepted alphabets.
\<close>

theorem header_readers_validate:
  "(MessageHeader_Read io is hdr = (h, js) \<and> \<not> failb js \<longrightarrow>
      facility h \<le> fac_local7 \<and> severity h \<le> sev_debug
      \<and> IsValidHostname (hostname (origin h)) \<and> IsValidAppName (appname (origin h)))
   \<and> (MessageHeader_BZRead readv f hdr = (rc, h, f') \<and> 0 < rc \<longrightarrow>
      facility h \<le> fac_local7 \<and> severity h \<le> sev_debug)
   \<and> (MessageHeader_GZRead readv f hdr = (rc, h, f') \<and> 0 < rc \<longrightarrow>
      facility h \<le> fac_local7 \<and> severity h \<le> sev_debug)"
  using MessageHeader_Read_valid[of io "is" hdr h js] MessageHeader_compressed_valid[of readv f hdr rc h f']
  by blast

lemma header_readers_validate_witness:
  "facility (msg_header sample_message) \<le> fac_local7
   \<and> IsValidHostname (hostname (origin (msg_header sample_message)))"
  using header_readers_validate[of sample_io
      "good (MessageHeader_enc sample_io (msg_header sample_message) @ ''rest'')"
      "msg_header sample_message" "msg_header sample_message" "good ''rest''"
      "\<lambda>f h. (0, h, f)" "()" 0 "()"]
    MessageHeader_Read_enc[OF sample_io_ok, of "msg_header sample_message" "''rest''"] sample_message_ok
  by (auto simp: message_ok_def)

end
