(* ===== verification/LogFile.thy ===== *)
theory LogFile
  imports RollInterval Message
begin

text \<open>
  \<open>DwmMclogLogFile.{hh,cc}\<close>: a log file and its numbered, compressed archives. The state is
  the object (stream, roll interval, limits) and the directory the file lives in, a list of
  regular files with content, modification time and owner; a \<open>world\<close> also lists the
  compression commands started. \<open>system\<close> starts them in the background, so their effect is a
  step of its own (\<open>compress_done\<close>). Operations that may throw return the exception with the
  state reached. The lemmas: rolling shifts every archive by one and drops those beyond the
  limit, the content rolled away is in archive 0, and a processed message ends the active file.
\<close>

section \<open>Files\<close>

record fs_file =
  f_data :: bytes
  f_mtime :: int
  f_mode :: nat
  f_owner :: "nat \<times> nat"

type_synonym directory = "(string \<times> fs_file) list"

datatype parent = NoDir | NotDir | Dir directory

record world =
  w_parent :: parent
  w_cmds :: "string list"

text \<open>\<open>fs::remove\<close> does not mind a missing file; \<open>fs::rename\<close> replaces its target.\<close>

definition fs_remove :: "string \<Rightarrow> directory \<Rightarrow> directory" where
  "fs_remove x dir = filter (\<lambda>e. fst e \<noteq> x) dir"

definition fs_rename :: "string \<Rightarrow> string \<Rightarrow> directory \<Rightarrow> directory option" where
  "fs_rename x y dir =
     (case map_of dir x of None \<Rightarrow> None | Some f \<Rightarrow> Some ((y, f) # filter (\<lambda>e. fst e \<notin> {x, y}) dir))"

definition fs_update :: "string \<Rightarrow> fs_file \<Rightarrow> directory \<Rightarrow> directory" where
  "fs_update x f dir = (x, f) # filter (\<lambda>e. fst e \<noteq> x) dir"

lemma map_of_filter_key: "map_of (filter (\<lambda>e. P (fst e)) dir) x = (if P x then map_of dir x else None)"
  by (induction dir) auto

lemma map_of_remove [simp]: "map_of (fs_remove x dir) y = (if y = x then None else map_of dir y)"
  using map_of_filter_key[of "\<lambda>z. z \<noteq> x" dir y] by (auto simp: fs_remove_def)

lemma map_of_update [simp]: "map_of (fs_update x f dir) y = (if y = x then Some f else map_of dir y)"
  using map_of_filter_key[of "\<lambda>z. z \<noteq> x" dir y] by (auto simp: fs_update_def)

lemma fs_rename_lookup:
  assumes "fs_rename x y dir = Some dir'"
  shows "map_of dir' z = (if z = y then map_of dir x else if z = x then None else map_of dir z)"
  using assms map_of_filter_key[of "\<lambda>z. z \<notin> {x, y}" dir z]
  by (auto simp: fs_rename_def split: option.splits)

lemma fs_rename_exists: "map_of dir x = Some f \<Longrightarrow> \<exists>dir'. fs_rename x y dir = Some dir'"
  by (simp add: fs_rename_def)

section \<open>Compression and archive names\<close>

definition sg_compressionExt :: "(string \<times> string) list" where
  "sg_compressionExt = [(''bzip2'', ''bz2''), (''gzip'', ''gz'')]"

definition CompressCommand :: "string \<Rightarrow> string" where
  "CompressCommand compressConfig =
     (case map_of sg_compressionExt compressConfig of Some e \<Rightarrow> compressConfig | None \<Rightarrow> ''bzip2'')"

definition ArchiveExtension :: "string \<Rightarrow> string" where
  "ArchiveExtension compressConfig =
     (case map_of sg_compressionExt compressConfig of Some e \<Rightarrow> e | None \<Rightarrow> ''bz2'')"

record Archive =
  a_num :: u64
  a_base :: string
  a_compress :: string

definition Archive_String :: "Archive \<Rightarrow> string" where
  "Archive_String a =
     a_base a @ ''.'' @ show_nat (unat (a_num a)) @ ''.'' @ ArchiveExtension (a_compress a)"

definition Archive_Next :: "Archive \<Rightarrow> Archive" where
  "Archive_Next a = a\<lparr>a_num := a_num a + 1\<rparr>"

text \<open>
  \<open>regex_match(fname, sm, rgx)\<close> with the expression \<open>filename\.([0-9]+)\.ext\<close>: the file
  name is an expression itself, in which a dot stands for any character but a line terminator.
  The names the configuration produces hold no other character special to an expression.
\<close>

fun matches_name :: "string \<Rightarrow> string \<Rightarrow> bool" where
  "matches_name [] [] = True"
| "matches_name (p # ps) (c # cs) =
     ((p = c \<or> p = CHR ''.'' \<and> c \<noteq> CHR ''\<newline>'' \<and> c \<noteq> CHR 0x0D) \<and> matches_name ps cs)"
| "matches_name _ _ = False"

definition archive_digits :: "string \<Rightarrow> string \<Rightarrow> string \<Rightarrow> string option" where
  "archive_digits filename ext fname =
     (let n = length filename; r = drop n fname; ds = takeWhile is_digit (drop 1 r)
      in if matches_name filename (take n fname) \<and> take 1 r = ''.'' \<and> ds \<noteq> []
            \<and> drop (1 + length ds) r = ''.'' @ ext
         then Some ds else None)"

section \<open>The log file\<close>

datatype FileFormat = Format_text | Format_binary

record LogFile =
  lf_path :: string
  lf_permissions :: nat
  lf_keep :: u32
  lf_open :: bool
  lf_fail :: bool
  lf_pos :: int
  lf_rollInterval :: RollInterval
  lf_rollSize :: int
  lf_user :: nat
  lf_group :: nat
  lf_compress :: string
  lf_format :: FileFormat

text \<open>
  What the operations take from their surroundings: the time zone and time, the binary
  primitives, what the operating system lets them do, and where an appending stream opened on
  a file of a given size reports its position.
\<close>

record lf_env =
  e_zone :: timezone
  e_now :: int
  e_io :: dwm_io
  e_can_create :: bool
  e_can_open :: bool
  e_can_write :: bool
  e_chmod_ok :: bool
  e_chown_ok :: bool
  e_append_pos :: "nat \<Rightarrow> int"

definition LogFile_new ::
    "lf_env \<Rightarrow> nat \<times> nat \<Rightarrow> string \<Rightarrow> nat \<Rightarrow> RollPeriod \<Rightarrow> int \<Rightarrow> u32 \<Rightarrow> FileFormat \<Rightarrow> LogFile" where
  "LogFile_new e ids path permissions period maxsize keep format =
     \<lparr>lf_path = path, lf_permissions = permissions, lf_keep = keep, lf_open = False, lf_fail = False,
      lf_pos = 0, lf_rollInterval = RollInterval_new (e_zone e) (e_now e) period, lf_rollSize = maxsize,
      lf_user = fst ids, lf_group = snd ids, lf_compress = ''bzip2'', lf_format = format\<rparr>"

text \<open>\<open>User(name)\<close>, \<open>Group(name)\<close>: the account databases are a parameter.\<close>

definition LogFile_User :: "(string \<Rightarrow> nat option) \<Rightarrow> string \<Rightarrow> LogFile \<Rightarrow> nat \<times> LogFile" where
  "LogFile_User getpwnam user lf =
     (let lf' = (case getpwnam user of Some uid \<Rightarrow> lf\<lparr>lf_user := uid\<rparr> | None \<Rightarrow> lf) in (lf_user lf', lf'))"

definition LogFile_Group :: "(string \<Rightarrow> nat option) \<Rightarrow> string \<Rightarrow> LogFile \<Rightarrow> nat \<times> LogFile" where
  "LogFile_Group getgrnam grpname lf =
     (let lf' = (case getgrnam grpname of Some gid \<Rightarrow> lf\<lparr>lf_group := gid\<rparr> | None \<Rightarrow> lf) in (lf_group lf', lf'))"

definition LogFile_Compression :: "string \<Rightarrow> LogFile \<Rightarrow> LogFile" where
  "LogFile_Compression compress lf =
     lf\<lparr>lf_compress := (case map_of sg_compressionExt compress of Some e \<Rightarrow> compress | None \<Rightarrow> ''bzip2'')\<rparr>"

text \<open>Moving, member by member: the stream goes with the object, so that an open file stays open in its new place.\<close>

definition LogFile_move :: "LogFile \<Rightarrow> LogFile" where
  "LogFile_move lf =
     \<lparr>lf_path = lf_path lf, lf_permissions = lf_permissions lf, lf_keep = lf_keep lf, lf_open = lf_open lf,
      lf_fail = lf_fail lf, lf_pos = lf_pos lf, lf_rollInterval = lf_rollInterval lf, lf_rollSize = lf_rollSize lf,
      lf_user = lf_user lf, lf_group = lf_group lf, lf_compress = lf_compress lf, lf_format = lf_format lf\<rparr>"

definition LogFile_assign :: "LogFile \<Rightarrow> LogFile \<Rightarrow> LogFile" where
  "LogFile_assign src lf =
     lf\<lparr>lf_path := lf_path src, lf_permissions := lf_permissions src, lf_keep := lf_keep src, lf_open := lf_open src,
        lf_fail := lf_fail src, lf_pos := lf_pos src, lf_rollInterval := lf_rollInterval src, lf_rollSize := lf_rollSize src,
        lf_user := lf_user src, lf_group := lf_group src, lf_compress := lf_compress src, lf_format := lf_format src\<rparr>"

lemma LogFile_moves [simp]: "LogFile_move lf = lf" "LogFile_assign src lf = src"
  by (simp_all add: LogFile_move_def LogFile_assign_def)

text \<open>
  \<open>GetArchives\<close>: the directory must exist, a number beyond 64 bits makes \<open>stoull\<close> throw; the
  archives are sorted by descending number.
\<close>

fun collect_archives :: "LogFile \<Rightarrow> directory \<Rightarrow> Archive list result" where
  "collect_archives lf [] = Inr []"
| "collect_archives lf ((fname, f) # dir) =
     (case archive_digits (lf_path lf) (ArchiveExtension (lf_compress lf)) fname of
        None \<Rightarrow> collect_archives lf dir
      | Some ds \<Rightarrow>
          (case stoul ds of Inl e \<Rightarrow> Inl e
           | Inr n \<Rightarrow>
               (case collect_archives lf dir of Inl e \<Rightarrow> Inl e
                | Inr as \<Rightarrow> Inr (\<lparr>a_num = n, a_base = lf_path lf, a_compress = lf_compress lf\<rparr> # as))))"

definition GetArchives :: "LogFile \<Rightarrow> parent \<Rightarrow> Archive list result" where
  "GetArchives lf p =
     (case p of
        Dir dir \<Rightarrow> (case collect_archives lf dir of Inl e \<Rightarrow> Inl e | Inr as \<Rightarrow> Inr (rev (sort_key a_num as)))
      | _ \<Rightarrow> Inl FilesystemError)"

fun roll_archives :: "u32 \<Rightarrow> Archive list \<Rightarrow> directory \<Rightarrow> exn option \<times> directory" where
  "roll_archives keep [] dir = (None, dir)"
| "roll_archives keep (a # as) dir =
     (if a_num a + 1 \<ge> ucast keep then roll_archives keep as (fs_remove (Archive_String a) dir)
      else case fs_rename (Archive_String a) (Archive_String (Archive_Next a)) dir of
             None \<Rightarrow> (Some FilesystemError, dir)
           | Some dir' \<Rightarrow> roll_archives keep as dir')"

definition RollArchives :: "LogFile \<Rightarrow> world \<Rightarrow> exn option \<times> world" where
  "RollArchives lf w =
     (case GetArchives lf (w_parent w) of
        Inl e \<Rightarrow> (Some e, w)
      | Inr as \<Rightarrow>
          (case w_parent w of
             Dir dir \<Rightarrow> let (ex, dir') = roll_archives (lf_keep lf) as dir in (ex, w\<lparr>w_parent := Dir dir'\<rparr>)
           | _ \<Rightarrow> (None, w)))"

definition RollCurrent :: "LogFile \<Rightarrow> world \<Rightarrow> exn option \<times> world" where
  "RollCurrent lf w =
     (let dst = lf_path lf @ ''.0''
      in case w_parent w of
           Dir dir \<Rightarrow>
             (case fs_rename (lf_path lf) dst dir of
                None \<Rightarrow> (Some FilesystemError, w)
              | Some dir' \<Rightarrow>
                  (None, w\<lparr>w_parent := Dir dir',
                           w_cmds := w_cmds w @ [CompressCommand (lf_compress lf) @ '' '' @ dst @ '' > /dev/null 2>&1 &'']\<rparr>))
         | _ \<Rightarrow> (Some FilesystemError, w))"

definition Roll :: "lf_env \<Rightarrow> LogFile \<Rightarrow> world \<Rightarrow> exn option \<times> LogFile \<times> world" where
  "Roll e lf w =
     (case RollArchives lf w of
        (Some ex, w1) \<Rightarrow> (Some ex, lf, w1)
      | (None, w1) \<Rightarrow>
          (case RollCurrent lf w1 of
             (Some ex, w2) \<Rightarrow> (Some ex, lf, w2)
           | (None, w2) \<Rightarrow>
               (None, lf\<lparr>lf_rollInterval := SetToCurrent (e_zone e) (e_now e) (lf_rollInterval lf)\<rparr>, w2)))"

definition NeedRollBeforeOpen :: "LogFile \<Rightarrow> world \<Rightarrow> bool" where
  "NeedRollBeforeOpen lf w =
     (case w_parent w of
        Dir dir \<Rightarrow> (case map_of dir (lf_path lf) of
                      Some f \<Rightarrow> StartTime (lf_rollInterval lf) > f_mtime f | None \<Rightarrow> False)
      | _ \<Rightarrow> False)"

text \<open>A directory that cannot be created makes \<open>fs::create_directories\<close> throw.\<close>

definition EnsureParentDirectory :: "lf_env \<Rightarrow> world \<Rightarrow> bool result \<times> world" where
  "EnsureParentDirectory e w =
     (case w_parent w of
        Dir dir \<Rightarrow> (Inr True, w)
      | NotDir \<Rightarrow> (Inr False, w)
      | NoDir \<Rightarrow> if e_can_create e then (Inr True, w\<lparr>w_parent := Dir []\<rparr>) else (Inl FilesystemError, w))"

text \<open>\<open>chmod\<close> and \<open>chown\<close> of the file just opened.\<close>

definition SetPermissions :: "lf_env \<Rightarrow> LogFile \<Rightarrow> fs_file \<Rightarrow> fs_file" where
  "SetPermissions e lf f = (if e_chmod_ok e then f\<lparr>f_mode := lf_permissions lf\<rparr> else f)"

definition SetOwnership :: "lf_env \<Rightarrow> LogFile \<Rightarrow> fs_file \<Rightarrow> fs_file" where
  "SetOwnership e lf f = (if e_chown_ok e then f\<lparr>f_owner := (lf_user lf, lf_group lf)\<rparr> else f)"

text \<open>\<open>_ofs.open(_path, out|app)\<close>: creates the file if it is missing, keeps its content.\<close>

definition open_append :: "lf_env \<Rightarrow> LogFile \<Rightarrow> world \<Rightarrow> bool \<times> LogFile \<times> world" where
  "open_append e lf w =
     (case w_parent w of
        Dir dir \<Rightarrow>
          if e_can_open e then
            let f = (case map_of dir (lf_path lf) of Some f \<Rightarrow> f
                     | None \<Rightarrow> \<lparr>f_data = [], f_mtime = e_now e, f_mode = 420, f_owner = (lf_user lf, lf_group lf)\<rparr>)
            in (True, lf\<lparr>lf_open := True, lf_fail := False, lf_pos := e_append_pos e (length (f_data f))\<rparr>,
                w\<lparr>w_parent := Dir (fs_update (lf_path lf) f dir)\<rparr>)
          else (False, lf\<lparr>lf_fail := True\<rparr>, w)
      | _ \<Rightarrow> (False, lf\<lparr>lf_fail := True\<rparr>, w))"

definition on_file :: "string \<Rightarrow> (fs_file \<Rightarrow> fs_file) \<Rightarrow> world \<Rightarrow> world" where
  "on_file x g w =
     (case w_parent w of
        Dir dir \<Rightarrow> (case map_of dir x of Some f \<Rightarrow> w\<lparr>w_parent := Dir (fs_update x (g f) dir)\<rparr> | None \<Rightarrow> w)
      | _ \<Rightarrow> w)"

definition OpenNoLock :: "lf_env \<Rightarrow> LogFile \<Rightarrow> world \<Rightarrow> bool result \<times> LogFile \<times> world" where
  "OpenNoLock e lf w =
     (if lf_open lf then (Inr True, lf, w)
      else
        (case (if NeedRollBeforeOpen lf w then Roll e lf w else (None, lf, w)) of
           (Some ex, lf1, w1) \<Rightarrow> (Inl ex, lf1, w1)
         | (None, lf1, w1) \<Rightarrow>
             (case EnsureParentDirectory e w1 of
                (Inl ex, w2) \<Rightarrow> (Inl ex, lf1, w2)
              | (Inr False, w2) \<Rightarrow> (Inr False, lf1, w2)
              | (Inr True, w2) \<Rightarrow>
                  let (opened, lf3, w3) = open_append e lf1 w2
                  in if opened
                     then (Inr True, lf3, on_file (lf_path lf3) (SetOwnership e lf3 \<circ> SetPermissions e lf3) w3)
                     else (Inr False, lf3, w3))))"

definition LogFile_Open :: "lf_env \<Rightarrow> LogFile \<Rightarrow> world \<Rightarrow> bool result \<times> LogFile \<times> world" where
  "LogFile_Open e lf w = OpenNoLock e lf w"

definition LogFile_Close :: "LogFile \<Rightarrow> LogFile" where
  "LogFile_Close lf = (if lf_open lf then lf\<lparr>lf_open := False\<rparr> else lf)"

text \<open>
  \<open>RollCriteriaMet\<close>: \<open>tellp\<close> of a failed stream is -1; the message's seconds are unsigned, and
  so the end of the interval is compared as an unsigned number there.
\<close>

definition RollCriteriaMet :: "lf_env \<Rightarrow> LogFile \<Rightarrow> Message \<Rightarrow> bool" where
  "RollCriteriaMet e lf msg =
     (if lf_rollSize lf > 0 \<and> lf_open lf \<and> (if lf_fail lf then -1 else lf_pos lf) \<ge> lf_rollSize lf then True
      else if Secs (timestamp (msg_header msg)) \<ge> of_int (EndTime (lf_rollInterval lf))
      then e_now e \<ge> EndTime (lf_rollInterval lf)
      else False)"

text \<open>What \<open>Write\<close> or \<open><<\<close> puts at the end of the file, and the stream afterwards.\<close>

definition log_entry :: "lf_env \<Rightarrow> LogFile \<Rightarrow> Message \<Rightarrow> bytes" where
  "log_entry e lf msg =
     (case lf_format lf of Format_binary \<Rightarrow> Message_enc (e_io e) msg
      | Format_text \<Rightarrow> message_put (e_zone e) msg)"

definition append_entry :: "lf_env \<Rightarrow> Message \<Rightarrow> LogFile \<Rightarrow> world \<Rightarrow> bool \<times> LogFile \<times> world" where
  "append_entry e msg lf w =
     (if \<not> lf_open lf \<or> lf_fail lf then (False, lf\<lparr>lf_fail := True\<rparr>, w)
      else if e_can_write e then
        let w' = on_file (lf_path lf) (\<lambda>f. f\<lparr>f_data := f_data f @ log_entry e lf msg, f_mtime := e_now e\<rparr>) w
        in (True,
            lf\<lparr>lf_pos := (case w_parent w' of
                           Dir dir \<Rightarrow> (case map_of dir (lf_path lf) of Some f \<Rightarrow> int (length (f_data f)) | None \<Rightarrow> 0)
                         | _ \<Rightarrow> 0)\<rparr>, w')
      else (False, lf\<lparr>lf_fail := True\<rparr>, w))"

definition LogFile_Process :: "lf_env \<Rightarrow> Message \<Rightarrow> LogFile \<Rightarrow> world \<Rightarrow> bool result \<times> LogFile \<times> world" where
  "LogFile_Process e msg lf w =
     (if lf_open lf then
        if RollCriteriaMet e lf msg then
          (case Roll e (lf\<lparr>lf_open := False\<rparr>) w of
             (Some ex, lf1, w1) \<Rightarrow> (Inl ex, lf1, w1)
           | (None, lf1, w1) \<Rightarrow>
               (case OpenNoLock e lf1 w1 of
                  (Inl ex, lf2, w2) \<Rightarrow> (Inl ex, lf2, w2)
                | (Inr opened, lf2, w2) \<Rightarrow>
                    let (rc, lf3, w3) = append_entry e msg lf2 w2 in (Inr rc, lf3, w3)))
        else let (rc, lf3, w3) = append_entry e msg lf w in (Inr rc, lf3, w3)
      else (Inr False, lf, w))"

text \<open>
  The background command: \<open>bzip2\<close> or \<open>gzip\<close> replaces the file by the compressed one;
  \<open>squeeze\<close> is what it makes of the content.
\<close>

definition compress_done :: "(bytes \<Rightarrow> bytes) \<Rightarrow> LogFile \<Rightarrow> world \<Rightarrow> world" where
  "compress_done squeeze lf w =
     (case w_parent w of
        Dir dir \<Rightarrow>
          (case map_of dir (lf_path lf @ ''.0'') of
             Some f \<Rightarrow> w\<lparr>w_parent := Dir (fs_update (lf_path lf @ ''.0.'' @ ArchiveExtension (lf_compress lf))
                                          (f\<lparr>f_data := squeeze (f_data f)\<rparr>) (fs_remove (lf_path lf @ ''.0'') dir))\<rparr>
           | None \<Rightarrow> w)
      | _ \<Rightarrow> w)"

section \<open>Archive names\<close>

definition arch :: "LogFile \<Rightarrow> u64 \<Rightarrow> Archive" where
  "arch lf k = \<lparr>a_num = k, a_base = lf_path lf, a_compress = lf_compress lf\<rparr>"

definition arch_name :: "LogFile \<Rightarrow> u64 \<Rightarrow> string" where
  "arch_name lf k = Archive_String (arch lf k)"

lemma arch_name_eq:
  "arch_name lf k = lf_path lf @ ''.'' @ show_nat (unat k) @ ''.'' @ ArchiveExtension (lf_compress lf)"
  by (simp add: arch_name_def arch_def Archive_String_def)

lemma arch_sel [simp]:
  "a_num (arch lf k) = k" "Archive_String (arch lf k) = arch_name lf k"
  "Archive_String (Archive_Next (arch lf k)) = arch_name lf (k + 1)"
  by (simp_all add: arch_name_def) (simp_all add: arch_def Archive_Next_def)

lemma dot_no_digit: "\<not> is_digit CHR ''.''"
  by (simp add: is_digit_def)

lemma arch_name_inject [simp]: "arch_name lf j = arch_name lf k \<longleftrightarrow> j = k"
proof
  assume e: "arch_name lf j = arch_name lf k"
  have d: "takeWhile is_digit (show_nat n @ ''.'' @ r) = show_nat n" for n r
    by (rule takeWhile_all_append) (simp_all add: show_nat_digits dot_no_digit)
  from e have "takeWhile is_digit (show_nat (unat j) @ ''.'' @ ArchiveExtension (lf_compress lf)) =
      takeWhile is_digit (show_nat (unat k) @ ''.'' @ ArchiveExtension (lf_compress lf))"
    by (simp add: arch_name_eq)
  then have "unat j = unat k" unfolding d by simp
  then show "j = k" by (rule word_unat_eq_iff[THEN iffD2])
qed simp

lemma matches_name_refl [simp]: "matches_name s s"
  by (induction s) auto

lemma archive_digits_arch:
  "archive_digits (lf_path lf) (ArchiveExtension (lf_compress lf)) (arch_name lf k) = Some (show_nat (unat k))"
proof -
  have d: "takeWhile is_digit (show_nat (unat k) @ ''.'' @ r) = show_nat (unat k)" for r
    by (rule takeWhile_all_append) (simp_all add: show_nat_digits dot_no_digit)
  show ?thesis
    using d[of "ArchiveExtension (lf_compress lf)"] by (simp add: archive_digits_def arch_name_eq Let_def)
qed

lemma stoul_arch: "stoul (show_nat (unat (k :: u64))) = Inr k"
  using stoul_show_nat[of "unat k"] unsigned_less[of k, where ?'a = nat] by simp

text \<open>
  A directory in which nothing but this file's own archives looks like one: no leading
  zeros, no number at the limit of 64 bits, no other file behind the dots of the name.
\<close>

definition clean_dir :: "LogFile \<Rightarrow> directory \<Rightarrow> bool" where
  "clean_dir lf dir \<longleftrightarrow>
     distinct (map fst dir) \<and>
     (\<forall>x\<in>set (map fst dir). archive_digits (lf_path lf) (ArchiveExtension (lf_compress lf)) x \<noteq> None \<longrightarrow>
        (\<exists>k. k \<noteq> -1 \<and> x = arch_name lf k))"

lemma collect_archives_clean:
  assumes "\<forall>x\<in>set (map fst dir). archive_digits (lf_path lf) (ArchiveExtension (lf_compress lf)) x \<noteq> None \<longrightarrow>
        (\<exists>k. k \<noteq> -1 \<and> x = arch_name lf k)"
  shows "\<exists>ks. collect_archives lf dir = Inr (map (arch lf) ks) \<and> -1 \<notin> set ks \<and>
    map (arch_name lf) ks =
      filter (\<lambda>x. archive_digits (lf_path lf) (ArchiveExtension (lf_compress lf)) x \<noteq> None) (map fst dir)"
  using assms
proof (induction dir)
  case Nil
  then show ?case by simp
next
  case (Cons e dir)
  obtain x f where e: "e = (x, f)" by fastforce
  from Cons obtain ks where ks: "collect_archives lf dir = Inr (map (arch lf) ks)" "-1 \<notin> set ks"
    "map (arch_name lf) ks =
      filter (\<lambda>x. archive_digits (lf_path lf) (ArchiveExtension (lf_compress lf)) x \<noteq> None) (map fst dir)"
    by auto
  show ?case
  proof (cases "archive_digits (lf_path lf) (ArchiveExtension (lf_compress lf)) x")
    case None
    with ks e show ?thesis by (intro exI[of _ ks]) simp
  next
    case (Some ds)
    with Cons.prems e obtain k where k: "k \<noteq> -1" "x = arch_name lf k" by auto
    with Some have "ds = show_nat (unat k)" by (simp add: archive_digits_arch)
    then have "stoul ds = Inr k" by (simp add: stoul_arch)
    with Some ks e k show ?thesis by (intro exI[of _ "k # ks"]) (auto simp: arch_def)
  qed
qed

lemma map_of_keys: "map_of dir x \<noteq> None \<longleftrightarrow> x \<in> set (map fst dir)"
  by (induction dir) auto

text \<open>The archives found, newest last, and every one of them is there.\<close>

lemma GetArchives_clean:
  assumes "clean_dir lf dir"
  obtains ks where "GetArchives lf (Dir dir) = Inr (map (arch lf) ks)" "sorted_wrt (>) ks" "-1 \<notin> set ks"
    "\<forall>k. k \<in> set ks \<longleftrightarrow> map_of dir (arch_name lf k) \<noteq> None"
proof -
  obtain ks where ks: "collect_archives lf dir = Inr (map (arch lf) ks)" "-1 \<notin> set ks"
    "map (arch_name lf) ks =
      filter (\<lambda>x. archive_digits (lf_path lf) (ArchiveExtension (lf_compress lf)) x \<noteq> None) (map fst dir)"
    using collect_archives_clean[of dir lf] assms by (auto simp: clean_dir_def)
  have dist: "distinct ks"
    using ks(3) assms by (metis clean_dir_def distinct_filter distinct_map)
  have sk: "sort_key a_num (map (arch lf) xs) = map (arch lf) (sort xs)" for xs
  proof (induction xs)
    case (Cons x xs)
    have "insort_key a_num (arch lf x) (map (arch lf) ys) = map (arch lf) (insort x ys)" for ys
      by (induction ys) auto
    with Cons show ?case by simp
  qed simp
  have "sorted_wrt (<) (sort ks)" using dist by (simp add: strict_sorted_iff)
  then have "sorted_wrt (>) (rev (sort ks))" by (simp add: sorted_wrt_rev)
  moreover have "GetArchives lf (Dir dir) = Inr (map (arch lf) (rev (sort ks)))"
    using ks(1) sk by (simp add: GetArchives_def rev_map)
  moreover have "k \<in> set ks \<longleftrightarrow> map_of dir (arch_name lf k) \<noteq> None" for k
  proof -
    have "k \<in> set ks \<longleftrightarrow> arch_name lf k \<in> set (map (arch_name lf) ks)" by auto
    also have "\<dots> \<longleftrightarrow> arch_name lf k \<in> set (map fst dir)"
      unfolding ks(3) by (auto simp: archive_digits_arch)
    finally show ?thesis by (simp only: map_of_keys)
  qed
  ultimately show thesis using ks(2) by (intro that[of "rev (sort ks)"]) auto
qed

section \<open>Rolling the archives\<close>

lemma word_less_succ: "(k :: u64) \<noteq> -1 \<Longrightarrow> k < k + 1"
  by (rule ccontr) (simp add: not_less inc_less_eq_self_iff_eq)

text \<open>Archive \<open>j\<close> after the archives \<open>ks\<close> have been moved on by one or, at the limit, removed.\<close>

definition moved_archive :: "LogFile \<Rightarrow> u32 \<Rightarrow> u64 list \<Rightarrow> directory \<Rightarrow> u64 \<Rightarrow> fs_file option" where
  "moved_archive lf keep ks dir j =
     (if j - 1 \<in> set ks \<and> j < ucast keep then map_of dir (arch_name lf (j - 1))
      else if j \<in> set ks then None else map_of dir (arch_name lf j))"

lemma descending_head:
  assumes "sorted_wrt (>) (k # ks)" "(-1 :: u64) \<notin> set (k # ks)"
  shows "k \<noteq> -1" "k < k + 1" "k \<notin> set ks" "k + 1 \<notin> set ks" "\<forall>j\<in>set ks. j < k" "sorted_wrt (>) ks" "-1 \<notin> set ks"
  using assms word_less_succ[of k] by (auto dest: order.strict_trans)

lemma moved_archive_drop:
  assumes "sorted_wrt (>) (k # ks)" "-1 \<notin> set (k # ks)" "ucast keep \<le> k + 1"
  shows "moved_archive lf keep ks (fs_remove (arch_name lf k) dir) j = moved_archive lf keep (k # ks) dir j"
proof -
  have "j - 1 = k \<Longrightarrow> \<not> j < ucast keep" using assms(3) by (auto simp: not_less)
  then show ?thesis using descending_head[OF assms(1,2)] by (auto simp: moved_archive_def)
qed

lemma moved_archive_rename:
  assumes "sorted_wrt (>) (k # ks)" "-1 \<notin> set (k # ks)" "\<not> ucast keep \<le> k + 1"
    "fs_rename (arch_name lf k) (arch_name lf (k + 1)) dir = Some dd"
  shows "moved_archive lf keep ks dd j = moved_archive lf keep (k # ks) dir j"
proof -
  note k = descending_head[OF assms(1,2)] and look = fs_rename_lookup[OF assms(4)]
  consider "j = k + 1" | "j = k" | "j \<noteq> k + 1" "j \<noteq> k" by blast
  then show ?thesis
  proof cases
    case 1
    then show ?thesis using k assms(3) by (auto simp: moved_archive_def look not_le)
  next
    case 2
    have "k - 1 \<noteq> k + 1" "k - 1 \<noteq> k" using k by (auto simp: algebra_simps)
    with 2 show ?thesis using k by (auto simp: moved_archive_def look)
  next
    case 3
    then have "j - 1 \<noteq> k" by auto
    moreover have "j - 1 \<in> set ks \<Longrightarrow> j - 1 \<noteq> k + 1" using k(4) by metis
    ultimately show ?thesis using 3 k by (auto simp: moved_archive_def look)
  qed
qed

lemma roll_archives_shift:
  assumes "sorted_wrt (>) ks" "-1 \<notin> set ks" "\<forall>k\<in>set ks. map_of dir (arch_name lf k) \<noteq> None"
  shows "\<exists>dir'. roll_archives keep (map (arch lf) ks) dir = (None, dir')
    \<and> (\<forall>j. map_of dir' (arch_name lf j) = moved_archive lf keep ks dir j)
    \<and> (\<forall>x. (\<forall>j. x \<noteq> arch_name lf j) \<longrightarrow> map_of dir' x = map_of dir x)"
  using assms
proof (induction ks arbitrary: dir)
  case Nil
  then show ?case by (simp add: moved_archive_def)
next
  case (Cons k ks)
  note k = descending_head[OF Cons.prems(1,2)]
  show ?case
  proof (cases "ucast keep \<le> k + 1")
    case True
    have "\<forall>j\<in>set ks. map_of (fs_remove (arch_name lf k) dir) (arch_name lf j) \<noteq> None" using Cons.prems(3) k by auto
    from Cons.IH[OF k(6,7) this] show ?thesis using True moved_archive_drop[OF Cons.prems(1,2) True] by auto
  next
    case False
    from Cons.prems(3) obtain dd where dd: "fs_rename (arch_name lf k) (arch_name lf (k + 1)) dir = Some dd"
      using fs_rename_exists by fastforce
    have "\<forall>j\<in>set ks. map_of dd (arch_name lf j) \<noteq> None"
      using Cons.prems(3) k by (auto simp: fs_rename_lookup[OF dd])
    from Cons.IH[OF k(6,7) this] show ?thesis
      using False dd moved_archive_rename[OF Cons.prems(1,2) False dd] by (auto simp: fs_rename_lookup[OF dd])
  qed
qed

lemma distinct_filter_key: "distinct (map fst dir) \<Longrightarrow> distinct (map fst (filter P dir))"
  by (induction dir) auto

lemma distinct_fs:
  assumes "distinct (map fst dir)"
  shows "distinct (map fst (fs_remove x dir))" "distinct (map fst (fs_update x f dir))"
    and "fs_rename x y dir = Some dir' \<Longrightarrow> distinct (map fst dir')"
  using distinct_filter_key[OF assms]
  by (auto simp: fs_remove_def fs_update_def fs_rename_def split: option.splits)

lemma distinct_roll_archives:
  "roll_archives keep as dir = (ex, dir') \<Longrightarrow> distinct (map fst dir) \<Longrightarrow> distinct (map fst dir')"
  by (induction keep as dir rule: roll_archives.induct)
    (auto split: if_splits option.splits intro: distinct_fs)

text \<open>The three kinds of names a log file uses are different.\<close>

lemma name_kinds:
  "arch_name lf k \<noteq> lf_path lf" "arch_name lf k \<noteq> lf_path lf @ ''.0''"
  "lf_path lf @ ''.0'' \<noteq> lf_path lf"
proof -
  have l: "length (arch_name lf k) > length (lf_path lf) + 2"
    using show_nat_nonempty[of "unat k"] by (cases "show_nat (unat k)") (simp_all add: arch_name_eq)
  then show "arch_name lf k \<noteq> lf_path lf" "arch_name lf k \<noteq> lf_path lf @ ''.0''" by auto
qed simp

lemma archive_zero_name: "lf_path lf @ ''.0.'' @ ArchiveExtension (lf_compress lf) = arch_name lf 0"
proof -
  have "show_nat 0 = ''0''" by code_simp
  then show ?thesis by (simp add: arch_name_eq)
qed

text \<open>Archives after a roll, by number: number \<open>j\<close> is what \<open>j - 1\<close> was, up to the limit.\<close>

definition shifted :: "LogFile \<Rightarrow> directory \<Rightarrow> u64 \<Rightarrow> fs_file option" where
  "shifted lf dir j =
     (if j = 0 \<or> ucast (lf_keep lf) \<le> j then None else map_of dir (arch_name lf (j - 1)))"

lemma RollArchives_clean:
  assumes d: "w_parent w = Dir dir" and c: "clean_dir lf dir"
  obtains dir' where "RollArchives lf w = (None, w\<lparr>w_parent := Dir dir'\<rparr>)"
    "\<And>j. map_of dir' (arch_name lf j) = shifted lf dir j"
    "\<And>x. (\<forall>j. x \<noteq> arch_name lf j) \<Longrightarrow> map_of dir' x = map_of dir x" "distinct (map fst dir')"
proof -
  obtain ks where ks: "GetArchives lf (Dir dir) = Inr (map (arch lf) ks)" "sorted_wrt (>) ks" "-1 \<notin> set ks"
    "\<forall>k. k \<in> set ks \<longleftrightarrow> map_of dir (arch_name lf k) \<noteq> None" using GetArchives_clean[OF c] by blast
  then obtain dir' where r: "roll_archives (lf_keep lf) (map (arch lf) ks) dir = (None, dir')"
    "\<And>j. map_of dir' (arch_name lf j) = moved_archive lf (lf_keep lf) ks dir j"
    "\<And>x. (\<forall>j. x \<noteq> arch_name lf j) \<Longrightarrow> map_of dir' x = map_of dir x"
    using roll_archives_shift[OF ks(2,3), of dir lf "lf_keep lf"] by blast
  have "map_of dir' (arch_name lf j) = shifted lf dir j" for j
    using ks(3,4) by (auto simp: r(2) shifted_def moved_archive_def)
  moreover have "RollArchives lf w = (None, w\<lparr>w_parent := Dir dir'\<rparr>)"
    using d ks(1) r(1) by (simp add: RollArchives_def)
  moreover have "distinct (map fst dir')"
    using distinct_roll_archives[OF r(1)] c by (simp add: clean_dir_def)
  ultimately show thesis using r(3) that by blast
qed

lemma Roll_clean:
  assumes d: "w_parent w = Dir dir" and c: "clean_dir lf dir" and f: "map_of dir (lf_path lf) = Some f"
  obtains dir' where "Roll e lf w =
      (None, lf\<lparr>lf_rollInterval := SetToCurrent (e_zone e) (e_now e) (lf_rollInterval lf)\<rparr>,
       w\<lparr>w_parent := Dir dir',
         w_cmds := w_cmds w @ [CompressCommand (lf_compress lf) @ '' '' @ lf_path lf @ ''.0'' @ '' > /dev/null 2>&1 &'']\<rparr>)"
    "\<And>j. map_of dir' (arch_name lf j) = shifted lf dir j"
    "map_of dir' (lf_path lf) = None" "map_of dir' (lf_path lf @ ''.0'') = Some f"
    "\<And>x. (\<forall>j. x \<noteq> arch_name lf j) \<Longrightarrow> x \<notin> {lf_path lf, lf_path lf @ ''.0''} \<Longrightarrow> map_of dir' x = map_of dir x"
    "distinct (map fst dir')"
proof -
  obtain d1 where d1: "RollArchives lf w = (None, w\<lparr>w_parent := Dir d1\<rparr>)"
    "\<And>j. map_of d1 (arch_name lf j) = shifted lf dir j"
    "\<And>x. (\<forall>j. x \<noteq> arch_name lf j) \<Longrightarrow> map_of d1 x = map_of dir x" "distinct (map fst d1)"
    using RollArchives_clean[OF d c] by blast
  have "map_of d1 (lf_path lf) = Some f" using d1(3)[of "lf_path lf"] name_kinds(1)[symmetric] f by simp
  then obtain d2 where d2: "fs_rename (lf_path lf) (lf_path lf @ ''.0'') d1 = Some d2"
    using fs_rename_exists by blast
  note look = fs_rename_lookup[OF d2]
  have "Roll e lf w = (None, lf\<lparr>lf_rollInterval := SetToCurrent (e_zone e) (e_now e) (lf_rollInterval lf)\<rparr>,
     w\<lparr>w_parent := Dir d2,
       w_cmds := w_cmds w @ [CompressCommand (lf_compress lf) @ '' '' @ lf_path lf @ ''.0'' @ '' > /dev/null 2>&1 &'']\<rparr>)"
    using d1(1) d2 by (simp add: Roll_def RollCurrent_def Let_def)
  moreover have "map_of d2 (arch_name lf j) = shifted lf dir j" for j
    using name_kinds(1,2)[of lf j] by (simp add: look d1(2))
  moreover have "map_of d2 (lf_path lf) = None" "map_of d2 (lf_path lf @ ''.0'') = Some f"
    using \<open>map_of d1 (lf_path lf) = Some f\<close> by (simp_all add: look)
  moreover have "(\<forall>j. x \<noteq> arch_name lf j) \<Longrightarrow> x \<notin> {lf_path lf, lf_path lf @ ''.0''} \<Longrightarrow> map_of d2 x = map_of dir x" for x
    by (simp add: look d1(3))
  moreover have "distinct (map fst d2)" using distinct_fs(3)[OF d1(4) d2] .
  ultimately show thesis using that by blast
qed

section \<open>The log as a sequence of segments\<close>

text \<open>
  What the log file promises: segment 0 is being written, segment \<open>n + 1\<close> is archive
  \<open>n\<close>. Rolling puts a new segment in front and keeps a bounded number of old ones; a
  processed message extends segment 0.
\<close>

type_synonym segments = "nat \<Rightarrow> bytes option"

definition spec_roll :: "nat \<Rightarrow> segments \<Rightarrow> segments" where
  "spec_roll keep s = (\<lambda>i. case i of 0 \<Rightarrow> Some [] | Suc n \<Rightarrow> if n < max 1 keep then s n else None)"

definition spec_append :: "bytes \<Rightarrow> segments \<Rightarrow> segments" where
  "spec_append d s = s(0 := map_option (\<lambda>old. old @ d) (s 0))"

text \<open>\<open>squeeze\<close> and \<open>expand\<close> are the compressor and its inverse.\<close>

definition segments_of :: "(bytes \<Rightarrow> bytes) \<Rightarrow> LogFile \<Rightarrow> world \<Rightarrow> segments" where
  "segments_of expand lf w =
     (case w_parent w of
        Dir dir \<Rightarrow>
          (\<lambda>i. case i of 0 \<Rightarrow> map_option f_data (map_of dir (lf_path lf))
               | Suc n \<Rightarrow> if n < 2 ^ 64 then map_option (expand \<circ> f_data) (map_of dir (arch_name lf (of_nat n)))
                          else None)
      | _ \<Rightarrow> Map.empty)"

text \<open>The file is open and good, its directory is clean, no compression is under way.\<close>

definition log_inv :: "LogFile \<Rightarrow> world \<Rightarrow> bool" where
  "log_inv lf w \<longleftrightarrow>
     lf_open lf \<and> \<not> lf_fail lf \<and>
     (\<exists>dir f. w_parent w = Dir dir \<and> clean_dir lf dir \<and> map_of dir (lf_path lf) = Some f
        \<and> map_of dir (lf_path lf @ ''.0'') = None)"

text \<open>One message, and the compressor's work if the file was rolled.\<close>

definition log_step ::
    "lf_env \<Rightarrow> (bytes \<Rightarrow> bytes) \<Rightarrow> Message \<Rightarrow> LogFile \<Rightarrow> world \<Rightarrow> bool result \<times> LogFile \<times> world" where
  "log_step e squeeze msg lf w =
     (let (r, lf1, w1) = LogFile_Process e msg lf w in (r, lf1, compress_done squeeze lf1 w1))"

definition lossless :: "(bytes \<Rightarrow> bytes) \<Rightarrow> (bytes \<Rightarrow> bytes) \<Rightarrow> bool" where
  "lossless expand squeeze \<longleftrightarrow> (\<forall>d. expand (squeeze d) = d)"

definition env_permits :: "lf_env \<Rightarrow> bool" where
  "env_permits e \<longleftrightarrow> e_can_open e \<and> e_can_write e"

lemma clean_dir_cong:
  assumes "lf_path lf' = lf_path lf" "lf_compress lf' = lf_compress lf"
  shows "clean_dir lf' dir = clean_dir lf dir" "arch_name lf' = arch_name lf"
  using assms by (simp_all add: clean_dir_def arch_name_eq fun_eq_iff)

lemma append_entry_ok:
  assumes "lf_open lf" "\<not> lf_fail lf" "e_can_write e" "w_parent w = Dir dir"
    "map_of dir (lf_path lf) = Some f"
  shows "append_entry e msg lf w =
    (True, lf\<lparr>lf_pos := int (length (f_data f) + length (log_entry e lf msg))\<rparr>,
     w\<lparr>w_parent := Dir (fs_update (lf_path lf) (f\<lparr>f_data := f_data f @ log_entry e lf msg, f_mtime := e_now e\<rparr>) dir)\<rparr>)"
  using assms by (simp add: append_entry_def on_file_def Let_def)

lemma OpenNoLock_missing:
  assumes "\<not> lf_open lf" "e_can_open e" "w_parent w = Dir dir" "map_of dir (lf_path lf) = None"
  shows "\<exists>f dir'. OpenNoLock e lf w =
      (Inr True, lf\<lparr>lf_open := True, lf_fail := False, lf_pos := e_append_pos e 0\<rparr>, w\<lparr>w_parent := Dir dir'\<rparr>)
    \<and> f_data f = [] \<and> (\<forall>x. map_of dir' x = (if x = lf_path lf then Some f else map_of dir x))
    \<and> (distinct (map fst dir) \<longrightarrow> distinct (map fst dir'))"
proof -
  let ?f = "\<lparr>f_data = [], f_mtime = e_now e, f_mode = 420, f_owner = (lf_user lf, lf_group lf)\<rparr>"
  let ?lf = "lf\<lparr>lf_open := True, lf_fail := False, lf_pos := e_append_pos e 0\<rparr>"
  let ?g = "SetOwnership e ?lf (SetPermissions e ?lf ?f)"
  let ?d = "fs_update (lf_path lf) ?g (fs_update (lf_path lf) ?f dir)"
  have "OpenNoLock e lf w = (Inr True, ?lf, w\<lparr>w_parent := Dir ?d\<rparr>)"
    using assms
    by (simp add: OpenNoLock_def NeedRollBeforeOpen_def EnsureParentDirectory_def open_append_def on_file_def Let_def)
  moreover have "f_data ?g = []" by (simp add: SetOwnership_def SetPermissions_def)
  moreover have "\<forall>x. map_of ?d x = (if x = lf_path lf then Some ?g else map_of dir x)" by simp
  ultimately show ?thesis using distinct_fs(2) by blast
qed

lemma compress_done_idle:
  "w_parent w = Dir dir \<Longrightarrow> map_of dir (lf_path lf @ ''.0'') = None \<Longrightarrow> compress_done squeeze lf w = w"
  by (simp add: compress_done_def)

text \<open>A message that does not roll the file.\<close>

lemma log_step_append:
  assumes inv: "log_inv lf w" and e: "env_permits e" and r: "\<not> RollCriteriaMet e lf msg"
  shows "\<exists>lf' w'. log_step e squeeze msg lf w = (Inr True, lf', w') \<and> log_inv lf' w'
    \<and> segments_of expand lf' w' = spec_append (log_entry e lf msg) (segments_of expand lf w)
    \<and> lf_keep lf' = lf_keep lf \<and> lf_path lf' = lf_path lf \<and> lf_compress lf' = lf_compress lf
    \<and> lf_format lf' = lf_format lf"
proof -
  obtain dir f where d: "lf_open lf" "\<not> lf_fail lf" "w_parent w = Dir dir" "clean_dir lf dir"
    "map_of dir (lf_path lf) = Some f" "map_of dir (lf_path lf @ ''.0'') = None"
    using inv by (auto simp: log_inv_def)
  let ?g = "f\<lparr>f_data := f_data f @ log_entry e lf msg, f_mtime := e_now e\<rparr>"
  let ?d = "fs_update (lf_path lf) ?g dir"
  let ?lf = "lf\<lparr>lf_pos := int (length (f_data f) + length (log_entry e lf msg))\<rparr>"
  let ?w = "w\<lparr>w_parent := Dir ?d\<rparr>"
  have p: "LogFile_Process e msg lf w = (Inr True, ?lf, ?w)"
    using append_entry_ok[OF d(1,2) _ d(3,5)] e d(1) r by (simp add: LogFile_Process_def env_permits_def)
  have "compress_done squeeze ?lf ?w = ?w" using d(6) by (intro compress_done_idle[of _ ?d]) simp_all
  then have s: "log_step e squeeze msg lf w = (Inr True, ?lf, ?w)" by (simp add: log_step_def p)
  have "set (map fst ?d) = set (map fst dir)"
    using d(5) by (auto simp: map_of_keys[symmetric] simp del: set_map split: if_splits)
  then have "clean_dir lf ?d" using d(4) distinct_fs(2) by (simp add: clean_dir_def)
  then have "log_inv ?lf ?w"
    using d by (simp add: log_inv_def clean_dir_cong(1)[of "lf\<lparr>lf_pos := n\<rparr>" lf for n])
  moreover have "segments_of expand ?lf ?w = spec_append (log_entry e lf msg) (segments_of expand lf w)"
    using d name_kinds(1)[of lf]
    by (auto simp: segments_of_def spec_append_def fun_eq_iff clean_dir_cong(2)[of "lf\<lparr>lf_pos := n\<rparr>" lf for n] split: nat.splits)
  ultimately show ?thesis using s by simp
qed

text \<open>A message that does.\<close>

lemma of_nat_inverse_64: "n < 2 ^ 64 \<Longrightarrow> unat (of_nat n :: u64) = n"
  by (simp add: unsigned_of_nat take_bit_nat_eq_self)

lemma keep_limit:
  assumes "n < 2 ^ 64"
  shows "(ucast (keep :: u32) :: u64) \<le> of_nat n \<longleftrightarrow> unat keep \<le> n"
proof -
  have "unat (of_nat n :: u64) = n" using assms by (simp add: unsigned_of_nat take_bit_nat_eq_self)
  moreover have "unat (ucast keep :: u64) = unat keep"
    using unsigned_less[of keep, where ?'a = nat] by (simp add: unsigned_ucast_eq take_bit_nat_eq_self)
  ultimately show ?thesis by (simp add: word_le_nat_alt)
qed

text \<open>
  The directory \<open>d4\<close> a roll makes of \<open>dir\<close>, once the compressor is done: the file rolled away, \<open>f\<close>, is
  archive 0, the archives have moved on, \<open>g\<close> is the new file, and nothing else has changed.
\<close>

definition rolled_dir :: "(bytes \<Rightarrow> bytes) \<Rightarrow> LogFile \<Rightarrow> directory \<Rightarrow> fs_file \<Rightarrow> fs_file \<Rightarrow> directory \<Rightarrow> bool" where
  "rolled_dir squeeze lf dir f g d4 \<longleftrightarrow>
     distinct (map fst d4)
     \<and> (\<forall>j. map_of d4 (arch_name lf j) = (if j = 0 then Some (f\<lparr>f_data := squeeze (f_data f)\<rparr>) else shifted lf dir j))
     \<and> map_of d4 (lf_path lf) = Some g \<and> map_of d4 (lf_path lf @ ''.0'') = None
     \<and> (\<forall>x. (\<forall>j. x \<noteq> arch_name lf j) \<longrightarrow> x \<notin> {lf_path lf, lf_path lf @ ''.0''} \<longrightarrow> map_of d4 x = map_of dir x)"

lemma rolled_dir_intro:
  assumes "\<And>j. map_of d1 (arch_name lf j) = shifted lf dir j" "map_of d1 (lf_path lf @ ''.0'') = Some f"
    "\<And>x. (\<forall>j. x \<noteq> arch_name lf j) \<Longrightarrow> x \<notin> {lf_path lf, lf_path lf @ ''.0''} \<Longrightarrow> map_of d1 x = map_of dir x"
    "\<And>x. map_of d2 x = (if x = lf_path lf then Some f2 else map_of d1 x)" "distinct (map fst d2)"
  shows "rolled_dir squeeze lf dir f g (fs_update (arch_name lf 0) (f\<lparr>f_data := squeeze (f_data f)\<rparr>)
    (fs_remove (lf_path lf @ ''.0'') (fs_update (lf_path lf) g d2)))"
  unfolding rolled_dir_def
proof (intro conjI allI impI)
  show "distinct (map fst (fs_update (arch_name lf 0) (f\<lparr>f_data := squeeze (f_data f)\<rparr>)
      (fs_remove (lf_path lf @ ''.0'') (fs_update (lf_path lf) g d2))))"
    by (intro distinct_fs(1,2) assms(5))
qed (use assms(1,3) name_kinds[of lf] name_kinds(1,2)[of lf 0, symmetric] in \<open>auto simp: assms(4)\<close>)

lemma rolled_dir_clean:
  assumes "rolled_dir squeeze lf dir f g d4" "clean_dir lf dir" "map_of dir (lf_path lf) = Some h"
  shows "clean_dir lf d4"
  unfolding clean_dir_def
proof (intro conjI ballI impI)
  fix x
  assume x: "x \<in> set (map fst d4)" "archive_digits (lf_path lf) (ArchiveExtension (lf_compress lf)) x \<noteq> None"
  have m: "map_of d4 x \<noteq> None" using x(1) by (simp only: map_of_keys)
  show "\<exists>k. k \<noteq> -1 \<and> x = arch_name lf k"
  proof (cases "\<exists>j. x = arch_name lf j")
    case True
    then obtain j where j: "x = arch_name lf j" by blast
    have "j = 0 \<or> \<not> ucast (lf_keep lf) \<le> j"
      using m assms(1) by (auto simp: j rolled_dir_def shifted_def split: if_splits)
    moreover have "(ucast (lf_keep lf) :: u64) \<le> -1" by simp
    ultimately have "j \<noteq> -1" by auto
    with j show ?thesis by blast
  next
    case False
    then have "x = lf_path lf \<or> map_of dir x \<noteq> None" using m assms(1) by (auto simp: rolled_dir_def)
    then have "x \<in> set (map fst dir)" using assms(3) by (auto simp: map_of_keys[symmetric] simp del: set_map)
    with x(2) assms(2) show ?thesis by (auto simp: clean_dir_def)
  qed
qed (use assms(1) in \<open>simp add: rolled_dir_def\<close>)

lemma rolled_dir_segments:
  assumes r: "rolled_dir squeeze lf dir f g d4" and d: "w_parent w = Dir dir" "map_of dir (lf_path lf) = Some f"
    and w4: "w_parent w4 = Dir d4" and ex: "lossless expand squeeze"
  shows "segments_of expand lf w4 = spec_append (f_data g) (spec_roll (unat (lf_keep lf)) (segments_of expand lf w))"
proof
  fix i
  have a: "map_of d4 (lf_path lf) = Some g"
    "\<And>j. map_of d4 (arch_name lf j) = (if j = 0 then Some (f\<lparr>f_data := squeeze (f_data f)\<rparr>) else shifted lf dir j)"
    using r by (simp_all add: rolled_dir_def)
  show "segments_of expand lf w4 i = spec_append (f_data g) (spec_roll (unat (lf_keep lf)) (segments_of expand lf w)) i"
  proof (cases i)
    case 0
    then show ?thesis by (simp add: segments_of_def spec_append_def spec_roll_def w4 a(1))
  next
    case (Suc n)
    consider "n = 0" | m where "n = Suc m" "n < 2 ^ 64" | "2 ^ 64 \<le> n" by (cases n) (auto simp: not_less[symmetric])
    then show ?thesis
    proof cases
      case 1
      with Suc d show ?thesis by (simp add: segments_of_def spec_append_def spec_roll_def w4 a(2) ex[unfolded lossless_def])
    next
      case 2
      have nz: "(of_nat n :: u64) \<noteq> 0" using 2 by (metis nat.distinct(1) of_nat_inverse_64 unsigned_0)
      have "segments_of expand lf w4 i =
          map_option (expand \<circ> f_data) (if unat (lf_keep lf) \<le> n then None else map_of dir (arch_name lf (of_nat m)))"
        using Suc 2(2) nz by (simp add: segments_of_def w4 a(2) shifted_def keep_limit[OF 2(2)]) (simp add: 2(1))
      moreover have "segments_of expand lf w n = map_option (expand \<circ> f_data) (map_of dir (arch_name lf (of_nat m)))"
        using 2 d(1) by (simp add: segments_of_def)
      moreover have "n < max 1 (unat (lf_keep lf)) \<longleftrightarrow> \<not> unat (lf_keep lf) \<le> n" using 2(1) by auto
      ultimately show ?thesis using Suc by (simp add: spec_append_def spec_roll_def)
    next
      case 3
      have "unat (lf_keep lf) < 2 ^ 32" using unsigned_less[of "lf_keep lf", where ?'a = nat] by simp
      then have "\<not> n < max 1 (unat (lf_keep lf))" using 3 by simp
      with 3 Suc show ?thesis by (simp add: segments_of_def spec_append_def spec_roll_def w4)
    qed
  qed
qed

text \<open>The steps of \<open>Process\<close> in this case: close, roll, open the missing file, append.\<close>

lemma Process_rolls:
  assumes "lf_open lf" "w_parent w = Dir dir" "clean_dir lf dir" "map_of dir (lf_path lf) = Some f"
    and e: "env_permits e" and r: "RollCriteriaMet e lf msg"
  shows "\<exists>l3 w3 d1 d2 f2. LogFile_Process e msg lf w = (Inr True, l3, w3)
    \<and> l3 = lf\<lparr>lf_open := True, lf_fail := False, lf_pos := lf_pos l3, lf_rollInterval := lf_rollInterval l3\<rparr>
    \<and> w_parent w3 = Dir (fs_update (lf_path lf) (f2\<lparr>f_data := log_entry e lf msg, f_mtime := e_now e\<rparr>) d2)
    \<and> (\<forall>x. map_of d2 x = (if x = lf_path lf then Some f2 else map_of d1 x)) \<and> distinct (map fst d2)
    \<and> (\<forall>j. map_of d1 (arch_name lf j) = shifted lf dir j) \<and> map_of d1 (lf_path lf @ ''.0'') = Some f
    \<and> (\<forall>x. (\<forall>j. x \<noteq> arch_name lf j) \<longrightarrow> x \<notin> {lf_path lf, lf_path lf @ ''.0''} \<longrightarrow> map_of d1 x = map_of dir x)"
proof -
  define lc where "lc = lf\<lparr>lf_open := False\<rparr>"
  have lc: "lf_path lc = lf_path lf" "lf_compress lc = lf_compress lf" "lf_keep lc = lf_keep lf" by (simp_all add: lc_def)
  note cg = clean_dir_cong[OF lc(1,2)]
  have sh: "shifted lc dir = shifted lf dir" by (simp add: shifted_def fun_eq_iff cg lc)
  define l1 where "l1 = lc\<lparr>lf_rollInterval := SetToCurrent (e_zone e) (e_now e) (lf_rollInterval lc)\<rparr>"
  have c1: "clean_dir lc dir" "map_of dir (lf_path lc) = Some f" using assms(3,4) cg lc by auto
  obtain d1 where R: "Roll e lc w = (None, l1, w\<lparr>w_parent := Dir d1,
      w_cmds := w_cmds w @ [CompressCommand (lf_compress lf) @ '' '' @ lf_path lf @ ''.0'' @ '' > /dev/null 2>&1 &'']\<rparr>)"
    and d1: "\<And>j. map_of d1 (arch_name lf j) = shifted lf dir j"
    "map_of d1 (lf_path lf) = None" "map_of d1 (lf_path lf @ ''.0'') = Some f"
    "\<And>x. (\<forall>j. x \<noteq> arch_name lf j) \<Longrightarrow> x \<notin> {lf_path lf, lf_path lf @ ''.0''} \<Longrightarrow> map_of d1 x = map_of dir x"
    "distinct (map fst d1)"
    using Roll_clean[OF assms(2) c1, of e] unfolding cg sh lc l1_def[symmetric] by blast
  define w1 where "w1 = w\<lparr>w_parent := Dir d1,
      w_cmds := w_cmds w @ [CompressCommand (lf_compress lf) @ '' '' @ lf_path lf @ ''.0'' @ '' > /dev/null 2>&1 &'']\<rparr>"
  have w1: "w_parent w1 = Dir d1" by (simp add: w1_def)
  define l2 where "l2 = l1\<lparr>lf_open := True, lf_fail := False, lf_pos := e_append_pos e 0\<rparr>"
  obtain f2 d2 where o: "OpenNoLock e l1 w1 = (Inr True, l2, w1\<lparr>w_parent := Dir d2\<rparr>)"
    "f_data f2 = []" "\<And>x. map_of d2 x = (if x = lf_path lf then Some f2 else map_of d1 x)" "distinct (map fst d2)"
    using OpenNoLock_missing[OF _ _ w1, of l1 e] e d1(2,5) by (auto simp: env_permits_def l1_def lc_def l2_def)
  have l2: "lf_path l2 = lf_path lf" "lf_open l2" "\<not> lf_fail l2" "log_entry e l2 msg = log_entry e lf msg"
    by (simp_all add: l2_def l1_def lc_def log_entry_def)
  let ?d3 = "fs_update (lf_path lf) (f2\<lparr>f_data := log_entry e lf msg, f_mtime := e_now e\<rparr>) d2"
  let ?l3 = "l2\<lparr>lf_pos := int (length (log_entry e lf msg))\<rparr>"
  have "append_entry e msg l2 (w1\<lparr>w_parent := Dir d2\<rparr>) = (True, ?l3, w1\<lparr>w_parent := Dir ?d3\<rparr>)"
    using append_entry_ok[OF l2(2,3), of e "w1\<lparr>w_parent := Dir d2\<rparr>" d2 f2 msg] e o(2,3) l2(1,4)
    by (simp add: env_permits_def)
  then have "LogFile_Process e msg lf w = (Inr True, ?l3, w1\<lparr>w_parent := Dir ?d3\<rparr>)"
    using assms(1) r R[folded w1_def] o(1) by (simp add: LogFile_Process_def flip: lc_def)
  moreover have "?l3 = lf\<lparr>lf_open := True, lf_fail := False, lf_pos := lf_pos ?l3, lf_rollInterval := lf_rollInterval ?l3\<rparr>"
    by (simp add: l2_def l1_def lc_def)
  ultimately show ?thesis using o(3,4) d1(1,3,4)
    by (intro exI[of _ ?l3] exI[of _ "w1\<lparr>w_parent := Dir ?d3\<rparr>"] exI[of _ d1] exI[of _ d2] exI[of _ f2]) simp
qed

lemma log_step_roll:
  assumes inv: "log_inv lf w" and e: "env_permits e" and r: "RollCriteriaMet e lf msg"
    and ex: "lossless expand squeeze"
  shows "\<exists>lf' w'. log_step e squeeze msg lf w = (Inr True, lf', w') \<and> log_inv lf' w'
    \<and> segments_of expand lf' w' =
        spec_append (log_entry e lf msg) (spec_roll (unat (lf_keep lf)) (segments_of expand lf w))
    \<and> lf_keep lf' = lf_keep lf \<and> lf_path lf' = lf_path lf \<and> lf_compress lf' = lf_compress lf
    \<and> lf_format lf' = lf_format lf"
proof -
  obtain dir f where d: "lf_open lf" "w_parent w = Dir dir" "clean_dir lf dir" "map_of dir (lf_path lf) = Some f"
    using inv by (auto simp: log_inv_def)
  obtain l3 w3 d1 d2 f2 where p: "LogFile_Process e msg lf w = (Inr True, l3, w3)"
    "l3 = lf\<lparr>lf_open := True, lf_fail := False, lf_pos := lf_pos l3, lf_rollInterval := lf_rollInterval l3\<rparr>"
    "w_parent w3 = Dir (fs_update (lf_path lf) (f2\<lparr>f_data := log_entry e lf msg, f_mtime := e_now e\<rparr>) d2)"
    "\<And>x. map_of d2 x = (if x = lf_path lf then Some f2 else map_of d1 x)" "distinct (map fst d2)"
    "\<And>j. map_of d1 (arch_name lf j) = shifted lf dir j" "map_of d1 (lf_path lf @ ''.0'') = Some f"
    "\<And>x. (\<forall>j. x \<noteq> arch_name lf j) \<Longrightarrow> x \<notin> {lf_path lf, lf_path lf @ ''.0''} \<Longrightarrow> map_of d1 x = map_of dir x"
    using Process_rolls[OF d e r] by blast
  let ?g = "f2\<lparr>f_data := log_entry e lf msg, f_mtime := e_now e\<rparr>"
  define d4 where "d4 = fs_update (arch_name lf 0) (f\<lparr>f_data := squeeze (f_data f)\<rparr>)
    (fs_remove (lf_path lf @ ''.0'') (fs_update (lf_path lf) ?g d2))"
  have rd: "rolled_dir squeeze lf dir f ?g d4"
    unfolding d4_def by (rule rolled_dir_intro[OF p(6,7,8,4,5)])
  obtain n i where l3: "l3 = lf\<lparr>lf_open := True, lf_fail := False, lf_pos := n, lf_rollInterval := i\<rparr>" using p(2) by blast
  have same: "lf_path l3 = lf_path lf" "lf_compress l3 = lf_compress lf" by (simp_all add: l3)
  let ?w = "w3\<lparr>w_parent := Dir d4\<rparr>"
  have "map_of (fs_update (lf_path lf) ?g d2) (lf_path lf @ ''.0'') = Some f" using p(4,7) by simp
  then have "compress_done squeeze l3 w3 = ?w"
    using archive_zero_name[of lf] by (simp add: compress_done_def p(3) same d4_def)
  then have "log_step e squeeze msg lf w = (Inr True, l3, ?w)" by (simp add: log_step_def p(1))
  moreover have "log_inv l3 ?w"
    using rolled_dir_clean[OF rd d(3,4)] rd by (simp add: log_inv_def clean_dir_cong(1)[OF same] rolled_dir_def same) (simp add: l3)
  moreover have "segments_of expand l3 ?w =
      spec_append (log_entry e lf msg) (spec_roll (unat (lf_keep lf)) (segments_of expand lf w))"
  proof -
    have "segments_of expand l3 ?w = segments_of expand lf ?w"
      unfolding segments_of_def clean_dir_cong(2)[OF same] same by (rule refl)
    with rolled_dir_segments[OF rd d(2,4) _ ex, of ?w] show ?thesis by simp
  qed
  ultimately show ?thesis by (simp add: l3)
qed

section \<open>What a log file guarantees\<close>


text \<open>A log file in use: messages with the surroundings each was processed in.\<close>

fun log_run :: "(bytes \<Rightarrow> bytes) \<Rightarrow> (lf_env \<times> Message) list \<Rightarrow> LogFile \<times> world \<Rightarrow> LogFile \<times> world" where
  "log_run squeeze [] s = s"
| "log_run squeeze ((e, msg) # ms) (lf, w) = log_run squeeze ms (snd (log_step e squeeze msg lf w))"

definition old_gone :: "nat \<Rightarrow> segments \<Rightarrow> bool" where
  "old_gone n s \<longleftrightarrow> s 0 \<noteq> None \<and> (\<forall>i > n. s i = None)"

definition history :: "nat \<Rightarrow> segments \<Rightarrow> bytes" where
  "history n s = concat (map (\<lambda>i. case s i of None \<Rightarrow> [] | Some d \<Rightarrow> d) (rev [0..<Suc n]))"

lemma history_append: "s 0 \<noteq> None \<Longrightarrow> history n (spec_append d s) = history n s @ d"
  by (induction n) (auto simp: history_def spec_append_def)

lemma history_roll: "n < max 1 keep \<Longrightarrow> history (Suc n) (spec_roll keep s) = history n s"
proof -
  assume n: "n < max 1 keep"
  have "m \<le> max 1 keep \<Longrightarrow>
      concat (map (\<lambda>i. case spec_roll keep s i of None \<Rightarrow> [] | Some d \<Rightarrow> d) (rev [0..<Suc m])) =
      concat (map (\<lambda>i. case s i of None \<Rightarrow> [] | Some d \<Rightarrow> d) (rev [0..<m]))" for m
    by (induction m) (auto simp: spec_roll_def)
  from this[of "Suc n"] n show ?thesis by (simp add: history_def)
qed

lemma history_extend: "s (Suc n) = None \<Longrightarrow> history (Suc n) s = history n s"
  by (simp add: history_def)

lemma old_gone_append: "old_gone n (spec_append d s) = old_gone n s"
  by (auto simp: old_gone_def spec_append_def)

lemma old_gone_roll:
  "old_gone n s \<Longrightarrow> old_gone (Suc n) (spec_roll keep s)"
  "max 1 keep \<le> n \<Longrightarrow> old_gone n (spec_roll keep s)"
  by (auto simp: old_gone_def spec_roll_def split: nat.splits)

lemma old_gone_Suc: "old_gone n s \<Longrightarrow> old_gone (Suc n) s"
  by (simp add: old_gone_def)

lemma log_step_cases:
  assumes "log_inv lf w" "env_permits e" "lossless expand squeeze"
  obtains lf' w' where "log_step e squeeze msg lf w = (Inr True, lf', w')" "log_inv lf' w'"
    "segments_of expand lf' w' = spec_append (log_entry e lf msg) (segments_of expand lf w)
     \<or> segments_of expand lf' w' =
        spec_append (log_entry e lf msg) (spec_roll (unat (lf_keep lf)) (segments_of expand lf w))"
    "lf_keep lf' = lf_keep lf" "lf_path lf' = lf_path lf" "lf_compress lf' = lf_compress lf"
    "lf_format lf' = lf_format lf"
  using log_step_roll[OF assms(1,2) _ assms(3), of msg] log_step_append[OF assms(1,2), of msg squeeze expand]
  by (cases "RollCriteriaMet e lf msg") (force, blast)

lemma log_run_inv:
  assumes "log_inv lf w" "\<forall>(e, msg)\<in>set ms. env_permits e" "lossless expand squeeze"
    "old_gone (max 1 (unat (lf_keep lf))) (segments_of expand lf w)"
  shows "\<exists>lf' w'. log_run squeeze ms (lf, w) = (lf', w') \<and> log_inv lf' w'
    \<and> old_gone (max 1 (unat (lf_keep lf))) (segments_of expand lf' w')
    \<and> lf_path lf' = lf_path lf \<and> lf_compress lf' = lf_compress lf"
  using assms
proof (induction ms arbitrary: lf w)
  case (Cons x ms)
  obtain e msg where x: "x = (e, msg)" by fastforce
  from Cons.prems x have "env_permits e" by simp
  from log_step_cases[OF Cons.prems(1) this Cons.prems(3), of msg] obtain l1 w1 where
    s: "log_step e squeeze msg lf w = (Inr True, l1, w1)" "log_inv l1 w1" "lf_keep l1 = lf_keep lf"
      "lf_path l1 = lf_path lf" "lf_compress l1 = lf_compress lf"
      "old_gone (max 1 (unat (lf_keep lf))) (segments_of expand l1 w1)"
    using Cons.prems(4) by (metis old_gone_append old_gone_roll(2) order.refl)
  from Cons.IH[OF s(2) _ Cons.prems(3)] Cons.prems(2) s x show ?case by auto
qed simp

lemma log_run_history:
  assumes "log_inv lf w" "\<forall>(e, msg)\<in>set ms. env_permits e" "lossless expand squeeze"
    "old_gone n (segments_of expand lf w)" "n + length ms \<le> max 1 (unat (lf_keep lf))"
  shows "history (n + length ms) (case log_run squeeze ms (lf, w) of (lf', w') \<Rightarrow> segments_of expand lf' w') =
    history n (segments_of expand lf w) @ concat (map (\<lambda>(e, msg). log_entry e lf msg) ms)"
  using assms
proof (induction ms arbitrary: lf w n)
  case (Cons x ms)
  obtain e msg where x: "x = (e, msg)" by fastforce
  from Cons.prems x have "env_permits e" by simp
  from log_step_cases[OF Cons.prems(1) this Cons.prems(3), of msg] obtain l1 w1 where
    s: "log_step e squeeze msg lf w = (Inr True, l1, w1)" "log_inv l1 w1"
    "segments_of expand l1 w1 = spec_append (log_entry e lf msg) (segments_of expand lf w)
     \<or> segments_of expand l1 w1 =
        spec_append (log_entry e lf msg) (spec_roll (unat (lf_keep lf)) (segments_of expand lf w))"
    "lf_keep l1 = lf_keep lf" "lf_format l1 = lf_format lf" by metis
  have g: "old_gone (Suc n) (segments_of expand l1 w1)"
    using s(3) Cons.prems(4) by (metis old_gone_append old_gone_roll(1) old_gone_Suc)
  have h: "history (Suc n) (segments_of expand l1 w1) = history n (segments_of expand lf w) @ log_entry e lf msg"
  proof -
    have n: "n < max 1 (unat (lf_keep lf))" using Cons.prems(5) by simp
    have "spec_roll (unat (lf_keep lf)) (segments_of expand lf w) 0 \<noteq> None" by (simp add: spec_roll_def)
    with s(3) Cons.prems(4) show ?thesis
      by (auto simp: history_append history_roll[OF n] history_extend old_gone_def)
  qed
  have le: "log_entry e' l1 m = log_entry e' lf m" for e' m using s(5) by (simp add: log_entry_def)
  from Cons.IH[OF s(2) _ Cons.prems(3) g] Cons.prems(2,5) s(1,4) x h show ?case by (simp add: le)
qed simp

text \<open>A file opened where there was no log before.\<close>

lemma fresh_open:
  assumes "w_parent w \<in> {NoDir, Dir []}" "e_can_create e0" "env_permits e0"
  shows "\<exists>lf w'. LogFile_Open e0 (LogFile_new e0 ids path perm period maxsize keep fmt) w = (Inr True, lf, w')
    \<and> log_inv lf w' \<and> old_gone 0 (segments_of expand lf w') \<and> segments_of expand lf w' 0 = Some []
    \<and> lf_keep lf = keep \<and> lf_format lf = fmt \<and> lf_path lf = path \<and> lf_compress lf = ''bzip2''"
proof -
  let ?n = "LogFile_new e0 ids path perm period maxsize keep fmt"
  let ?w = "w\<lparr>w_parent := Dir []\<rparr>"
  have n: "\<not> lf_open ?n" "lf_path ?n = path" by (simp_all add: LogFile_new_def)
  have ed: "EnsureParentDirectory e0 w = (Inr True, ?w)"
    using assms(1,2) by (auto simp: EnsureParentDirectory_def)
  have same: "OpenNoLock e0 ?n w = OpenNoLock e0 ?n ?w"
    using assms(1) n ed by (auto simp: OpenNoLock_def NeedRollBeforeOpen_def EnsureParentDirectory_def)
  obtain f d where o: "OpenNoLock e0 ?n ?w =
      (Inr True, ?n\<lparr>lf_open := True, lf_fail := False, lf_pos := e_append_pos e0 0\<rparr>, ?w\<lparr>w_parent := Dir d\<rparr>)"
    "f_data f = []" "\<forall>x. map_of d x = (if x = path then Some f else None)" "distinct (map fst d)"
    using OpenNoLock_missing[of ?n e0 ?w "[]"] assms(3) n by (auto simp: env_permits_def)
  let ?l = "?n\<lparr>lf_open := True, lf_fail := False, lf_pos := e_append_pos e0 0\<rparr>"
  have l: "lf_path ?l = path" "lf_open ?l" "\<not> lf_fail ?l" "lf_keep ?l = keep" "lf_format ?l = fmt"
    "lf_compress ?l = ''bzip2''" by (simp_all add: LogFile_new_def)
  have "x = path" if "x \<in> set (map fst d)" for x using that o(3) by (metis map_of_keys)
  moreover have "archive_digits path e path = None" for e by (simp add: archive_digits_def Let_def)
  ultimately have c: "clean_dir ?l d" using o(4) l by (auto simp: clean_dir_def simp del: set_map)
  have p0: "path @ ''.0'' \<noteq> path" by simp
  have "log_inv ?l (?w\<lparr>w_parent := Dir d\<rparr>)"
    unfolding log_inv_def using c o(3) l p0 by (intro conjI exI[of _ d] exI[of _ f]) simp_all
  moreover have "segments_of expand ?l (?w\<lparr>w_parent := Dir d\<rparr>) = (\<lambda>i. if i = 0 then Some [] else None)"
    using o(2,3) l name_kinds(1)[of ?l] by (auto simp: segments_of_def fun_eq_iff split: nat.splits)
  ultimately show ?thesis using o(1) l by (auto simp: LogFile_Open_def old_gone_def same)
qed

definition sample_env :: lf_env where
  "sample_env = \<lparr>e_zone = sample_zone, e_now = 1700000000, e_io = sample_io, e_can_create = True, e_can_open = True,
     e_can_write = True, e_chmod_ok = True, e_chown_ok = True, e_append_pos = int\<rparr>"

definition sample_open :: "LogFile \<times> world" where
  "sample_open = snd (LogFile_Open sample_env
     (LogFile_new sample_env (0, 0) ''/log/a'' 416 hours_1 1 2 Format_text) \<lparr>w_parent = NoDir, w_cmds = []\<rparr>)"

lemma sample_env_ok [simp]: "env_permits sample_env" "e_can_create sample_env"
  by (simp_all add: env_permits_def sample_env_def)

lemma lossless_id [simp]: "lossless id id"
  by (simp add: lossless_def)

lemma sample_open_eq:
  "LogFile_Open sample_env (LogFile_new sample_env (0, 0) ''/log/a'' 416 hours_1 1 2 Format_text)
     \<lparr>w_parent = NoDir, w_cmds = []\<rparr> = (Inr True, sample_open)"
  "log_inv (fst sample_open) (snd sample_open)" "lf_keep (fst sample_open) = 2"
  "segments_of id (fst sample_open) (snd sample_open) 0 = Some []"
proof -
  let ?w = "\<lparr>w_parent = NoDir, w_cmds = []\<rparr>"
  have "w_parent ?w \<in> {NoDir, Dir []}" by simp
  from fresh_open[OF this sample_env_ok(2,1), of "(0, 0)" "''/log/a''" 416 hours_1 1 2 Format_text id]
  show "LogFile_Open sample_env (LogFile_new sample_env (0, 0) ''/log/a'' 416 hours_1 1 2 Format_text) ?w
      = (Inr True, sample_open)"
    "log_inv (fst sample_open) (snd sample_open)" "lf_keep (fst sample_open) = 2"
    "segments_of id (fst sample_open) (snd sample_open) 0 = Some []"
    by (auto simp: sample_open_def)
qed


text \<open>
  C26. The number of archives stays bounded: after any run of messages on a log that started
  fresh, no archive whose number is \<open>max 1 keep\<close> or more exists. So \<open>keep\<close> archives are kept
  beside the active file, and a limit of 0 still keeps one.
\<close>

theorem archives_stay_bounded:
  assumes "w_parent w \<in> {NoDir, Dir []}" "e_can_create e0" "env_permits e0"
    "\<forall>(e, msg)\<in>set ms. env_permits e" "lossless expand squeeze"
    "LogFile_Open e0 (LogFile_new e0 ids path perm period maxsize keep fmt) w = (Inr True, lf, w1)"
    "log_run squeeze ms (lf, w1) = (lf', w')"
  shows "\<exists>dir. w_parent w' = Dir dir \<and> (\<forall>k. max 1 (unat keep) \<le> unat k \<longrightarrow> map_of dir (arch_name lf' k) = None)"
proof -
  from fresh_open[OF assms(1-3), of ids path perm period maxsize keep fmt expand] assms(6)
  have l: "log_inv lf w1" "old_gone 0 (segments_of expand lf w1)" "lf_keep lf = keep" by auto
  then have "old_gone (max 1 (unat keep)) (segments_of expand lf w1)" by (auto simp: old_gone_def)
  from log_run_inv[OF l(1) assms(4,5)] this l(3) assms(7)
  have r: "log_inv lf' w'" "old_gone (max 1 (unat keep)) (segments_of expand lf' w')" by auto
  from r(1) obtain dir where d: "w_parent w' = Dir dir" by (auto simp: log_inv_def)
  have "map_of dir (arch_name lf' k) = None" if "max 1 (unat keep) \<le> unat k" for k
  proof -
    have "unat k < 2 ^ 64" using unsigned_less[of k, where ?'a = nat] by simp
    moreover have "segments_of expand lf' w' (Suc (unat k)) = None" using r(2) that by (simp add: old_gone_def)
    ultimately show ?thesis using d by (simp add: segments_of_def)
  qed
  with d show ?thesis by blast
qed

lemma archives_stay_bounded_witness:
  "\<exists>dir. w_parent (snd (log_run id [(sample_env, sample_message)] sample_open)) = Dir dir
    \<and> map_of dir (arch_name (fst (log_run id [(sample_env, sample_message)] sample_open)) 2) = None"
  using archives_stay_bounded[of "\<lparr>w_parent = NoDir, w_cmds = []\<rparr>" sample_env "[(sample_env, sample_message)]" id id
      "(0, 0)" "''/log/a''" 416 hours_1 1 2 Format_text "fst sample_open" "snd sample_open"] sample_open_eq(1)
  by force



text \<open>
  C27. An archive with leading zeros breaks rolling: its number parses, but the name built
  from the number is another one, so \<open>fs::rename\<close> throws out of \<open>Process\<close>; the message is not
  written and the file stays closed.
\<close>

theorem leading_zeros_stop_the_log:
  assumes "lf_open lf" "RollCriteriaMet e lf msg" "9 < lf_keep lf"
    "w_parent w = Dir [(lf_path lf @ ''.007.'' @ ArchiveExtension (lf_compress lf), g), (lf_path lf, f)]"
  shows "LogFile_Process e msg lf w = (Inl FilesystemError, lf\<lparr>lf_open := False\<rparr>, w)"
proof -
  let ?l = "lf\<lparr>lf_open := False\<rparr>" and ?x = "lf_path lf @ ''.007.'' @ ArchiveExtension (lf_compress lf)"
  have dg: "archive_digits (lf_path lf) (ArchiveExtension (lf_compress lf)) ?x = Some ''007''"
    "archive_digits (lf_path lf) (ArchiveExtension (lf_compress lf)) (lf_path lf) = None"
    by (simp_all add: archive_digits_def Let_def is_digit_def)
  have v: "digits_val ''007'' = 7" by (simp add: digits_val_def digit_val_def)
  have st: "stoul ''007'' = Inr 7" by (simp add: stoul_def is_space_def is_digit_def Let_def v)
  have n: "show_nat 7 = ''7''" by code_simp
  have k: "\<not> ucast (lf_keep lf) \<le> (8 :: u64)"
    using assms(3) keep_limit[of 8 "lf_keep lf"] by (simp add: word_less_nat_alt)
  have "GetArchives ?l (w_parent w) = Inr [\<lparr>a_num = 7, a_base = lf_path lf, a_compress = lf_compress lf\<rparr>]"
    unfolding assms(4) by (simp add: GetArchives_def dg[simplified] st)
  then have "Roll e ?l w = (Some FilesystemError, ?l, w)"
    using assms(4) k n by (simp add: Roll_def RollArchives_def Archive_String_def Archive_Next_def fs_rename_def)
  then show ?thesis using assms(1,2) by (simp add: LogFile_Process_def)
qed

lemma leading_zeros_stop_the_log_witness:
  "let f = \<lparr>f_data = ''text'', f_mtime = 0, f_mode = 416, f_owner = (0, 0)\<rparr>;
       lf = (LogFile_new sample_env (0, 0) ''a'' 416 hours_1 1 20 Format_text)\<lparr>lf_open := True, lf_pos := 4\<rparr>;
       w = \<lparr>w_parent = Dir [(''a.007.bz2'', f), (''a'', f)], w_cmds = []\<rparr>
   in LogFile_Process sample_env sample_message lf w = (Inl FilesystemError, lf\<lparr>lf_open := False\<rparr>, w)"
  unfolding Let_def
  by (rule leading_zeros_stop_the_log)
    (simp_all add: LogFile_new_def RollCriteriaMet_def ArchiveExtension_def sg_compressionExt_def)

end
