(* ===== verification/Config.thy ===== *)
theory Config
  imports LogFile
begin

text \<open>
  \<open>DwmMclogConfig.hh\<close> and the code of \<open>DwmMclogConfigParse.y\<close> behind it: the configuration
  objects with their initial values and predicates, the size and multicast address checks, and
  the settings of one log entry as the grammar's actions apply them. The address classes of
  libDwm are type parameters whose default-constructed value is an argument.
\<close>

section \<open>Configuration objects\<close>

record ('a4, 'a6) MulticastConfig =
  mc_groupAddr :: 'a4
  mc_groupAddr6 :: 'a6
  mc_intfName :: string
  mc_intfAddr :: 'a4
  mc_intfAddr6 :: 'a6
  mc_dstPort :: u16
  mc_outFilter :: string

record LoopbackConfig =
  lb_listenIpv4 :: bool
  lb_listenIpv6 :: bool
  lb_port :: u16

record ServiceConfig =
  sc_keyDirectory :: string

record LogFileConfig =
  lc_filter :: string
  lc_pathPattern :: string
  lc_permissions :: nat
  lc_period :: RollPeriod
  lc_size :: int
  lc_keep :: u32
  lc_user :: string
  lc_group :: string
  lc_compress :: string
  lc_format :: FileFormat

record FilesConfig =
  fc_logDirectory :: string
  fc_logs :: "LogFileConfig list"

record ('a4, 'a6) Config =
  cf_loopback :: LoopbackConfig
  cf_mcast :: "('a4, 'a6) MulticastConfig"
  cf_service :: ServiceConfig
  cf_filters :: "(string \<times> string) list"
  cf_files :: FilesConfig

text \<open>The default addresses and the two group addresses the code names.\<close>

record ('a4, 'a6) addr_consts =
  addr4_default :: 'a4
  addr6_default :: 'a6
  addr4_group :: 'a4
  addr6_group :: 'a6

definition MulticastConfig_Init :: "('a4, 'a6) addr_consts \<Rightarrow> ('a4, 'a6) MulticastConfig" where
  "MulticastConfig_Init ad =
     \<lparr>mc_groupAddr = addr4_group ad, mc_groupAddr6 = addr6_group ad, mc_intfName = [],
      mc_intfAddr = addr4_default ad, mc_intfAddr6 = addr6_default ad, mc_dstPort = 3737, mc_outFilter = []\<rparr>"

definition MulticastConfig_ShouldSendIpv4 :: "('a4, 'a6) addr_consts \<Rightarrow> ('a4, 'a6) MulticastConfig \<Rightarrow> bool" where
  "MulticastConfig_ShouldSendIpv4 ad mc \<longleftrightarrow> mc_intfAddr mc \<noteq> addr4_default ad \<and> mc_dstPort mc \<noteq> 0"

definition MulticastConfig_ShouldSendIpv6 :: "('a4, 'a6) addr_consts \<Rightarrow> ('a4, 'a6) MulticastConfig \<Rightarrow> bool" where
  "MulticastConfig_ShouldSendIpv6 ad mc \<longleftrightarrow>
     mc_intfName mc \<noteq> [] \<and> mc_intfAddr6 mc \<noteq> addr6_default ad \<and> mc_dstPort mc \<noteq> 0"

definition ShouldRunSender :: "('a4, 'a6) addr_consts \<Rightarrow> ('a4, 'a6) MulticastConfig \<Rightarrow> bool" where
  "ShouldRunSender ad mc \<longleftrightarrow> MulticastConfig_ShouldSendIpv4 ad mc \<or> MulticastConfig_ShouldSendIpv6 ad mc"

definition LoopbackConfig_Init :: LoopbackConfig where
  "LoopbackConfig_Init = \<lparr>lb_listenIpv4 = True, lb_listenIpv6 = False, lb_port = 3737\<rparr>"

definition ListenIpv4 :: "LoopbackConfig \<Rightarrow> bool" where
  "ListenIpv4 lb \<longleftrightarrow> lb_listenIpv4 lb \<and> lb_port lb \<noteq> 0"

definition ListenIpv6 :: "LoopbackConfig \<Rightarrow> bool" where
  "ListenIpv6 lb \<longleftrightarrow> lb_listenIpv6 lb \<and> lb_port lb \<noteq> 0"

definition ServiceConfig_Init :: ServiceConfig where
  "ServiceConfig_Init = \<lparr>sc_keyDirectory = ''/usr/local/etc/mclogd''\<rparr>"

definition LogFileConfig_Init :: LogFileConfig where
  "LogFileConfig_Init =
     \<lparr>lc_filter = [], lc_pathPattern = ''%H/%I'', lc_permissions = 420, lc_period = days_1, lc_size = 0,
      lc_keep = 7, lc_user = [], lc_group = [], lc_compress = ''bzip2'', lc_format = Format_text\<rparr>"

definition FilesConfig_Init :: FilesConfig where
  "FilesConfig_Init = \<lparr>fc_logDirectory = ''/usr/local/var/mclog'', fc_logs = []\<rparr>"

text \<open>\<open>Config::Init\<close> leaves the named filters as they are.\<close>

definition Config_Init :: "('a4, 'a6) addr_consts \<Rightarrow> ('a4, 'a6) Config \<Rightarrow> ('a4, 'a6) Config" where
  "Config_Init ad cfg =
     cfg\<lparr>cf_loopback := LoopbackConfig_Init, cf_mcast := MulticastConfig_Init ad,
         cf_service := ServiceConfig_Init, cf_files := FilesConfig_Init\<rparr>"

definition Config_ShouldSendIpv4 :: "('a4, 'a6) addr_consts \<Rightarrow> ('a4, 'a6) Config \<Rightarrow> bool" where
  "Config_ShouldSendIpv4 ad cfg = MulticastConfig_ShouldSendIpv4 ad (cf_mcast cfg)"

definition Config_ShouldSendIpv6 :: "('a4, 'a6) addr_consts \<Rightarrow> ('a4, 'a6) Config \<Rightarrow> bool" where
  "Config_ShouldSendIpv6 ad cfg = MulticastConfig_ShouldSendIpv6 ad (cf_mcast cfg)"

section \<open>Values of settings\<close>

definition multipliers :: "(char \<times> u64) list" where
  "multipliers = [(CHR ''k'', 1000), (CHR ''K'', 1024), (CHR ''m'', 1000000), (CHR ''M'', 1048576),
     (CHR ''g'', 1000000000), (CHR ''G'', 1073741824)]"

text \<open>
  \<open>LogSize\<close>: digits and any number of unit letters of which the first counts; the product
  wraps at 64 bits, and the caller takes it as a signed number.
\<close>

definition LogSize :: "string \<Rightarrow> u64" where
  "LogSize s =
     (let ds = takeWhile is_digit s; us = drop (length ds) s
      in if ds \<noteq> [] \<and> (\<forall>c\<in>set us. c \<in> set (map fst multipliers)) then
           let val = (case stoul ds of Inr v \<Rightarrow> v | Inl _ \<Rightarrow> 0)
           in if us = [] then val
              else case map_of multipliers (hd us) of Some m \<Rightarrow> val * m | None \<Rightarrow> val
         else 0)"

text \<open>Permissions may hold only bits that 07133 does not; a negative limit is replaced by 7.\<close>

definition checked_perms :: "32 word \<Rightarrow> nat" where
  "checked_perms p = (if and p 3675 = 0 then unat p else 420)"

definition checked_keep :: "int \<Rightarrow> u32" where
  "checked_keep k = (if 0 \<le> k then of_int k else 7)"

section \<open>The settings of one log entry\<close>

datatype log_setting =
    Set_filter string | Set_path string | Set_perms "32 word" | Set_period string | Set_size string
  | Set_keep int | Set_user string | Set_group string | Set_compress string | Set_format FileFormat

text \<open>\<open>expand\<close> is \<open>ExpandFilterExpr\<close> with the named filters.\<close>

fun apply_setting :: "(string \<Rightarrow> string) \<Rightarrow> log_setting \<Rightarrow> LogFileConfig \<Rightarrow> LogFileConfig" where
  "apply_setting expand (Set_filter s) c = c\<lparr>lc_filter := expand s\<rparr>"
| "apply_setting expand (Set_path s) c = c\<lparr>lc_pathPattern := s\<rparr>"
| "apply_setting expand (Set_perms p) c = c\<lparr>lc_permissions := checked_perms p\<rparr>"
| "apply_setting expand (Set_period s) c = c\<lparr>lc_period := GetRollPeriod s\<rparr>"
| "apply_setting expand (Set_size s) c = c\<lparr>lc_size := sint (LogSize s)\<rparr>"
| "apply_setting expand (Set_keep k) c = c\<lparr>lc_keep := checked_keep k\<rparr>"
| "apply_setting expand (Set_user s) c = c\<lparr>lc_user := s\<rparr>"
| "apply_setting expand (Set_group s) c = c\<lparr>lc_group := s\<rparr>"
| "apply_setting expand (Set_compress s) c = c\<lparr>lc_compress := s\<rparr>"
| "apply_setting expand (Set_format f) c = c\<lparr>lc_format := f\<rparr>"

definition LogSettings :: "(string \<Rightarrow> string) \<Rightarrow> log_setting list \<Rightarrow> LogFileConfig" where
  "LogSettings expand ss = foldl (\<lambda>c s. apply_setting expand s c) LogFileConfig_Init ss"

section \<open>What the settings guarantee\<close>

lemma checked_perms_bits: "and (checked_perms p) 3675 = 0"
proof (cases "and p 3675 = 0")
  case True
  have "unat (and p 3675) = and (unat p) 3675" by (simp add: unsigned_and_eq)
  with True show ?thesis by (simp add: checked_perms_def)
qed (simp add: checked_perms_def)

lemma apply_setting_perms:
  "and (lc_permissions c) 3675 = 0 \<Longrightarrow> and (lc_permissions (apply_setting expand s c)) 3675 = 0"
  by (cases s) (simp_all add: checked_perms_bits)

text \<open>
  Whatever permissions a log entry asks for, the ones it gets contain no bit of 07133: no
  write or execute bit for group or others, no execute bit, set-id or sticky bit at all.
\<close>

theorem log_permissions_restricted:
  "and (lc_permissions (LogSettings expand ss)) 3675 = 0"
proof -
  have "and (lc_permissions c) 3675 = 0 \<Longrightarrow>
      and (lc_permissions (foldl (\<lambda>c s. apply_setting expand s c) c ss)) 3675 = 0" for c
    by (induction ss arbitrary: c) (simp_all add: apply_setting_perms)
  then show ?thesis by (simp add: LogSettings_def LogFileConfig_Init_def)
qed

lemma multiplier_letter: "map_of multipliers c = Some m \<Longrightarrow> \<not> is_digit c \<and> c \<in> set (map fst multipliers)"
  by (auto simp: multipliers_def is_digit_def split: if_splits)

lemma LogSize_unit:
  assumes "map_of multipliers c = Some m" "n < 2 ^ 64"
  shows "LogSize (show_nat n @ [c]) = of_nat n * m"
proof -
  have c: "\<not> is_digit c" "c \<in> set (map fst multipliers)" using multiplier_letter[OF assms(1)] by auto
  have t: "takeWhile is_digit (show_nat n @ [c]) = show_nat n"
    by (rule takeWhile_all_append) (simp_all add: show_nat_digits c(1))
  show ?thesis
    using c(2) assms show_nat_nonempty[of n] stoul_show_nat[OF assms(2)]
    by (simp add: LogSize_def Let_def t)
qed

text \<open>
  A size written as a number and a unit letter is the number times the unit when the
  product fits a signed 64-bit number. Beyond that it wraps, so that a limit of
  17179869184 gigabytes is no limit at all.
\<close>

theorem log_size_value:
  assumes "map_of multipliers c = Some m" "n * unat m < 2 ^ 63"
  shows "sint (LogSize (show_nat n @ [c])) = int (n * unat m) \<and> LogSize (show_nat 17179869184 @ ''G'') = 0"
proof
  have m: "unat m \<ge> 1" using assms(1) by (auto simp: multipliers_def split: if_splits)
  then have "n \<le> n * unat m" by (cases "unat m") simp_all
  with assms(2) have "n < 2 ^ 63" by (rule le_less_trans[rotated])
  then have n: "n < 2 ^ 64" by simp
  have k: "sint (of_nat k :: u64) = int k" if "k < 2 ^ 63" for k
    using that by (simp add: signed_of_nat signed_take_bit_int_eq_self)
  have "LogSize (show_nat n @ [c]) = of_nat (n * unat m)" using LogSize_unit[OF assms(1) n] by simp
  then show "sint (LogSize (show_nat n @ [c])) = int (n * unat m)" using k[OF assms(2)] by (rule ssubst)
  have "LogSize (show_nat 17179869184 @ ''G'') = of_nat 17179869184 * 1073741824"
    by (rule LogSize_unit) (simp_all add: multipliers_def)
  then show "LogSize (show_nat 17179869184 @ ''G'') = 0" by simp
qed

lemma log_size_value_witness: "sint (LogSize (show_nat 10 @ ''M'')) = 10485760"
  using log_size_value[of "CHR ''M''" 1048576 10] by (simp add: multipliers_def)

end
