(* ===== verification/MessageFilter.thy ===== *)
theory MessageFilter
  imports Message
begin

text \<open>
  The filter expressions: the scanner \<open>DwmMclogMessageFilterLex.lex\<close>, the grammar
  \<open>DwmMclogMessageFilterParse.y\<close> and \<open>DwmMclogMessageFilterDriver.{hh,cc}\<close>. flex and bison
  generate the automata, so the model states what their inputs define: longest match over
  three start conditions; a shift-reduce parser for the grammar with its precedences
  (\<open>!\<close> over \<open>&&\<close> over \<open>||\<close>, the last two to the left) that evaluates the actions on
  the message as it reduces. \<open>boost::regex\<close> is a parameter. The lemmas relate the parser to
  the grammar as an inductive relation, show that success does not depend on the message,
  and that a printed expression means what it says.
\<close>

section \<open>Tokens\<close>

datatype tok =
    T_AND | T_EQUAL | T_GREATER | T_GREATEROREQ | T_LESS | T_LESSOREQ | T_LPAREN | T_NOT | T_NOTEQ
  | T_OR | T_QUOTE | T_RPAREN | T_SLASH
  | T_FACILITY | T_HOST | T_IDENT | T_PID | T_MSG | T_SEVERITY
  | T_FACVALUE facility | T_SEVVALUE severity | T_UINT32 u32
  | T_STRING string | T_REGEX string
  | T_YYerror

text \<open>\<open>boost::regex\<close>: which expressions its constructor accepts, and \<open>regex_match\<close>.\<close>

record rx_ops =
  rx_valid :: "string \<Rightarrow> bool"
  rx_match :: "string \<Rightarrow> string \<Rightarrow> bool"

section \<open>The scanner\<close>

datatype start_condition = INITIAL | X_QUOTED | X_REGEX

text \<open>The literal patterns of the start condition \<open>INITIAL\<close>, in the order of their rules.\<close>

definition severity_literals :: "string list" where
  "severity_literals =
     [''debug'', ''info'', ''notice'', ''warning'', ''err'', ''crit'', ''alert'', ''emerg'']"

definition facility_literals :: "string list" where
  "facility_literals =
     [''kernel'', ''user'', ''mail'', ''daemon'', ''auth'', ''syslog'', ''lpr'', ''news'', ''uucp'',
      ''cron'', ''authpriv'', ''ftp'', ''local0'', ''local1'', ''local2'', ''local3'', ''local4'',
      ''local5'', ''local6'', ''local7'']"

definition literals :: "(string \<times> tok) list" where
  "literals =
     [(''severity'', T_SEVERITY), (''facility'', T_FACILITY), (''host'', T_HOST), (''ident'', T_IDENT),
      (''msg'', T_MSG)]
     @ map (\<lambda>s. (s, T_SEVVALUE (SeverityValue s))) severity_literals
     @ map (\<lambda>s. (s, T_FACVALUE (FacilityValue s))) facility_literals
     @ [(''pid'', T_PID), (''<='', T_LESSOREQ), (''>='', T_GREATEROREQ), (''!='', T_NOTEQ),
        (''||'', T_OR), (''&&'', T_AND), (''!'', T_NOT), (''('', T_LPAREN), ('')'', T_RPAREN),
        (''<'', T_LESS), (''>'', T_GREATER), (''='', T_EQUAL), ([CHR 0x27], T_QUOTE), (''/'', T_SLASH)]"

definition is_prefix :: "string \<Rightarrow> string \<Rightarrow> bool" where
  "is_prefix p s \<longleftrightarrow> take (length p) s = p"

text \<open>Longest match; among equally long ones the first rule.\<close>

fun longest_match :: "(string \<times> tok) list \<Rightarrow> string \<Rightarrow> (string \<times> tok) option" where
  "longest_match [] s = None"
| "longest_match ((p, t) # ps) s =
     (case longest_match ps s of
        None \<Rightarrow> if is_prefix p s then Some (p, t) else None
      | Some (q, u) \<Rightarrow> if is_prefix p s \<and> length q \<le> length p then Some (p, t) else Some (q, u))"

definition cstr :: "string \<Rightarrow> string" where
  "cstr s = takeWhile (\<lambda>c. c \<noteq> CHR 0x00) s"

definition is_blank :: "char \<Rightarrow> bool" where
  "is_blank c \<longleftrightarrow> c \<in> {CHR '' '', CHR 0x09, CHR 0x0D, CHR ''\<newline>''}"

lemma longest_match_Some:
  "longest_match ps s = Some (p, t) \<Longrightarrow> is_prefix p s \<and> (p, t) \<in> set ps"
  by (induction ps s rule: longest_match.induct) (auto split: option.splits if_splits)

lemma literals_nonempty: "(p, t) \<in> set literals \<Longrightarrow> p \<noteq> []"
  by (auto simp: literals_def severity_literals_def facility_literals_def)

lemma longest_literal_consumes:
  "longest_match literals s = Some (p, t) \<Longrightarrow> length (drop (length p) s) < length s"
proof -
  assume m: "longest_match literals s = Some (p, t)"
  then have "is_prefix p s" "p \<noteq> []"
    using longest_match_Some[OF m] literals_nonempty by auto
  then show ?thesis by (cases p; cases s) (auto simp: is_prefix_def)
qed

text \<open>
  One \<open>scan\<close> after the other until end of input. A number is at most ten digits and is cut to
  32 bits. A character no rule knows is an error token, and so is a regular expression that
  \<open>boost::regex\<close> refuses.
\<close>

function scan_all :: "rx_ops \<Rightarrow> start_condition \<Rightarrow> string \<Rightarrow> tok list" where
  "scan_all rx sc [] = []"
| "scan_all rx INITIAL (c # s) =
     (if is_blank c then scan_all rx INITIAL s
      else if is_digit c then
        let ds = takeWhile is_digit (take 10 (c # s))
        in T_UINT32 (of_nat (digits_val ds)) # scan_all rx INITIAL (drop (length ds) (c # s))
      else case longest_match literals (c # s) of
             None \<Rightarrow> T_YYerror # scan_all rx INITIAL s
           | Some (p, t) \<Rightarrow>
               t # scan_all rx (if t = T_QUOTE then X_QUOTED else if t = T_SLASH then X_REGEX else INITIAL)
                     (drop (length p) (c # s)))"
| "scan_all rx X_QUOTED (c # s) =
     (if c = CHR 0x27 then T_QUOTE # scan_all rx INITIAL s
      else T_STRING (cstr (takeWhile (\<lambda>d. d \<noteq> CHR 0x27) (c # s)))
           # scan_all rx X_QUOTED (dropWhile (\<lambda>d. d \<noteq> CHR 0x27) s))"
| "scan_all rx X_REGEX (c # s) =
     (if c = CHR ''/'' then T_SLASH # scan_all rx INITIAL s
      else let e = cstr (takeWhile (\<lambda>d. d \<noteq> CHR ''/'') (c # s))
           in (if rx_valid rx e then T_REGEX e else T_YYerror)
              # scan_all rx X_REGEX (dropWhile (\<lambda>d. d \<noteq> CHR ''/'') s))"
  by pat_completeness auto

termination
proof (relation "measure (\<lambda>(rx, sc, s). length s)", goal_cases)
  case (3 rx c s ds)
  then have "ds \<noteq> []" by simp
  then show ?case by (cases ds) auto
next
  case (5 rx c s a p t)
  then show ?case using longest_literal_consumes[of "c # s" p t] by simp
qed (auto simp: less_Suc_eq_le length_dropWhile_le)

declare scan_all.simps [simp del]

section \<open>The grammar's actions\<close>

text \<open>
  A comparison of one field: the operator token and the two values. Severities are ordered
  from \<open>debug\<close> up to \<open>emerg\<close>, against their numbers.
\<close>

definition severity_test :: "tok \<Rightarrow> severity \<Rightarrow> severity \<Rightarrow> bool option" where
  "severity_test opr a v =
     (if opr = T_EQUAL then Some (a = v)
      else if opr = T_NOTEQ then Some (a \<noteq> v)
      else if opr = T_LESS then Some (a > v)
      else if opr = T_LESSOREQ then Some (a \<ge> v)
      else if opr = T_GREATER then Some (a < v)
      else if opr = T_GREATEROREQ then Some (a \<le> v) else None)"

definition facility_test :: "tok \<Rightarrow> facility \<Rightarrow> facility \<Rightarrow> bool option" where
  "facility_test opr a v =
     (if opr = T_EQUAL then Some (a = v)
      else if opr = T_NOTEQ then Some (a \<noteq> v)
      else if opr = T_LESS then Some (a < v)
      else if opr = T_LESSOREQ then Some (a \<le> v)
      else if opr = T_GREATER then Some (a > v)
      else if opr = T_GREATEROREQ then Some (a \<ge> v) else None)"

definition pid_test :: "tok \<Rightarrow> u32 \<Rightarrow> u32 \<Rightarrow> bool option" where
  "pid_test opr a v =
     (if opr = T_EQUAL then Some (a = v)
      else if opr = T_NOTEQ then Some (a \<noteq> v)
      else if opr = T_LESS then Some (a < v)
      else if opr = T_LESSOREQ then Some (a \<le> v)
      else if opr = T_GREATER then Some (a > v)
      else if opr = T_GREATEROREQ then Some (a \<ge> v) else None)"

definition string_test :: "tok \<Rightarrow> bool \<Rightarrow> bool option" where
  "string_test opr m =
     (if opr = T_EQUAL then Some m else if opr = T_NOTEQ then Some (\<not> m) else None)"

definition text_field :: "tok \<Rightarrow> Message \<Rightarrow> string option" where
  "text_field t msg =
     (if t = T_HOST then Some (hostname (origin (msg_header msg)))
      else if t = T_IDENT then Some (appname (origin (msg_header msg)))
      else if t = T_MSG then Some (msg_data msg) else None)"

text \<open>
  The productions of \<open>Expression\<close> that start with a field name: three tokens, or five when
  the operand is a \<open>QuotedString\<close> or a \<open>Regex\<close>. The value and the tokens left.
\<close>

definition operand_test :: "rx_ops \<Rightarrow> tok \<Rightarrow> string \<Rightarrow> tok list \<Rightarrow> (bool \<times> tok list) option" where
  "operand_test rx opr fld ts =
     (case ts of
        t1 # t2 # t3 # r \<Rightarrow>
          (case t2 of
             T_STRING s \<Rightarrow>
               if t1 = T_QUOTE \<and> t3 = T_QUOTE then map_option (\<lambda>b. (b, r)) (string_test opr (fld = s)) else None
           | T_REGEX e \<Rightarrow>
               if t1 = T_SLASH \<and> t3 = T_SLASH
               then map_option (\<lambda>b. (b, r)) (string_test opr (rx_match rx e fld)) else None
           | _ \<Rightarrow> None)
      | _ \<Rightarrow> None)"

definition test_at :: "rx_ops \<Rightarrow> Message \<Rightarrow> tok list \<Rightarrow> (bool \<times> tok list) option" where
  "test_at rx msg ts =
     (case ts of
        t # opr # v # r \<Rightarrow>
          if t = T_SEVERITY then
            (case v of T_SEVVALUE s \<Rightarrow> map_option (\<lambda>b. (b, r)) (severity_test opr (severity (msg_header msg)) s)
             | _ \<Rightarrow> None)
          else if t = T_FACILITY then
            (case v of T_FACVALUE f \<Rightarrow> map_option (\<lambda>b. (b, r)) (facility_test opr (facility (msg_header msg)) f)
             | _ \<Rightarrow> None)
          else if t = T_PID then
            (case v of T_UINT32 n \<Rightarrow> map_option (\<lambda>b. (b, r)) (pid_test opr (procid (origin (msg_header msg))) n)
             | _ \<Rightarrow> None)
          else (case text_field t msg of None \<Rightarrow> None | Some fld \<Rightarrow> operand_test rx opr fld (v # r))
      | _ \<Rightarrow> None)"

section \<open>The parser\<close>

text \<open>What the parser's stack holds below the expression under way.\<close>

datatype frame = F_Or bool | F_And bool | F_Not | F_LParen

fun reduce_frame :: "frame \<Rightarrow> bool \<Rightarrow> bool" where
  "reduce_frame (F_Or a) b = (a \<or> b)"
| "reduce_frame (F_And a) b = (a \<and> b)"
| "reduce_frame F_Not b = (\<not> b)"
| "reduce_frame F_LParen b = b"

text \<open>Reduce while the rule on top of the stack precedes the lookahead.\<close>

fun reduce_while :: "(frame \<Rightarrow> bool) \<Rightarrow> frame list \<Rightarrow> bool \<Rightarrow> frame list \<times> bool" where
  "reduce_while p [] b = ([], b)"
| "reduce_while p (f # fs) b = (if p f then reduce_while p fs (reduce_frame f b) else (f # fs, b))"

text \<open>Reduced before an \<open>&&\<close> is shifted, and before anything else.\<close>

definition before_and :: "frame \<Rightarrow> bool" where
  "before_and f \<longleftrightarrow> f = F_Not \<or> (\<exists>a \<in> {True, False}. f = F_And a)"

definition before_or :: "frame \<Rightarrow> bool" where
  "before_or f \<longleftrightarrow> f \<noteq> F_LParen"

lemma test_at_shorter: "test_at rx msg ts = Some (b, r) \<Longrightarrow> length r < length ts"
  by (auto simp: test_at_def operand_test_def split: list.splits if_splits option.splits tok.splits)

function (sequential) p_operand :: "rx_ops \<Rightarrow> Message \<Rightarrow> frame list \<Rightarrow> tok list \<Rightarrow> bool option"
  and p_operator :: "rx_ops \<Rightarrow> Message \<Rightarrow> frame list \<Rightarrow> bool \<Rightarrow> tok list \<Rightarrow> bool option" where
  "p_operand rx msg fs ts =
     (if ts \<noteq> [] \<and> hd ts = T_NOT then p_operand rx msg (F_Not # fs) (tl ts)
      else if ts \<noteq> [] \<and> hd ts = T_LPAREN then p_operand rx msg (F_LParen # fs) (tl ts)
      else case test_at rx msg ts of
             None \<Rightarrow> None
           | Some (b, r) \<Rightarrow> p_operator rx msg fs b r)"
| "p_operator rx msg fs b [] =
     (case reduce_while before_or fs b of ([], v) \<Rightarrow> Some v | _ \<Rightarrow> None)"
| "p_operator rx msg fs b (t # ts) =
     (if t = T_OR then
        let (fs', v) = reduce_while before_or fs b in p_operand rx msg (F_Or v # fs') ts
      else if t = T_AND then
        let (fs', v) = reduce_while before_and fs b in p_operand rx msg (F_And v # fs') ts
      else if t = T_RPAREN then
        let (fs', v) = reduce_while before_or fs b
        in if fs' \<noteq> [] then p_operator rx msg (tl fs') v ts else None
      else None)"
  by pat_completeness auto

termination
proof (relation "measure (\<lambda>x. case x of Inl (rx, msg, fs, ts) \<Rightarrow> length ts | Inr (rx, msg, fs, b, ts) \<Rightarrow> length ts)",
    goal_cases)
  case (4 rx msg fs ts x2 b r)
  then show ?case using test_at_shorter by fastforce
qed auto

declare p_operand.simps [simp del]

text \<open>\<open>parser()\<close> on the cached tokens: \<open>Some result\<close> when it returns 0, \<open>None\<close> otherwise.\<close>

definition filter_parse :: "rx_ops \<Rightarrow> Message \<Rightarrow> tok list \<Rightarrow> bool option" where
  "filter_parse rx msg ts = p_operand rx msg [] ts"

section \<open>The grammar\<close>

text \<open>
  The productions of the grammar file, its ambiguity resolved by the declared precedences:
  what a token list derives, with the value of the actions on a message.
\<close>

inductive derives_not :: "rx_ops \<Rightarrow> Message \<Rightarrow> tok list \<Rightarrow> bool \<Rightarrow> bool"
  and derives_and :: "rx_ops \<Rightarrow> Message \<Rightarrow> tok list \<Rightarrow> bool \<Rightarrow> bool"
  and derives_or :: "rx_ops \<Rightarrow> Message \<Rightarrow> tok list \<Rightarrow> bool \<Rightarrow> bool"
  for rx msg where
  Test: "test_at rx msg ts = Some (b, []) \<Longrightarrow> derives_not rx msg ts b"
| Not: "derives_not rx msg ts b \<Longrightarrow> derives_not rx msg (T_NOT # ts) (\<not> b)"
| Paren: "derives_or rx msg ts b \<Longrightarrow> derives_not rx msg (T_LPAREN # ts @ [T_RPAREN]) b"
| And1: "derives_not rx msg ts b \<Longrightarrow> derives_and rx msg ts b"
| And: "derives_and rx msg ts a \<Longrightarrow> derives_not rx msg us b \<Longrightarrow>
    derives_and rx msg (ts @ T_AND # us) (a \<and> b)"
| Or1: "derives_and rx msg ts b \<Longrightarrow> derives_or rx msg ts b"
| Or: "derives_or rx msg ts a \<Longrightarrow> derives_and rx msg us b \<Longrightarrow>
    derives_or rx msg (ts @ T_OR # us) (a \<or> b)"

inductive_cases derives_notE: "derives_not rx msg ts b"
inductive_cases derives_andE: "derives_and rx msg ts b"
inductive_cases derives_orE: "derives_or rx msg ts b"

lemmas derives_rules = Test Not Paren And1 And Or1 Or

section \<open>The parser accepts what the grammar derives\<close>

lemma operand_case_Some:
  "(case v of T_SEVVALUE s \<Rightarrow> f s | _ \<Rightarrow> None) = Some x \<longleftrightarrow> (\<exists>s. v = T_SEVVALUE s \<and> f s = Some x)"
  "(case v of T_FACVALUE s \<Rightarrow> g s | _ \<Rightarrow> None) = Some x \<longleftrightarrow> (\<exists>s. v = T_FACVALUE s \<and> g s = Some x)"
  "(case v of T_UINT32 s \<Rightarrow> h s | _ \<Rightarrow> None) = Some x \<longleftrightarrow> (\<exists>s. v = T_UINT32 s \<and> h s = Some x)"
  "(case v of T_STRING s \<Rightarrow> k s | T_REGEX e \<Rightarrow> l e | _ \<Rightarrow> None) = Some x \<longleftrightarrow>
     (\<exists>s. v = T_STRING s \<and> k s = Some x) \<or> (\<exists>e. v = T_REGEX e \<and> l e = Some x)"
  by (cases v; simp)+

lemma operand_test_iff:
  "operand_test rx opr fld ts = Some (b, r) \<longleftrightarrow>
     (\<exists>s. ts = T_QUOTE # T_STRING s # T_QUOTE # r \<and> string_test opr (fld = s) = Some b)
     \<or> (\<exists>e. ts = T_SLASH # T_REGEX e # T_SLASH # r \<and> string_test opr (rx_match rx e fld) = Some b)"
proof -
  have "(\<exists>t1 t2 t3 r'. ts = t1 # t2 # t3 # r') \<or> operand_test rx opr fld ts = None"
    by (auto simp: operand_test_def split: list.split)
  then show ?thesis
  proof
    assume "\<exists>t1 t2 t3 r'. ts = t1 # t2 # t3 # r'"
    then obtain t1 t2 t3 r' where ts: "ts = t1 # t2 # t3 # r'" by blast
    show ?thesis
      unfolding ts operand_test_def list.case operand_case_Some by (auto split: if_splits)
  next
    assume "operand_test rx opr fld ts = None"
    then show ?thesis by (auto simp: operand_test_def string_test_def split: if_splits)
  qed
qed

text \<open>The five forms of a test, as the grammar lists them.\<close>

lemma test_at_iff:
  "test_at rx msg ts = Some (b, r) \<longleftrightarrow>
     (\<exists>opr s. ts = T_SEVERITY # opr # T_SEVVALUE s # r
        \<and> severity_test opr (severity (msg_header msg)) s = Some b)
     \<or> (\<exists>opr f. ts = T_FACILITY # opr # T_FACVALUE f # r
        \<and> facility_test opr (facility (msg_header msg)) f = Some b)
     \<or> (\<exists>opr n. ts = T_PID # opr # T_UINT32 n # r
        \<and> pid_test opr (procid (origin (msg_header msg))) n = Some b)
     \<or> (\<exists>t opr fld us. ts = t # opr # us \<and> text_field t msg = Some fld
        \<and> operand_test rx opr fld us = Some (b, r))"
proof -
  have tf: "text_field T_SEVERITY msg = None" "text_field T_FACILITY msg = None"
    "text_field T_PID msg = None"
    by (simp_all add: text_field_def)
  have on: "operand_test rx opr fld [] = None" for opr fld by (simp add: operand_test_def)
  have "(\<exists>t opr v r'. ts = t # opr # v # r') \<or> test_at rx msg ts = None"
    by (auto simp: test_at_def split: list.split)
  then show ?thesis
  proof
    assume "\<exists>t opr v r'. ts = t # opr # v # r'"
    then obtain t opr v r' where ts: "ts = t # opr # v # r'" by blast
    consider "t = T_SEVERITY" | "t = T_FACILITY" | "t = T_PID"
      | "t \<noteq> T_SEVERITY" "t \<noteq> T_FACILITY" "t \<noteq> T_PID" by blast
    then show ?thesis
    proof cases
      case 1
      then show ?thesis unfolding ts test_at_def list.case by (auto simp: operand_case_Some tf)
    next
      case 2
      then show ?thesis unfolding ts test_at_def list.case by (auto simp: operand_case_Some tf)
    next
      case 3
      then show ?thesis unfolding ts test_at_def list.case by (auto simp: operand_case_Some tf)
    next
      case 4
      then show ?thesis unfolding ts test_at_def list.case by (auto split: option.splits)
    qed
  next
    assume n: "test_at rx msg ts = None"
    have "test_at rx msg (t # opr # us) = operand_test rx opr fld us"
      if "text_field t msg = Some fld" "us \<noteq> []" for t opr fld us
    proof -
      have "t \<noteq> T_SEVERITY" "t \<noteq> T_FACILITY" "t \<noteq> T_PID" using that(1) tf by auto
      with that show ?thesis by (cases us) (simp_all add: test_at_def)
    qed
    then have "\<not> (\<exists>t opr fld us. ts = t # opr # us \<and> text_field t msg = Some fld
        \<and> operand_test rx opr fld us = Some (b, r))"
      using n on by (metis option.distinct(1))
    moreover have "\<not> (\<exists>opr s. ts = T_SEVERITY # opr # T_SEVVALUE s # r
        \<and> severity_test opr (severity (msg_header msg)) s = Some b)"
      using n by (auto simp: test_at_def)
    moreover have "\<not> (\<exists>opr f. ts = T_FACILITY # opr # T_FACVALUE f # r
        \<and> facility_test opr (facility (msg_header msg)) f = Some b)"
      using n by (auto simp: test_at_def)
    moreover have "\<not> (\<exists>opr k. ts = T_PID # opr # T_UINT32 k # r
        \<and> pid_test opr (procid (origin (msg_header msg))) k = Some b)"
      using n by (auto simp: test_at_def)
    ultimately show ?thesis using n by simp
  qed
qed

lemma test_at_append:
  "test_at rx msg ts = Some (b, r) \<Longrightarrow> test_at rx msg (ts @ u) = Some (b, r @ u)"
  by (auto simp: test_at_iff operand_test_iff)

lemma test_at_prefix:
  assumes "test_at rx msg ts = Some (b, r)"
  shows "\<exists>u. ts = u @ r \<and> test_at rx msg u = Some (b, [])"
proof -
  have *: "\<exists>u. ts = u @ r \<and> test_at rx msg u = Some (b, [])"
    if "ts = u @ r" "test_at rx msg u = Some (b, [])" for u using that by blast
  show ?thesis
    using assms[unfolded test_at_iff operand_test_iff]
  proof (elim disjE exE conjE)
    fix opr s assume "ts = T_SEVERITY # opr # T_SEVVALUE s # r" "severity_test opr (severity (msg_header msg)) s = Some b"
    then show ?thesis by (intro *[of "[T_SEVERITY, opr, T_SEVVALUE s]"]) (auto simp: test_at_iff)
  next
    fix opr f assume "ts = T_FACILITY # opr # T_FACVALUE f # r" "facility_test opr (facility (msg_header msg)) f = Some b"
    then show ?thesis by (intro *[of "[T_FACILITY, opr, T_FACVALUE f]"]) (auto simp: test_at_iff)
  next
    fix opr n assume "ts = T_PID # opr # T_UINT32 n # r" "pid_test opr (procid (origin (msg_header msg))) n = Some b"
    then show ?thesis by (intro *[of "[T_PID, opr, T_UINT32 n]"]) (auto simp: test_at_iff)
  next
    fix t opr fld us s
    assume "ts = t # opr # us" "text_field t msg = Some fld" "us = T_QUOTE # T_STRING s # T_QUOTE # r"
      "string_test opr (fld = s) = Some b"
    then show ?thesis
      by (intro *[of "[t, opr, T_QUOTE, T_STRING s, T_QUOTE]"]) (auto simp: test_at_iff operand_test_iff)
  next
    fix t opr fld us e
    assume "ts = t # opr # us" "text_field t msg = Some fld" "us = T_SLASH # T_REGEX e # T_SLASH # r"
      "string_test opr (rx_match rx e fld) = Some b"
    then show ?thesis
      by (intro *[of "[t, opr, T_SLASH, T_REGEX e, T_SLASH]"]) (auto simp: test_at_iff operand_test_iff)
  qed
qed

lemma test_at_field: "test_at rx msg (t # ts) = Some (b, r) \<Longrightarrow> t \<notin> {T_NOT, T_LPAREN}"
  by (auto simp: test_at_iff text_field_def)

lemma test_at_Nil: "test_at rx msg [] = None"
  by (simp add: test_at_def)

lemma p_operand_simps [simp]:
  "p_operand rx msg fs (T_NOT # ts) = p_operand rx msg (F_Not # fs) ts"
  "p_operand rx msg fs (T_LPAREN # ts) = p_operand rx msg (F_LParen # fs) ts"
  by (simp_all add: p_operand.simps)

lemma p_operand_test:
  "test_at rx msg ts = Some (b, r) \<Longrightarrow> p_operand rx msg fs ts = p_operator rx msg fs b r"
  using test_at_field[of rx msg "hd ts" "tl ts" b r]
  by (cases ts) (auto simp: test_at_Nil, subst p_operand.simps, auto)

lemma before_simps [simp]:
  "before_and F_Not" "before_and (F_And a)" "\<not> before_and (F_Or a)" "\<not> before_and F_LParen"
  "before_or F_Not" "before_or (F_And a)" "before_or (F_Or a)" "\<not> before_or F_LParen"
  by (auto simp: before_and_def before_or_def)

text \<open>A frame that every lookahead reduces may as well be reduced at once.\<close>

lemma p_operator_reduce:
  assumes "before_and f"
  shows "p_operator rx msg (f # fs) b r = p_operator rx msg fs (reduce_frame f b) r"
proof -
  have "before_or f" using assms by (auto simp: before_and_def before_or_def)
  with assms show ?thesis by (cases r) (simp_all split: prod.splits)
qed

lemma p_operator_reduce_or:
  "r = [] \<or> hd r \<noteq> T_AND \<Longrightarrow>
   p_operator rx msg (F_Or a # fs) b r = p_operator rx msg fs (a \<or> b) r"
  by (cases r) (simp_all split: prod.splits)

definition no_and_top :: "frame list \<Rightarrow> bool" where
  "no_and_top fs \<longleftrightarrow> fs = [] \<or> \<not> before_and (hd fs)"

definition no_or_top :: "frame list \<Rightarrow> bool" where
  "no_or_top fs \<longleftrightarrow> fs = [] \<or> hd fs = F_LParen"

lemma top_simps [simp]:
  "no_and_top []" "no_or_top []" "no_and_top (F_Or a # fs)" "no_and_top (F_LParen # fs)"
  "no_or_top (F_LParen # fs)" "\<not> no_and_top (F_Not # fs)" "\<not> no_and_top (F_And a # fs)"
  "\<not> no_or_top (F_Or a # fs)" "\<not> no_or_top (F_Not # fs)" "\<not> no_or_top (F_And a # fs)"
  by (auto simp: no_and_top_def no_or_top_def)

lemma no_or_and_top: "no_or_top fs \<Longrightarrow> no_and_top fs"
  by (cases fs) (auto simp: no_or_top_def)

lemma reduce_stops:
  "no_and_top fs \<Longrightarrow> reduce_while before_and fs b = (fs, b)"
  "no_or_top fs \<Longrightarrow> reduce_while before_or fs b = (fs, b)"
  by (cases fs; auto simp: no_and_top_def no_or_top_def)+

lemma parser_follows_grammar:
  "derives_not rx msg ts b \<Longrightarrow> p_operand rx msg fs (ts @ r) = p_operator rx msg fs b r"
  "derives_and rx msg ts b \<Longrightarrow> no_and_top fs \<Longrightarrow>
     p_operand rx msg fs (ts @ r) = p_operator rx msg fs b r"
  "derives_or rx msg ts b \<Longrightarrow> no_or_top fs \<Longrightarrow> r = [] \<or> hd r \<noteq> T_AND \<Longrightarrow>
     p_operand rx msg fs (ts @ r) = p_operator rx msg fs b r"
proof (induction arbitrary: fs r and fs r and fs r rule: derives_not_derives_and_derives_or.inducts)
  case (Test ts b)
  then show ?case by (simp add: p_operand_test[OF test_at_append])
next
  case (Not ts b)
  then show ?case by (simp add: p_operator_reduce)
next
  case (Paren ts b)
  have "p_operand rx msg (F_LParen # fs) (ts @ T_RPAREN # r) =
      p_operator rx msg (F_LParen # fs) b (T_RPAREN # r)"
    by (rule Paren.IH) simp_all
  then show ?case by simp
next
  case (And1 ts b)
  then show ?case by simp
next
  case (And ts a us b)
  have "p_operand rx msg fs (ts @ T_AND # us @ r) = p_operator rx msg fs a (T_AND # us @ r)"
    using And by blast
  also have "\<dots> = p_operand rx msg (F_And a # fs) (us @ r)"
    using And.prems by (simp add: reduce_stops)
  also have "\<dots> = p_operator rx msg (F_And a # fs) b r" using And.IH by blast
  also have "\<dots> = p_operator rx msg fs (a \<and> b) r" by (simp add: p_operator_reduce)
  finally show ?case by simp
next
  case (Or1 ts b)
  then show ?case by (simp add: no_or_and_top)
next
  case (Or ts a us b)
  have "p_operand rx msg fs (ts @ T_OR # us @ r) = p_operator rx msg fs a (T_OR # us @ r)"
  proof -
    have "T_OR # us @ r = [] \<or> hd (T_OR # us @ r) \<noteq> T_AND" by simp
    then show ?thesis using Or.prems(1) Or.IH by blast
  qed
  also have "\<dots> = p_operand rx msg (F_Or a # fs) (us @ r)"
    using Or.prems by (simp add: reduce_stops)
  also have "\<dots> = p_operator rx msg (F_Or a # fs) b r" using Or.IH by simp
  also have "\<dots> = p_operator rx msg fs (a \<or> b) r" using Or.prems by (intro p_operator_reduce_or)
  finally show ?case by simp
qed

lemma filter_parse_complete: "derives_or rx msg ts b \<Longrightarrow> filter_parse rx msg ts = Some b"
  using parser_follows_grammar(3)[of rx msg ts b "[]" "[]"] by (simp add: filter_parse_def)

section \<open>The parser accepts nothing else\<close>

text \<open>The tokens a stack stands for.\<close>

inductive stack_of :: "rx_ops \<Rightarrow> Message \<Rightarrow> frame list \<Rightarrow> tok list \<Rightarrow> bool" for rx msg where
  Empty: "stack_of rx msg [] []"
| LParen: "stack_of rx msg fs p \<Longrightarrow> stack_of rx msg (F_LParen # fs) (p @ [T_LPAREN])"
| SNot: "stack_of rx msg fs p \<Longrightarrow> stack_of rx msg (F_Not # fs) (p @ [T_NOT])"
| SAnd: "stack_of rx msg fs p \<Longrightarrow> no_and_top fs \<Longrightarrow> derives_and rx msg ts a \<Longrightarrow>
    stack_of rx msg (F_And a # fs) (p @ ts @ [T_AND])"
| SOr: "stack_of rx msg fs p \<Longrightarrow> no_or_top fs \<Longrightarrow> derives_or rx msg ts a \<Longrightarrow>
    stack_of rx msg (F_Or a # fs) (p @ ts @ [T_OR])"

inductive_cases stack_NilE: "stack_of rx msg [] p"
inductive_cases stack_ConsE: "stack_of rx msg (f # fs) p"

lemma reduce_before_and:
  assumes "stack_of rx msg fs p" "derives_not rx msg ts b" "reduce_while before_and fs b = (fs', v)"
  shows "\<exists>p' us. p @ ts = p' @ us \<and> stack_of rx msg fs' p' \<and> derives_and rx msg us v \<and> no_and_top fs'"
  using assms
proof (induction fs arbitrary: p ts b)
  case Nil
  then show ?case by (intro exI[of _ p] exI[of _ ts]) (auto intro: And1)
next
  case (Cons f fs)
  show ?case
  proof (cases f)
    case F_Not
    with Cons.prems obtain q where q: "p = q @ [T_NOT]" "stack_of rx msg fs q" by (auto elim: stack_ConsE)
    have "derives_not rx msg (T_NOT # ts) (\<not> b)" using Cons.prems(2) by (rule Not)
    from Cons.IH[OF q(2) this] Cons.prems(3) F_Not q(1) show ?thesis by simp
  next
    case (F_And a)
    with Cons.prems obtain q us where q: "p = q @ us @ [T_AND]" "stack_of rx msg fs q" "no_and_top fs"
      "derives_and rx msg us a" by (auto elim: stack_ConsE)
    have "fs' = fs" "v = (a \<and> b)" using Cons.prems(3) F_And q(3) by (simp_all add: reduce_stops)
    moreover have "derives_and rx msg (us @ T_AND # ts) (a \<and> b)" using q(4) Cons.prems(2) by (rule And)
    ultimately show ?thesis using q by (intro exI[of _ q] exI[of _ "us @ T_AND # ts"]) simp
  next
    case (F_Or a)
    with Cons.prems show ?thesis by (intro exI[of _ p] exI[of _ ts]) (auto intro: And1)
  next
    case F_LParen
    with Cons.prems show ?thesis by (intro exI[of _ p] exI[of _ ts]) (auto intro: And1)
  qed
qed

lemma reduce_before_or:
  assumes "stack_of rx msg fs p" "derives_not rx msg ts b" "reduce_while before_or fs b = (fs', v)"
  shows "\<exists>p' us. p @ ts = p' @ us \<and> stack_of rx msg fs' p' \<and> derives_or rx msg us v \<and> no_or_top fs'"
proof -
  have split: "reduce_while before_or fs b = (case reduce_while before_and fs b of (gs, w) \<Rightarrow> reduce_while before_or gs w)"
    for b
  proof (induction fs arbitrary: b)
    case (Cons f fs)
    have "before_and f \<Longrightarrow> before_or f" by (auto simp: before_and_def before_or_def)
    with Cons show ?case by simp
  qed simp
  obtain gs w where g: "reduce_while before_and fs b = (gs, w)" by fastforce
  from reduce_before_and[OF assms(1,2) g] obtain p1 u1 where
    1: "p @ ts = p1 @ u1" "stack_of rx msg gs p1" "derives_and rx msg u1 w" "no_and_top gs" by blast
  have r: "reduce_while before_or gs w = (fs', v)" using assms(3) split g by simp
  show ?thesis
  proof (cases gs)
    case Nil
    with r 1 show ?thesis by (intro exI[of _ p1] exI[of _ u1]) (auto intro: Or1)
  next
    case (Cons f hs)
    with 1(4) have "f = F_LParen \<or> (\<exists>a. f = F_Or a)" by (cases f) auto
    then show ?thesis
    proof
      assume "f = F_LParen"
      with r 1 Cons show ?thesis by (intro exI[of _ p1] exI[of _ u1]) (auto intro: Or1)
    next
      assume "\<exists>a. f = F_Or a"
      then obtain a where f: "f = F_Or a" by blast
      with 1(2) Cons obtain q us where q: "p1 = q @ us @ [T_OR]" "stack_of rx msg hs q" "no_or_top hs"
        "derives_or rx msg us a" by (auto elim: stack_ConsE)
      have "fs' = hs" "v = (a \<or> w)" using r f Cons q(3) by (simp_all add: reduce_stops)
      moreover have "derives_or rx msg (us @ T_OR # u1) (a \<or> w)" using q(4) 1(3) by (rule Or)
      ultimately show ?thesis using q 1(1) by (intro exI[of _ q] exI[of _ "us @ T_OR # u1"]) simp
    qed
  qed
qed

lemma parser_sound:
  "p_operand rx msg fs ts = Some v \<Longrightarrow> stack_of rx msg fs p \<Longrightarrow> derives_or rx msg (p @ ts) v"
  "p_operator rx msg fs b ts = Some v \<Longrightarrow> stack_of rx msg fs p \<Longrightarrow> derives_not rx msg us b \<Longrightarrow>
     derives_or rx msg (p @ us @ ts) v"
proof (induction rx msg fs ts and rx msg fs b ts arbitrary: p and p us rule: p_operand_p_operator.induct)
  case (1 rx msg fs ts)
  consider (not) r where "ts = T_NOT # r" | (paren) r where "ts = T_LPAREN # r"
    | (other) "\<not> (ts \<noteq> [] \<and> hd ts = T_NOT)" "\<not> (ts \<noteq> [] \<and> hd ts = T_LPAREN)"
    by (cases ts) auto
  then show ?case
  proof cases
    case not
    then show ?thesis using 1(1)[of "p @ [T_NOT]"] 1(4,5) by (auto intro: SNot)
  next
    case paren
    then show ?thesis using 1(2)[of "p @ [T_LPAREN]"] 1(4,5) by (auto intro: LParen)
  next
    case other
    then obtain b r where t: "test_at rx msg ts = Some (b, r)" "p_operator rx msg fs b r = Some v"
      using 1(4) by (auto simp: p_operand.simps split: option.splits)
    from test_at_prefix[OF t(1)] obtain u where u: "ts = u @ r" "test_at rx msg u = Some (b, [])" by blast
    show ?thesis using 1(3)[OF other t(1) _ t(2) 1(5) Test[OF u(2)]] u(1) by simp
  qed
next
  case (2 rx msg fs b)
  obtain fs' w where r: "reduce_while before_or fs b = (fs', w)" by fastforce
  with 2(1) have "fs' = []" "w = v" by (auto split: list.splits)
  with reduce_before_or[OF 2(2,3) r] show ?case by (auto elim: stack_NilE)
next
  case (3 rx msg fs b t ts)
  show ?case
  proof (cases "t = T_AND")
    case True
    obtain fs' w where r: "reduce_while before_and fs b = (fs', w)" by fastforce
    from reduce_before_and[OF 3(5,6) r] obtain p' u' where
      u: "p @ us = p' @ u'" "stack_of rx msg fs' p'" "derives_and rx msg u' w" "no_and_top fs'" by blast
    have st: "stack_of rx msg (F_And w # fs') (p' @ u' @ [T_AND])" using u(2,4,3) by (rule SAnd)
    have e: "p @ us @ t # ts = (p' @ u' @ [T_AND]) @ ts" using arg_cong[OF u(1), of "\<lambda>x. x @ t # ts"] True
      by (simp only: append_assoc append_Cons append_Nil)
    show ?thesis unfolding e using 3(2)[OF _ True r[symmetric] refl _ st] 3(4) True r by simp
  next
    case nand: False
    obtain fs' w where r: "reduce_while before_or fs b = (fs', w)" by fastforce
    from reduce_before_or[OF 3(5,6) r] obtain p' u' where
      u: "p @ us = p' @ u'" "stack_of rx msg fs' p'" "derives_or rx msg u' w" "no_or_top fs'" by blast
    show ?thesis
    proof (cases "t = T_OR")
      case True
      have st: "stack_of rx msg (F_Or w # fs') (p' @ u' @ [T_OR])" using u(2,4,3) by (rule SOr)
      have e: "p @ us @ t # ts = (p' @ u' @ [T_OR]) @ ts" using arg_cong[OF u(1), of "\<lambda>x. x @ t # ts"] True
      by (simp only: append_assoc append_Cons append_Nil)
      show ?thesis unfolding e using 3(1)[OF True r[symmetric] refl _ st] 3(4) True r by simp
    next
      case False
      then have t: "t = T_RPAREN" "fs' \<noteq> []" "p_operator rx msg (tl fs') w ts = Some v"
        using 3(4) nand r by (auto split: if_splits)
      then obtain gs where g: "fs' = F_LParen # gs" using u(4) by (cases fs') (auto simp: no_or_top_def)
      with u(2) obtain q where q: "p' = q @ [T_LPAREN]" "stack_of rx msg gs q" by (auto elim: stack_ConsE)
      have pr: "derives_not rx msg (T_LPAREN # u' @ [T_RPAREN]) w" using u(3) by (rule Paren)
      have e: "p @ us @ t # ts = q @ (T_LPAREN # u' @ [T_RPAREN]) @ ts"
        using arg_cong[OF u(1), of "\<lambda>x. x @ t # ts"] q(1) t(1)
        by (simp only: append_assoc append_Cons append_Nil)
      show ?thesis unfolding e using 3(3)[OF False nand t(1) r[symmetric] refl t(2) t(3) _ pr] q(2) g by simp
    qed
  qed
qed

lemma filter_parse_sound: "filter_parse rx msg ts = Some b \<Longrightarrow> derives_or rx msg ts b"
  using parser_sound(1)[of rx msg "[]" ts b "[]"] by (simp add: filter_parse_def Empty)

section \<open>The driver\<close>

record MessageFilterDriver =
  drv_expr :: string
  drv_tokens :: "tok list"
  drv_tokenized :: bool

text \<open>
  \<open>parse\<close>: the expression is scanned once, the tokens are kept. \<open>None\<close> stands for the return
  value \<open>false\<close>; what \<open>result\<close> holds then is not used by any caller.
\<close>

definition driver_parse ::
    "rx_ops \<Rightarrow> Message \<Rightarrow> MessageFilterDriver \<Rightarrow> bool option \<times> MessageFilterDriver" where
  "driver_parse rx msg drv =
     (let drv' = (if drv_tokenized drv then drv
                  else drv\<lparr>drv_tokens := scan_all rx INITIAL (drv_expr drv), drv_tokenized := True\<rparr>)
      in (filter_parse rx msg (drv_tokens drv'), drv'))"

text \<open>\<open>is_valid\<close> parses on a default message, \<open>msg0\<close>, whose enumerations hold no set value.\<close>

definition driver_is_valid :: "rx_ops \<Rightarrow> Message \<Rightarrow> MessageFilterDriver \<Rightarrow> bool \<times> MessageFilterDriver" where
  "driver_is_valid rx msg0 drv =
     (let (r, drv') = driver_parse rx msg0 drv in (r \<noteq> None, drv'))"

definition MessageFilterDriver_new :: "rx_ops \<Rightarrow> Message \<Rightarrow> string \<Rightarrow> MessageFilterDriver result" where
  "MessageFilterDriver_new rx msg0 expr =
     (let (valid, drv) = driver_is_valid rx msg0
            \<lparr>drv_expr = expr, drv_tokens = [], drv_tokenized = False\<rparr>
      in if valid then Inr drv else Inl InvalidArgument)"

section \<open>Validity does not depend on the message\<close>

lemma tests_total:
  "severity_test opr a v = Some b \<Longrightarrow> \<exists>b'. severity_test opr a' v = Some b'"
  "facility_test opr f g = Some b \<Longrightarrow> \<exists>b'. facility_test opr f' g = Some b'"
  "pid_test opr n k = Some b \<Longrightarrow> \<exists>b'. pid_test opr n' k = Some b'"
  "string_test opr m = Some b \<Longrightarrow> \<exists>b'. string_test opr m' = Some b'"
  by (auto simp: severity_test_def facility_test_def pid_test_def string_test_def split: if_splits)

lemma text_field_total: "text_field t msg = Some s \<Longrightarrow> \<exists>s'. text_field t msg' = Some s'"
  by (auto simp: text_field_def split: if_splits)

lemma test_at_other_message:
  assumes "test_at rx msg ts = Some (b, r)"
  shows "\<exists>b'. test_at rx msg' ts = Some (b', r)"
  using assms[unfolded test_at_iff operand_test_iff]
proof (elim disjE exE conjE)
  fix t opr fld us s
  assume "ts = t # opr # us" "text_field t msg = Some fld" "us = T_QUOTE # T_STRING s # T_QUOTE # r"
    "string_test opr (fld = s) = Some b"
  moreover obtain fld' where "text_field t msg' = Some fld'"
    using text_field_total calculation(2) by blast
  moreover obtain b' where "string_test opr (fld' = s) = Some b'" using tests_total(4) calculation(4) by blast
  ultimately show ?thesis by (auto simp: test_at_iff operand_test_iff)
next
  fix t opr fld us e
  assume "ts = t # opr # us" "text_field t msg = Some fld" "us = T_SLASH # T_REGEX e # T_SLASH # r"
    "string_test opr (rx_match rx e fld) = Some b"
  moreover obtain fld' where "text_field t msg' = Some fld'"
    using text_field_total calculation(2) by blast
  moreover obtain b' where "string_test opr (rx_match rx e fld') = Some b'"
    using tests_total(4) calculation(4) by blast
  ultimately show ?thesis by (auto simp: test_at_iff operand_test_iff)
next
  fix opr s assume "ts = T_SEVERITY # opr # T_SEVVALUE s # r" "severity_test opr (severity (msg_header msg)) s = Some b"
  then show ?thesis using tests_total(1)[of opr _ s b] by (simp add: test_at_iff) blast
next
  fix opr f assume "ts = T_FACILITY # opr # T_FACVALUE f # r" "facility_test opr (facility (msg_header msg)) f = Some b"
  then show ?thesis using tests_total(2)[of opr _ f b] by (simp add: test_at_iff) blast
next
  fix opr n assume "ts = T_PID # opr # T_UINT32 n # r" "pid_test opr (procid (origin (msg_header msg))) n = Some b"
  then show ?thesis using tests_total(3)[of opr _ n b] by (simp add: test_at_iff) blast
qed

lemma derives_other_message:
  "derives_not rx msg ts b \<Longrightarrow> \<exists>b'. derives_not rx msg' ts b'"
  "derives_and rx msg ts b \<Longrightarrow> \<exists>b'. derives_and rx msg' ts b'"
  "derives_or rx msg ts b \<Longrightarrow> \<exists>b'. derives_or rx msg' ts b'"
proof (induction rule: derives_not_derives_and_derives_or.inducts)
  case (Test ts b)
  then show ?case using test_at_other_message by (blast intro: derives_rules)
qed (blast intro: derives_rules)+

lemma filter_parse_other_message:
  "filter_parse rx msg ts = Some b \<Longrightarrow> \<exists>b'. filter_parse rx msg' ts = Some b'"
  by (meson derives_other_message(3) filter_parse_complete filter_parse_sound)

lemma MessageFilterDriver_new_iff:
  "MessageFilterDriver_new rx msg0 expr = Inr drv \<longleftrightarrow>
     drv = \<lparr>drv_expr = expr, drv_tokens = scan_all rx INITIAL expr, drv_tokenized = True\<rparr>
     \<and> (\<exists>b. filter_parse rx msg0 (scan_all rx INITIAL expr) = Some b)"
  by (auto simp: MessageFilterDriver_new_def driver_is_valid_def driver_parse_def)

section \<open>Expressions, their text and their meaning\<close>

datatype comparison = Eq | Ne | Lt | Le | Gt | Ge
datatype text_name = Host | Ident | Msg

datatype fexpr =
    SeverityIs comparison severity
  | FacilityIs comparison facility
  | PidIs comparison u32
  | TextIs text_name bool string
  | TextMatches text_name bool string
  | NotE fexpr
  | AndE fexpr fexpr
  | OrE fexpr fexpr

text \<open>\<open>severity < info\<close> reads as less severe than \<open>info\<close>, that is a greater number.\<close>

fun eval_fexpr :: "rx_ops \<Rightarrow> Message \<Rightarrow> fexpr \<Rightarrow> bool" where
  "eval_fexpr rx msg (SeverityIs c s) =
     (let v = severity (msg_header msg)
      in case c of Eq \<Rightarrow> v = s | Ne \<Rightarrow> v \<noteq> s | Lt \<Rightarrow> v > s | Le \<Rightarrow> v \<ge> s | Gt \<Rightarrow> v < s | Ge \<Rightarrow> v \<le> s)"
| "eval_fexpr rx msg (FacilityIs c s) =
     (let v = facility (msg_header msg)
      in case c of Eq \<Rightarrow> v = s | Ne \<Rightarrow> v \<noteq> s | Lt \<Rightarrow> v < s | Le \<Rightarrow> v \<le> s | Gt \<Rightarrow> v > s | Ge \<Rightarrow> v \<ge> s)"
| "eval_fexpr rx msg (PidIs c s) =
     (let v = procid (origin (msg_header msg))
      in case c of Eq \<Rightarrow> v = s | Ne \<Rightarrow> v \<noteq> s | Lt \<Rightarrow> v < s | Le \<Rightarrow> v \<le> s | Gt \<Rightarrow> v > s | Ge \<Rightarrow> v \<ge> s)"
| "eval_fexpr rx msg (TextIs n pos s) =
     (pos = ((case n of Host \<Rightarrow> hostname (origin (msg_header msg)) | Ident \<Rightarrow> appname (origin (msg_header msg))
              | Msg \<Rightarrow> msg_data msg) = s))"
| "eval_fexpr rx msg (TextMatches n pos e) =
     (pos = rx_match rx e (case n of Host \<Rightarrow> hostname (origin (msg_header msg))
              | Ident \<Rightarrow> appname (origin (msg_header msg)) | Msg \<Rightarrow> msg_data msg))"
| "eval_fexpr rx msg (NotE e) = (\<not> eval_fexpr rx msg e)"
| "eval_fexpr rx msg (AndE d e) = (eval_fexpr rx msg d \<and> eval_fexpr rx msg e)"
| "eval_fexpr rx msg (OrE d e) = (eval_fexpr rx msg d \<or> eval_fexpr rx msg e)"

fun comparison_tok :: "comparison \<Rightarrow> string \<times> tok" where
  "comparison_tok Eq = (''='', T_EQUAL)"
| "comparison_tok Ne = (''!='', T_NOTEQ)"
| "comparison_tok Lt = (''<'', T_LESS)"
| "comparison_tok Le = (''<='', T_LESSOREQ)"
| "comparison_tok Gt = (''>'', T_GREATER)"
| "comparison_tok Ge = (''>='', T_GREATEROREQ)"

fun text_name_tok :: "text_name \<Rightarrow> string \<times> tok" where
  "text_name_tok Host = (''host'', T_HOST)"
| "text_name_tok Ident = (''ident'', T_IDENT)"
| "text_name_tok Msg = (''msg'', T_MSG)"

definition equality_tok :: "bool \<Rightarrow> string \<times> tok" where
  "equality_tok pos = (if pos then (''='', T_EQUAL) else (''!='', T_NOTEQ))"

text \<open>
  Words, each followed by a blank; quoted strings and regular expressions keep their
  delimiters next to them. Parentheses where the precedence of the context needs them:
  0 for an operand of \<open>||\<close> on the left, 1 for \<open>&&\<close>, 2 for \<open>!\<close>.
\<close>

datatype lexeme = Word string tok | Quoted string | Slashed string | Number u32

fun lexeme_text :: "lexeme \<Rightarrow> string" where
  "lexeme_text (Word s t) = s @ '' ''"
| "lexeme_text (Quoted s) = [CHR 0x27] @ s @ [CHR 0x27] @ '' ''"
| "lexeme_text (Slashed s) = ''/'' @ s @ ''/ ''"
| "lexeme_text (Number n) = show_nat (unat n) @ '' ''"

fun lexeme_toks :: "lexeme \<Rightarrow> tok list" where
  "lexeme_toks (Word s t) = [t]"
| "lexeme_toks (Quoted s) = [T_QUOTE, T_STRING s, T_QUOTE]"
| "lexeme_toks (Slashed s) = [T_SLASH, T_REGEX s, T_SLASH]"
| "lexeme_toks (Number n) = [T_UINT32 n]"

definition word :: "string \<times> tok \<Rightarrow> lexeme" where
  "word p = Word (fst p) (snd p)"

definition parens :: "bool \<Rightarrow> lexeme list \<Rightarrow> lexeme list" where
  "parens b ls = (if b then Word ''('' T_LPAREN # ls @ [Word '')'' T_RPAREN] else ls)"

fun lexemes :: "nat \<Rightarrow> fexpr \<Rightarrow> lexeme list" where
  "lexemes n (SeverityIs c s) =
     [Word ''severity'' T_SEVERITY, word (comparison_tok c), Word (SeverityName s) (T_SEVVALUE s)]"
| "lexemes n (FacilityIs c s) =
     [Word ''facility'' T_FACILITY, word (comparison_tok c), Word (FacilityName s) (T_FACVALUE s)]"
| "lexemes n (PidIs c s) = [Word ''pid'' T_PID, word (comparison_tok c), Number s]"
| "lexemes n (TextIs f pos s) = [word (text_name_tok f), word (equality_tok pos), Quoted s]"
| "lexemes n (TextMatches f pos e) = [word (text_name_tok f), word (equality_tok pos), Slashed e]"
| "lexemes n (NotE e) = Word ''!'' T_NOT # lexemes 2 e"
| "lexemes n (AndE d e) = parens (1 < n) (lexemes 1 d @ Word ''&&'' T_AND # lexemes 2 e)"
| "lexemes n (OrE d e) = parens (0 < n) (lexemes 0 d @ Word ''||'' T_OR # lexemes 1 e)"

definition fexpr_text :: "fexpr \<Rightarrow> string" where
  "fexpr_text e = concat (map lexeme_text (lexemes 0 e))"

text \<open>
  Enumerators that have names; strings and expressions that are not empty and hold neither
  their delimiter nor a NUL.
\<close>

fun fexpr_ok :: "rx_ops \<Rightarrow> fexpr \<Rightarrow> bool" where
  "fexpr_ok rx (SeverityIs c s) = valid_severity s"
| "fexpr_ok rx (FacilityIs c s) = valid_facility s"
| "fexpr_ok rx (PidIs c s) = True"
| "fexpr_ok rx (TextIs f pos s) = (s \<noteq> [] \<and> CHR 0x27 \<notin> set s \<and> CHR 0x00 \<notin> set s)"
| "fexpr_ok rx (TextMatches f pos e) = (e \<noteq> [] \<and> CHR ''/'' \<notin> set e \<and> CHR 0x00 \<notin> set e \<and> rx_valid rx e)"
| "fexpr_ok rx (NotE e) = fexpr_ok rx e"
| "fexpr_ok rx (AndE d e) = (fexpr_ok rx d \<and> fexpr_ok rx e)"
| "fexpr_ok rx (OrE d e) = (fexpr_ok rx d \<and> fexpr_ok rx e)"

fun lexeme_ok :: "rx_ops \<Rightarrow> lexeme \<Rightarrow> bool" where
  "lexeme_ok rx (Word s t) = ((s, t) \<in> set literals \<and> t \<noteq> T_QUOTE \<and> t \<noteq> T_SLASH)"
| "lexeme_ok rx (Quoted s) = (s \<noteq> [] \<and> CHR 0x27 \<notin> set s \<and> CHR 0x00 \<notin> set s)"
| "lexeme_ok rx (Slashed e) = (e \<noteq> [] \<and> CHR ''/'' \<notin> set e \<and> CHR 0x00 \<notin> set e \<and> rx_valid rx e)"
| "lexeme_ok rx (Number n) = True"

section \<open>The scanner reads back what was printed\<close>

lemma is_prefix_blank:
  assumes "is_prefix q (p @ c # r)" "c \<notin> set q"
  shows "length q \<le> length p \<and> (length q = length p \<longrightarrow> q = p)"
proof -
  have q: "take (length q) (p @ c # r) = q" using assms(1) by (simp add: is_prefix_def)
  have "length q \<le> length p"
  proof (rule ccontr)
    assume "\<not> length q \<le> length p"
    then have "c \<in> set (take (length q) (p @ c # r))" by (cases "length q - length p") auto
    with q assms(2) show False by simp
  qed
  then show ?thesis using q by auto
qed

lemma longest_match_word:
  assumes "\<forall>q\<in>fst ` set ps. c \<notin> set q" "distinct (map fst ps)" "(p, t) \<in> set ps"
  shows "longest_match ps (p @ c # r) = Some (p, t)"
  using assms
proof (induction ps)
  case (Cons x ps)
  obtain q u where x: "x = (q, u)" by fastforce
  have p: "is_prefix p (p @ c # r)" by (simp add: is_prefix_def)
  show ?case
  proof (cases "(q, u) = (p, t)")
    case True
    have "longest_match ps (p @ c # r) = Some (q', u') \<Longrightarrow> length q' \<le> length p" for q' u'
      using longest_match_Some[of ps "p @ c # r" q' u'] Cons.prems(1) is_prefix_blank[of q' p c r] by force
    with True p x show ?thesis by (auto split: option.splits)
  next
    case False
    with Cons.prems x have in_ps: "(p, t) \<in> set ps" by auto
    with Cons have ih: "longest_match ps (p @ c # r) = Some (p, t)" by auto
    have F: "\<not> (is_prefix q (p @ c # r) \<and> length p \<le> length q)"
    proof
      assume *: "is_prefix q (p @ c # r) \<and> length p \<le> length q"
      with is_prefix_blank[of q p c r] Cons.prems(1) x have "q = p" by auto
      with Cons.prems(2) in_ps x show False by force
    qed
    show ?thesis unfolding x longest_match.simps ih option.case prod.case by (rule if_not_P[OF F])
  qed
qed simp

lemma literal_texts:
  "map fst literals =
     [''severity'', ''facility'', ''host'', ''ident'', ''msg''] @ severity_literals @ facility_literals
     @ [''pid'', ''<='', ''>='', ''!='', ''||'', ''&&'', ''!'', ''('', '')'', ''<'', ''>'', ''='', [CHR 0x27], ''/'']"
  by (simp add: literals_def comp_def)

lemma literals_distinct: "distinct (map fst literals)"
  unfolding literal_texts by code_simp

lemma literals_shape:
  "list_all (\<lambda>q. q \<noteq> [] \<and> CHR '' '' \<notin> set q \<and> \<not> is_blank (hd q) \<and> \<not> is_digit (hd q)
     \<and> (hd q = CHR 0x27 \<longrightarrow> q = [CHR 0x27]) \<and> (hd q = CHR ''/'' \<longrightarrow> q = ''/'')) (map fst literals)"
  unfolding literal_texts by code_simp

lemma literal_shape:
  assumes "q \<in> fst ` set literals"
  shows "q \<noteq> []" "CHR '' '' \<notin> set q" "\<not> is_blank (hd q)" "\<not> is_digit (hd q)"
    "hd q = CHR 0x27 \<Longrightarrow> q = [CHR 0x27]" "hd q = CHR ''/'' \<Longrightarrow> q = ''/''"
  using literals_shape assms by (auto simp: list_all_iff)

lemma longest_match_char:
  assumes "\<forall>q\<in>fst ` set ps. q \<noteq> [] \<and> (hd q = c \<longrightarrow> q = [c])" "distinct (map fst ps)" "([c], t) \<in> set ps"
  shows "longest_match ps (c # r) = Some ([c], t)"
  using assms
proof (induction ps)
  case (Cons x ps)
  obtain q u where x: "x = (q, u)" by fastforce
  have pre: "is_prefix q' (c # r) \<Longrightarrow> q' \<in> fst ` set (x # ps) \<Longrightarrow> q' = [c]" for q'
  proof -
    assume "is_prefix q' (c # r)" and q: "q' \<in> fst ` set (x # ps)"
    moreover have "q' \<noteq> []" using Cons.prems(1) q by blast
    ultimately have "hd q' = c" by (cases q') (auto simp: is_prefix_def)
    then show "q' = [c]" using Cons.prems(1) q by blast
  qed
  have c: "is_prefix [c] (c # r)" by (simp add: is_prefix_def)
  show ?case
  proof (cases "(q, u) = ([c], t)")
    case True
    have "longest_match ps (c # r) = Some (q', u') \<Longrightarrow> length q' \<le> 1" for q' u'
      using longest_match_Some[of ps "c # r" q' u'] pre[of q'] by force
    with True c x show ?thesis by (auto split: option.splits)
  next
    case False
    with Cons.prems x have in_ps: "([c], t) \<in> set ps" by auto
    have ih: "longest_match ps (c # r) = Some ([c], t)"
      using Cons.IH[OF _ _ in_ps] Cons.prems(1,2) by simp
    have "\<not> is_prefix q (c # r)"
    proof
      assume "is_prefix q (c # r)"
      with pre x have "q = [c]" by simp
      with Cons.prems(2) in_ps x show False by force
    qed
    then show ?thesis unfolding x longest_match.simps ih by simp
  qed
qed simp

lemma delimiter_match:
  "longest_match literals (CHR 0x27 # r) = Some ([CHR 0x27], T_QUOTE)"
  "longest_match literals (CHR ''/'' # r) = Some (''/'', T_SLASH)"
proof -
  have d: "([CHR 0x27], T_QUOTE) \<in> set literals" "(''/'', T_SLASH) \<in> set literals"
    by (simp_all add: literals_def)
  show "longest_match literals (CHR 0x27 # r) = Some ([CHR 0x27], T_QUOTE)"
    using literal_shape by (intro longest_match_char literals_distinct d(1)) blast
  show "longest_match literals (CHR ''/'' # r) = Some (''/'', T_SLASH)"
    using literal_shape by (intro longest_match_char literals_distinct d(2)) blast
qed

lemma scan_blank [simp]: "scan_all rx INITIAL (CHR '' '' # r) = scan_all rx INITIAL r"
  by (simp add: scan_all.simps is_blank_def)

lemma scan_Nil [simp]: "scan_all rx sc [] = []"
  by (simp add: scan_all.simps)

lemma scan_literal:
  assumes "(p, t) \<in> set literals" "t \<noteq> T_QUOTE" "t \<noteq> T_SLASH"
  shows "scan_all rx INITIAL (p @ CHR '' '' # r) = t # scan_all rx INITIAL r"
proof -
  have p: "p \<in> fst ` set literals" using assms(1) by force
  obtain c s where c: "p = c # s" using literal_shape(1)[OF p] by (cases p) auto
  have m: "longest_match literals (p @ CHR '' '' # r) = Some (p, t)"
    using literal_shape(2) by (intro longest_match_word literals_distinct assms(1)) blast
  have "scan_all rx INITIAL (c # (s @ CHR '' '' # r)) = t # scan_all rx INITIAL (drop (length p) (c # s @ CHR '' '' # r))"
    using literal_shape(3,4)[OF p] c m assms(2,3) by (subst scan_all.simps) simp
  then show ?thesis by (simp add: c)
qed

lemma scan_quoted:
  assumes "s \<noteq> []" "CHR 0x27 \<notin> set s" "CHR 0x00 \<notin> set s"
  shows "scan_all rx INITIAL (CHR 0x27 # s @ CHR 0x27 # r) =
    T_QUOTE # T_STRING s # T_QUOTE # scan_all rx INITIAL r"
proof -
  obtain c s' where c: "s = c # s'" using assms(1) by (cases s) auto
  have q: "scan_all rx INITIAL (CHR 0x27 # s @ CHR 0x27 # r) = T_QUOTE # scan_all rx X_QUOTED (s @ CHR 0x27 # r)"
    using delimiter_match(1)[of "s @ CHR 0x27 # r"]
    by (subst scan_all.simps) (simp add: is_blank_def is_digit_def)
  have "takeWhile (\<lambda>d. d \<noteq> CHR 0x27) (s @ CHR 0x27 # r) = s"
    using assms(2) by (intro takeWhile_all_append) auto
  moreover have "dropWhile (\<lambda>d. d \<noteq> CHR 0x27) (s' @ CHR 0x27 # r) = CHR 0x27 # r"
    using assms(2) c by (intro dropWhile_all_append) auto
  moreover have "cstr s = s" using assms(3) by (auto simp: cstr_def takeWhile_eq_all_conv)
  ultimately have "scan_all rx X_QUOTED (s @ CHR 0x27 # r) = T_STRING s # scan_all rx X_QUOTED (CHR 0x27 # r)"
    using assms(2) c by (auto simp: scan_all.simps(3)[of rx c] split: if_splits)
  with q show ?thesis by (simp add: scan_all.simps(3))
qed

lemma scan_regex:
  assumes "e \<noteq> []" "CHR ''/'' \<notin> set e" "CHR 0x00 \<notin> set e" "rx_valid rx e"
  shows "scan_all rx INITIAL (CHR ''/'' # e @ CHR ''/'' # r) =
    T_SLASH # T_REGEX e # T_SLASH # scan_all rx INITIAL r"
proof -
  obtain c s' where c: "e = c # s'" using assms(1) by (cases e) auto
  have q: "scan_all rx INITIAL (CHR ''/'' # e @ CHR ''/'' # r) = T_SLASH # scan_all rx X_REGEX (e @ CHR ''/'' # r)"
    using delimiter_match(2)[of "e @ CHR ''/'' # r"]
    by (subst scan_all.simps) (simp add: is_blank_def is_digit_def)
  have "takeWhile (\<lambda>d. d \<noteq> CHR ''/'') (e @ CHR ''/'' # r) = e"
    using assms(2) by (intro takeWhile_all_append) auto
  moreover have "dropWhile (\<lambda>d. d \<noteq> CHR ''/'') (s' @ CHR ''/'' # r) = CHR ''/'' # r"
    using assms(2) c by (intro dropWhile_all_append) auto
  moreover have "cstr e = e" using assms(3) by (auto simp: cstr_def takeWhile_eq_all_conv)
  ultimately have "scan_all rx X_REGEX (e @ CHR ''/'' # r) = T_REGEX e # scan_all rx X_REGEX (CHR ''/'' # r)"
    using assms(2,4) c by (auto simp: scan_all.simps(4)[of rx c] Let_def split: if_splits)
  with q show ?thesis by (simp add: scan_all.simps(4))
qed

lemma length_show_nat: "n < 10 ^ Suc k \<Longrightarrow> length (show_nat n) \<le> Suc k"
proof (induction k arbitrary: n)
  case 0
  then show ?case by (simp add: show_nat.simps[of n])
next
  case (Suc k)
  show ?case
  proof (cases "n < 10")
    case False
    have "n div 10 < 10 ^ Suc k" using Suc.prems by (simp add: div_less_iff_less_mult)
    with False Suc.IH show ?thesis by (simp add: show_nat.simps[of n])
  qed (simp add: show_nat.simps[of n])
qed

lemma scan_number:
  "scan_all rx INITIAL (show_nat (unat (n :: u32)) @ CHR '' '' # r) = T_UINT32 n # scan_all rx INITIAL r"
proof -
  let ?s = "show_nat (unat n)"
  have d: "\<forall>c\<in>set ?s. is_digit c" by (simp add: show_nat_digits)
  obtain c s where c: "?s = c # s" by (cases ?s) auto
  with d have cd: "is_digit c" by simp
  then have cb: "\<not> is_blank c" by (auto simp: is_digit_def is_blank_def)
  have "unat n < 10 ^ Suc 9" using unsigned_less[of n, where ?'a = nat] by simp
  then have l: "length ?s \<le> 10" using length_show_nat[of "unat n" 9] by simp
  have "takeWhile is_digit (?s @ take (10 - length ?s) (CHR '' '' # r)) = ?s"
    using d by (intro takeWhile_all_append) (cases "10 - length ?s"; auto simp: is_digit_def)+
  then have t: "takeWhile is_digit (take 10 (?s @ CHR '' '' # r)) = ?s" using l by simp
  have "scan_all rx INITIAL (c # (s @ CHR '' '' # r)) =
      T_UINT32 (of_nat (digits_val ?s)) # scan_all rx INITIAL (drop (length ?s) (c # (s @ CHR '' '' # r)))"
    using cd cb t unfolding scan_all.simps(2) Let_def c append_Cons by simp
  then show ?thesis by (simp add: c digits_val_show_nat[of "unat n", unfolded c])
qed

lemma scan_lexeme:
  "lexeme_ok rx l \<Longrightarrow> scan_all rx INITIAL (lexeme_text l @ r) = lexeme_toks l @ scan_all rx INITIAL r"
  by (cases l) (auto simp: scan_literal scan_quoted scan_regex scan_number)

lemma scan_lexemes:
  "list_all (lexeme_ok rx) ls \<Longrightarrow>
   scan_all rx INITIAL (concat (map lexeme_text ls)) = concat (map lexeme_toks ls)"
  by (induction ls) (auto simp: scan_lexeme)

section \<open>The parser evaluates what was printed\<close>

lemma severity_literal: "valid_severity s \<Longrightarrow> (SeverityName s, T_SEVVALUE s) \<in> set literals"
proof -
  assume v: "valid_severity s"
  then have "SeverityName s \<in> set severity_literals"
    by (cases rule: valid_severity_cases)
      (simp_all add: SeverityName_def table_name_def g_severityNames_def severity_literals_def)
  then have "(SeverityName s, T_SEVVALUE (SeverityValue (SeverityName s))) \<in> set literals"
    unfolding literals_def by force
  with v show ?thesis by simp
qed

lemma facility_literal: "valid_facility f \<Longrightarrow> (FacilityName f, T_FACVALUE f) \<in> set literals"
proof -
  assume v: "valid_facility f"
  then obtain n where n: "table_name g_facilities f = Some n" using facility_named[of f] by auto
  then have "(f, n) \<in> set g_facilities" by (rule fac_names.name_SomeD)
  then have "FacilityName f \<in> set facility_literals"
    using n by (auto simp: FacilityName_def g_facilities_def facility_literals_def)
  then have "(FacilityName f, T_FACVALUE (FacilityValue (FacilityName f))) \<in> set literals"
    unfolding literals_def by force
  with v show ?thesis by simp
qed

lemma literals_ends:
  "p \<in> set [(''severity'', T_SEVERITY), (''facility'', T_FACILITY), (''host'', T_HOST), (''ident'', T_IDENT),
     (''msg'', T_MSG)] \<Longrightarrow> p \<in> set literals"
  "p \<in> set [(''pid'', T_PID), (''<='', T_LESSOREQ), (''>='', T_GREATEROREQ), (''!='', T_NOTEQ),
     (''||'', T_OR), (''&&'', T_AND), (''!'', T_NOT), (''('', T_LPAREN), ('')'', T_RPAREN),
     (''<'', T_LESS), (''>'', T_GREATER), (''='', T_EQUAL), ([CHR 0x27], T_QUOTE), (''/'', T_SLASH)]
   \<Longrightarrow> p \<in> set literals"
  unfolding literals_def set_append by blast+

lemma word_literals:
  "comparison_tok c \<in> set literals" "text_name_tok n \<in> set literals" "equality_tok pos \<in> set literals"
  "(''severity'', T_SEVERITY) \<in> set literals" "(''facility'', T_FACILITY) \<in> set literals"
  "(''pid'', T_PID) \<in> set literals" "(''!'', T_NOT) \<in> set literals" "(''&&'', T_AND) \<in> set literals"
  "(''||'', T_OR) \<in> set literals" "(''('', T_LPAREN) \<in> set literals" "('')'', T_RPAREN) \<in> set literals"
proof -
  show "comparison_tok c \<in> set literals" by (rule literals_ends(2)) (cases c; simp)
  show "text_name_tok n \<in> set literals" by (rule literals_ends(1)) (cases n; simp)
  show "equality_tok pos \<in> set literals" by (rule literals_ends(2)) (simp add: equality_tok_def)
qed (rule literals_ends(1), simp, rule literals_ends(1), simp, (rule literals_ends(2), simp)+)

lemma word_toks:
  "snd (comparison_tok c) \<notin> {T_QUOTE, T_SLASH}" "snd (text_name_tok n) \<notin> {T_QUOTE, T_SLASH}"
  "snd (equality_tok pos) \<notin> {T_QUOTE, T_SLASH}"
  by (cases c; simp) (cases n; simp add: equality_tok_def)+

lemma lexemes_ok: "fexpr_ok rx e \<Longrightarrow> list_all (lexeme_ok rx) (lexemes n e)"
  by (induction e arbitrary: n)
    (use word_toks in \<open>auto simp: word_literals severity_literal facility_literal word_def parens_def\<close>)

definition toks_of :: "nat \<Rightarrow> fexpr \<Rightarrow> tok list" where
  "toks_of n e = concat (map lexeme_toks (lexemes n e))"

lemma toks_simps [simp]:
  "toks_of n (SeverityIs c s) = [T_SEVERITY, snd (comparison_tok c), T_SEVVALUE s]"
  "toks_of n (FacilityIs c f) = [T_FACILITY, snd (comparison_tok c), T_FACVALUE f]"
  "toks_of n (PidIs c p) = [T_PID, snd (comparison_tok c), T_UINT32 p]"
  "toks_of n (TextIs t pos x) =
     [snd (text_name_tok t), snd (equality_tok pos), T_QUOTE, T_STRING x, T_QUOTE]"
  "toks_of n (TextMatches t pos x) =
     [snd (text_name_tok t), snd (equality_tok pos), T_SLASH, T_REGEX x, T_SLASH]"
  "toks_of n (NotE e) = T_NOT # toks_of 2 e"
  "toks_of n (AndE d e) =
     (let ts = toks_of 1 d @ T_AND # toks_of 2 e in if 1 < n then T_LPAREN # ts @ [T_RPAREN] else ts)"
  "toks_of n (OrE d e) =
     (let ts = toks_of 0 d @ T_OR # toks_of 1 e in if 0 < n then T_LPAREN # ts @ [T_RPAREN] else ts)"
  by (simp_all add: toks_of_def word_def parens_def Let_def)

lemma comparison_tests:
  "severity_test (snd (comparison_tok c)) (severity (msg_header msg)) s = Some (eval_fexpr rx msg (SeverityIs c s))"
  "facility_test (snd (comparison_tok c)) (facility (msg_header msg)) f = Some (eval_fexpr rx msg (FacilityIs c f))"
  "pid_test (snd (comparison_tok c)) (procid (origin (msg_header msg))) n = Some (eval_fexpr rx msg (PidIs c n))"
  by (cases c; simp add: severity_test_def facility_test_def pid_test_def)+

lemma leaf_tests:
  "test_at rx msg (toks_of n (SeverityIs c s)) = Some (eval_fexpr rx msg (SeverityIs c s), [])"
  "test_at rx msg (toks_of n (FacilityIs c f)) = Some (eval_fexpr rx msg (FacilityIs c f), [])"
  "test_at rx msg (toks_of n (PidIs c p)) = Some (eval_fexpr rx msg (PidIs c p), [])"
  "test_at rx msg (toks_of n (TextIs t pos x)) = Some (eval_fexpr rx msg (TextIs t pos x), [])"
  "test_at rx msg (toks_of n (TextMatches t pos x)) = Some (eval_fexpr rx msg (TextMatches t pos x), [])"
proof -
  show "test_at rx msg (toks_of n (SeverityIs c s)) = Some (eval_fexpr rx msg (SeverityIs c s), [])"
    "test_at rx msg (toks_of n (FacilityIs c f)) = Some (eval_fexpr rx msg (FacilityIs c f), [])"
    "test_at rx msg (toks_of n (PidIs c p)) = Some (eval_fexpr rx msg (PidIs c p), [])"
    using comparison_tests by (auto simp: test_at_iff simp del: eval_fexpr.simps)
  show "test_at rx msg (toks_of n (TextIs t pos x)) = Some (eval_fexpr rx msg (TextIs t pos x), [])"
    "test_at rx msg (toks_of n (TextMatches t pos x)) = Some (eval_fexpr rx msg (TextMatches t pos x), [])"
    by (cases t; auto simp: test_at_iff operand_test_iff text_field_def string_test_def equality_tok_def)+
qed

lemma toks_derive:
  "derives_or rx msg (toks_of 0 e) (eval_fexpr rx msg e)
   \<and> derives_and rx msg (toks_of 1 e) (eval_fexpr rx msg e)
   \<and> derives_not rx msg (toks_of 2 e) (eval_fexpr rx msg e)"
proof (induction e)
  case (NotE e)
  then have n: "derives_not rx msg (T_NOT # toks_of 2 e) (\<not> eval_fexpr rx msg e)" by (blast intro: Not)
  then have "derives_and rx msg (T_NOT # toks_of 2 e) (\<not> eval_fexpr rx msg e)" by (rule And1)
  with n show ?case by (auto intro: Or1)
next
  case (AndE d e)
  then have a: "derives_and rx msg (toks_of 1 d @ T_AND # toks_of 2 e) (eval_fexpr rx msg d \<and> eval_fexpr rx msg e)"
    by (blast intro: And)
  then have o: "derives_or rx msg (toks_of 1 d @ T_AND # toks_of 2 e) (eval_fexpr rx msg d \<and> eval_fexpr rx msg e)"
    by (rule Or1)
  from Paren[OF o] a o show ?case by simp
next
  case (OrE d e)
  then have o: "derives_or rx msg (toks_of 0 d @ T_OR # toks_of 1 e) (eval_fexpr rx msg d \<or> eval_fexpr rx msg e)"
    by (blast intro: Or)
  note p = Paren[OF o]
  from And1[OF p] p o show ?case by simp
qed (blast intro: Test leaf_tests And1 Or1)+

lemma scan_fexpr_text: "fexpr_ok rx e \<Longrightarrow> scan_all rx INITIAL (fexpr_text e) = toks_of 0 e"
  by (simp add: fexpr_text_def toks_of_def scan_lexemes lexemes_ok)

section \<open>Properties\<close>

text \<open>
  C9. The parser implements the grammar file: it returns a value on a token sequence exactly
  when the grammar, with the declared precedences, derives that sequence, and the value is
  the one the actions compute along the derivation. In particular the grammar as resolved is
  unambiguous in its value.
\<close>

theorem filter_parser_implements_grammar:
  "filter_parse rx msg ts = Some b \<longleftrightarrow> derives_or rx msg ts b"
  using filter_parse_complete filter_parse_sound by blast

lemma driver_of_fexpr:
  assumes "fexpr_ok rx e"
  defines "d \<equiv> \<lparr>drv_expr = fexpr_text e, drv_tokens = scan_all rx INITIAL (fexpr_text e), drv_tokenized = True\<rparr>"
  shows "MessageFilterDriver_new rx msg0 (fexpr_text e) = Inr d"
    and "driver_parse rx msg d = (Some (eval_fexpr rx msg e), d)"
proof -
  have p: "filter_parse rx msg (scan_all rx INITIAL (fexpr_text e)) = Some (eval_fexpr rx msg e)" for msg
    using filter_parse_complete toks_derive[of rx msg e] by (simp add: scan_fexpr_text[OF assms(1)])
  show "MessageFilterDriver_new rx msg0 (fexpr_text e) = Inr d"
    using p by (simp add: MessageFilterDriver_new_iff d_def)
  show "driver_parse rx msg d = (Some (eval_fexpr rx msg e), d)"
    using p by (simp add: driver_parse_def d_def)
qed

text \<open>
  C22. Every expression over the filter language, printed with parentheses only where the
  precedences need them, is accepted by the driver's constructor, and every later \<open>parse\<close>
  returns the truth value the expression has on the message, leaving the driver as it is.
\<close>

theorem filter_expression_meaning:
  assumes "fexpr_ok rx e"
  shows "\<exists>drv. MessageFilterDriver_new rx msg0 (fexpr_text e) = Inr drv
    \<and> (\<forall>msg. driver_parse rx msg drv = (Some (eval_fexpr rx msg e), drv))"
  using driver_of_fexpr[OF assms] by blast

definition sample_rx :: rx_ops where
  "sample_rx = \<lparr>rx_valid = (\<lambda>e. True), rx_match = (\<lambda>e s. e = s)\<rparr>"

lemma filter_expression_meaning_witness:
  "\<exists>drv. MessageFilterDriver_new sample_rx sample_message
      (fexpr_text (AndE (OrE (SeverityIs Ge sev_warning) (TextIs Ident True ''sshd'')) (NotE (PidIs Eq 17)))) = Inr drv
    \<and> fst (driver_parse sample_rx sample_message drv) = Some False"
proof -
  let ?e = "AndE (OrE (SeverityIs Ge sev_warning) (TextIs Ident True ''sshd'')) (NotE (PidIs Eq 17))"
  have "fexpr_ok sample_rx ?e" by (simp add: valid_severity_def)
  from filter_expression_meaning[OF this, of sample_message] obtain drv where
    "MessageFilterDriver_new sample_rx sample_message (fexpr_text ?e) = Inr drv"
    "driver_parse sample_rx sample_message drv = (Some (eval_fexpr sample_rx sample_message ?e), drv)" by blast
  moreover have "\<not> eval_fexpr sample_rx sample_message ?e" by (simp add: sample_message_def)
  ultimately show ?thesis by auto
qed

text \<open>
  C23. A filter that was constructed never fails later: whatever default message the
  constructor validated the expression on, \<open>parse\<close> returns true for every message, and the
  cached tokens are what the first scan produced.
\<close>

theorem constructed_filter_never_fails:
  assumes "MessageFilterDriver_new rx msg0 expr = Inr drv"
  shows "\<exists>b. driver_parse rx msg drv = (Some b, drv)"
  using assms filter_parse_other_message[of rx msg0 "scan_all rx INITIAL expr" _ msg]
  by (auto simp: MessageFilterDriver_new_iff driver_parse_def)

lemma constructed_filter_never_fails_witness:
  "\<exists>drv b. MessageFilterDriver_new sample_rx sample_message (fexpr_text (NotE (TextMatches Msg False ''x.*''))) = Inr drv
    \<and> driver_parse sample_rx sample_message drv = (Some b, drv)"
proof -
  have "fexpr_ok sample_rx (NotE (TextMatches Msg False ''x.*''))" by (simp add: sample_rx_def)
  from scan_fexpr_text[OF this] have "filter_parse sample_rx sample_message (scan_all sample_rx INITIAL
      (fexpr_text (NotE (TextMatches Msg False ''x.*'')))) = Some (eval_fexpr sample_rx sample_message
      (NotE (TextMatches Msg False ''x.*'')))"
    using filter_parse_complete toks_derive by metis
  then obtain drv where "MessageFilterDriver_new sample_rx sample_message
      (fexpr_text (NotE (TextMatches Msg False ''x.*''))) = Inr drv"
    by (auto simp: MessageFilterDriver_new_iff)
  from this constructed_filter_never_fails[OF this, of sample_message] show ?thesis by blast
qed

end
