(* ===== verification/LogFiles.thy ===== *)
theory LogFiles
  imports Config MessageFilter "HOL-Library.List_Lexorder"
begin

text \<open>
  \<open>DwmMclogLogFiles.{hh,cc}\<close>: the configured log files, which messages go to which of them,
  and the cache of their paths.
  Directories are worlds of \<open>LogFile\<close>, found by their path. \<open>boost::regex_replace\<close> with the
  expression \<open>(%H)|(%I)|(%F)\<close> is a parameter. The lemmas: the path cache is transparent for
  messages whose facility and severity are enumerators, a message goes once to every path
  whose filter accepts it, and every open file is the one its path says.
\<close>

section \<open>The key of the path cache\<close>

datatype LogPathCacheKey = LogPathCacheKey (key_fs: u32) (key_host: string) (key_app: string) (key_pattern: string)

definition LogPathCacheKey_new :: "Message \<Rightarrow> string \<Rightarrow> LogPathCacheKey" where
  "LogPathCacheKey_new msg pathPattern =
     LogPathCacheKey (or (ucast (facility (msg_header msg))) (ucast (severity (msg_header msg))))
       (hostname (origin (msg_header msg))) (appname (origin (msg_header msg))) pathPattern"

text \<open>\<open>operator <\<close>: the parts one after the other.\<close>

definition LogPathCacheKey_lt :: "LogPathCacheKey \<Rightarrow> LogPathCacheKey \<Rightarrow> bool" where
  "LogPathCacheKey_lt a b \<longleftrightarrow>
     (if key_fs a < key_fs b then True
      else if key_fs a = key_fs b then
        if key_host a < key_host b then True
        else if key_host a = key_host b then
          if key_app a < key_app b then True
          else if key_app a = key_app b then key_pattern a < key_pattern b
          else False
        else False
      else False)"

instantiation LogPathCacheKey :: linorder
begin

definition less_LogPathCacheKey :: "LogPathCacheKey \<Rightarrow> LogPathCacheKey \<Rightarrow> bool" where
  "less_LogPathCacheKey = LogPathCacheKey_lt"

definition less_eq_LogPathCacheKey :: "LogPathCacheKey \<Rightarrow> LogPathCacheKey \<Rightarrow> bool" where
  "less_eq_LogPathCacheKey a b \<longleftrightarrow> a < b \<or> a = b"

instance
proof
  fix x y z :: LogPathCacheKey
  show "(x < y) = (x \<le> y \<and> \<not> y \<le> x)"
    by (auto simp: less_LogPathCacheKey_def LogPathCacheKey_lt_def less_eq_LogPathCacheKey_def split: if_splits)
  show "x \<le> x" by (simp add: less_eq_LogPathCacheKey_def)
  show "x \<le> y \<Longrightarrow> y \<le> z \<Longrightarrow> x \<le> z"
    by (auto simp: less_LogPathCacheKey_def LogPathCacheKey_lt_def less_eq_LogPathCacheKey_def split: if_splits)
  show "x \<le> y \<Longrightarrow> y \<le> x \<Longrightarrow> x = y"
    by (auto simp: less_LogPathCacheKey_def LogPathCacheKey_lt_def less_eq_LogPathCacheKey_def split: if_splits)
  show "x \<le> y \<or> y \<le> x"
    by (cases x; cases y) (auto simp: less_LogPathCacheKey_def LogPathCacheKey_lt_def less_eq_LogPathCacheKey_def)
qed

end

text \<open>So keys that \<open>std::map\<close> takes for equivalent are equal, and the map is a function of the key.\<close>

section \<open>The state\<close>

type_synonym disk = "string \<Rightarrow> world"

record LogFiles =
  ls_filesConfig :: FilesConfig
  ls_filtered :: "(MessageFilterDriver \<times> LogFileConfig) list"
  ls_logFiles :: "string \<Rightarrow> LogFile option"
  ls_cache :: "LogPathCacheKey \<Rightarrow> string option"

definition LogFiles_new :: LogFiles where
  "LogFiles_new = \<lparr>ls_filesConfig = FilesConfig_Init, ls_filtered = [], ls_logFiles = Map.empty, ls_cache = Map.empty\<rparr>"

text \<open>The lookups of \<open>std::map\<close>: a file is opened and written through its own directory.\<close>

definition parent_path :: "string \<Rightarrow> string" where
  "parent_path p = rev (drop 1 (dropWhile (\<lambda>c. c \<noteq> CHR ''/'') (rev p)))"

definition on_dir :: "string \<Rightarrow> (world \<Rightarrow> 'a \<times> LogFile \<times> world) \<Rightarrow> disk \<Rightarrow> 'a \<times> LogFile \<times> disk" where
  "on_dir p act dk = (let (r, lf, w) = act (dk (parent_path p)) in (r, lf, dk(parent_path p := w)))"

section \<open>Operations\<close>

text \<open>An entry whose filter is no expression is left out.\<close>

fun filtered_configs :: "rx_ops \<Rightarrow> Message \<Rightarrow> LogFileConfig list \<Rightarrow> (MessageFilterDriver \<times> LogFileConfig) list" where
  "filtered_configs rx msg0 [] = []"
| "filtered_configs rx msg0 (logcfg # cfgs) =
     (case MessageFilterDriver_new rx msg0 (lc_filter logcfg) of
        Inl _ \<Rightarrow> filtered_configs rx msg0 cfgs
      | Inr drv \<Rightarrow> (drv, logcfg) # filtered_configs rx msg0 cfgs)"

definition Configure :: "rx_ops \<Rightarrow> Message \<Rightarrow> FilesConfig \<Rightarrow> LogFiles \<Rightarrow> LogFiles" where
  "Configure rx msg0 filesConfig ls =
     \<lparr>ls_filesConfig = filesConfig, ls_filtered = filtered_configs rx msg0 (fc_logs filesConfig),
      ls_logFiles = Map.empty, ls_cache = Map.empty\<rparr>"

definition LogFiles_Close :: "LogFiles \<Rightarrow> LogFiles" where
  "LogFiles_Close ls = ls\<lparr>ls_logFiles := Map.empty\<rparr>"

text \<open>The destructor, and the move constructor, which leaves the cache behind.\<close>

definition LogFiles_delete :: "LogFiles \<Rightarrow> LogFiles" where
  "LogFiles_delete ls = ls\<lparr>ls_logFiles := Map.empty, ls_filtered := []\<rparr>"

definition LogFiles_move :: "LogFiles \<Rightarrow> LogFiles" where
  "LogFiles_move ls =
     \<lparr>ls_filesConfig = ls_filesConfig ls, ls_filtered = ls_filtered ls, ls_logFiles = ls_logFiles ls, ls_cache = Map.empty\<rparr>"

definition replacement :: "string \<Rightarrow> string \<Rightarrow> string \<Rightarrow> string" where
  "replacement h a f = ''(?1'' @ h @ '')(?2'' @ a @ '')(?3'' @ f @ '')''"

definition compute_path :: "(string \<Rightarrow> string \<Rightarrow> string) \<Rightarrow> string \<Rightarrow> Message \<Rightarrow> string \<Rightarrow> string" where
  "compute_path regex_replace dir msg pathPattern =
     (let org = origin (msg_header msg)
      in if pathPattern \<noteq> [] then
           if CHR ''%'' \<notin> set pathPattern then
             if hd pathPattern = CHR ''/'' then pathPattern else dir @ ''/'' @ pathPattern
           else
             let rc = regex_replace pathPattern
                        (replacement (hostname org) (appname org) (FacilityName (facility (msg_header msg))))
             in if rc = [] \<or> hd rc \<noteq> CHR ''/'' then dir @ ''/'' @ rc else rc
         else ''logs/'' @ hostname org @ ''/'' @ appname org)"

definition LogPathFromCache :: "Message \<Rightarrow> LogFileConfig \<Rightarrow> LogFiles \<Rightarrow> string" where
  "LogPathFromCache msg cfg ls =
     (case ls_cache ls (LogPathCacheKey_new msg (lc_pathPattern cfg)) of Some p \<Rightarrow> p | None \<Rightarrow> [])"

definition LogPath ::
    "(string \<Rightarrow> string \<Rightarrow> string) \<Rightarrow> Message \<Rightarrow> LogFileConfig \<Rightarrow> LogFiles \<Rightarrow> string \<times> LogFiles" where
  "LogPath regex_replace msg cfg ls =
     (let rc = LogPathFromCache msg cfg ls
      in if rc = [] then
           let rc' = compute_path regex_replace (fc_logDirectory (ls_filesConfig ls)) msg (lc_pathPattern cfg)
           in (rc', ls\<lparr>ls_cache := (ls_cache ls)(LogPathCacheKey_new msg (lc_pathPattern cfg) \<mapsto> rc')\<rparr>)
         else (rc, ls))"

text \<open>\<open>LogPathConfigs\<close>: the loop over the filtered configurations, the paths found so far in front.\<close>

fun path_configs ::
    "rx_ops \<Rightarrow> (string \<Rightarrow> string \<Rightarrow> string) \<Rightarrow> Message \<Rightarrow> (MessageFilterDriver \<times> LogFileConfig) list
     \<Rightarrow> (string \<times> LogFileConfig) list \<Rightarrow> LogFiles
     \<Rightarrow> (MessageFilterDriver \<times> LogFileConfig) list \<times> (string \<times> LogFileConfig) list \<times> LogFiles" where
  "path_configs rx rr msg [] logPaths ls = ([], logPaths, ls)"
| "path_configs rx rr msg ((drv, cfg) # fs) logPaths ls =
     (let (r, drv') = driver_parse rx msg drv;
          (logPaths', ls') =
            (if r = Some True then
               let (logPath, ls1) = LogPath rr msg cfg ls
               in (if logPath \<in> set (map fst logPaths) then logPaths else logPaths @ [(logPath, cfg)], ls1)
             else (logPaths, ls));
          (fs', res) = path_configs rx rr msg fs logPaths' ls'
      in ((drv', cfg) # fs', res))"

definition LogPathConfigs ::
    "rx_ops \<Rightarrow> (string \<Rightarrow> string \<Rightarrow> string) \<Rightarrow> Message \<Rightarrow> LogFiles \<Rightarrow> (string \<times> LogFileConfig) list \<times> LogFiles" where
  "LogPathConfigs rx rr msg ls =
     (let (fs', logPaths, ls') = path_configs rx rr msg (ls_filtered ls) [] ls
      in (logPaths, ls'\<lparr>ls_filtered := fs'\<rparr>))"

text \<open>The other \<open>LogPathConfigs\<close>, which collects in a map and which nothing calls.\<close>

fun path_config_map ::
    "rx_ops \<Rightarrow> (string \<Rightarrow> string \<Rightarrow> string) \<Rightarrow> Message \<Rightarrow> (MessageFilterDriver \<times> LogFileConfig) list
     \<Rightarrow> (string \<Rightarrow> LogFileConfig option) \<Rightarrow> LogFiles
     \<Rightarrow> (MessageFilterDriver \<times> LogFileConfig) list \<times> (string \<Rightarrow> LogFileConfig option) \<times> LogFiles" where
  "path_config_map rx rr msg [] logPaths ls = ([], logPaths, ls)"
| "path_config_map rx rr msg ((drv, cfg) # fs) logPaths ls =
     (let (r, drv') = driver_parse rx msg drv;
          (logPaths', ls') =
            (if r = Some True then
               let (logPath, ls1) = LogPath rr msg cfg ls
               in (if logPaths logPath = None then logPaths(logPath \<mapsto> cfg) else logPaths, ls1)
             else (logPaths, ls));
          (fs', res) = path_config_map rx rr msg fs logPaths' ls'
      in ((drv', cfg) # fs', res))"

definition LogPathConfigs_map ::
    "rx_ops \<Rightarrow> (string \<Rightarrow> string \<Rightarrow> string) \<Rightarrow> Message \<Rightarrow> LogFiles
     \<Rightarrow> bool \<times> (string \<Rightarrow> LogFileConfig option) \<times> LogFiles" where
  "LogPathConfigs_map rx rr msg ls =
     (let (fs', logPaths, ls') = path_config_map rx rr msg (ls_filtered ls) Map.empty ls
      in (logPaths \<noteq> Map.empty, logPaths, ls'\<lparr>ls_filtered := fs'\<rparr>))"

lemma path_config_map_eq:
  "path_config_map rx rr msg fs (map_of acc) ls =
     (case path_configs rx rr msg fs acc ls of (fs', acc', ls') \<Rightarrow> (fs', map_of acc', ls'))"
proof (induction fs arbitrary: acc ls)
  case (Cons x fs)
  have add: "p \<notin> set (map fst acc) \<Longrightarrow> map_of (acc @ [(p, cfg)]) = (map_of acc)(p \<mapsto> cfg)" for p cfg
    by (auto simp: map_add_def fun_eq_iff map_of_eq_None_iff[symmetric] image_set[symmetric] simp del: image_set split: option.splits)
  show ?case by (cases x)
      (auto simp: Let_def split_beta Cons.IH map_of_eq_None_iff add[symmetric] simp del: map_of_append)
qed simp

text \<open>Both forms find the same files with the same settings.\<close>

lemma LogPathConfigs_map_eq:
  "LogPathConfigs_map rx rr msg ls =
     (fst (LogPathConfigs rx rr msg ls) \<noteq> [], map_of (fst (LogPathConfigs rx rr msg ls)), snd (LogPathConfigs rx rr msg ls))"
proof -
  obtain fs' acc' ls' where e: "path_configs rx rr msg (ls_filtered ls) [] ls = (fs', acc', ls')" by (metis prod_cases3)
  have "map_of acc' = Map.empty \<longleftrightarrow> acc' = []" by (cases acc') auto
  then show ?thesis using path_config_map_eq[of rx rr msg "ls_filtered ls" "[]" ls]
    by (simp add: LogPathConfigs_map_def LogPathConfigs_def e)
qed

text \<open>The account databases and the ids of the process.\<close>

record accounts =
  ac_ids :: "nat \<times> nat"
  ac_pwnam :: "string \<Rightarrow> nat option"
  ac_grnam :: "string \<Rightarrow> nat option"

definition configured_file :: "lf_env \<Rightarrow> accounts \<Rightarrow> string \<Rightarrow> LogFileConfig \<Rightarrow> LogFile" where
  "configured_file e ac p cfg =
     LogFile_Compression (lc_compress cfg)
       (snd (LogFile_Group (ac_grnam ac) (lc_group cfg)
         (snd (LogFile_User (ac_pwnam ac) (lc_user cfg)
           (LogFile_new e (ac_ids ac) p (lc_permissions cfg) (lc_period cfg) (lc_size cfg) (lc_keep cfg) (lc_format cfg))))))"

text \<open>The loop of \<open>Process\<close>; an exception ends it with the state reached.\<close>

fun process_paths ::
    "lf_env \<Rightarrow> accounts \<Rightarrow> Message \<Rightarrow> (string \<times> LogFileConfig) list \<Rightarrow> bool \<Rightarrow> LogFiles \<times> disk
     \<Rightarrow> bool result \<times> LogFiles \<times> disk" where
  "process_paths e ac msg [] rc (ls, dk) = (Inr rc, ls, dk)"
| "process_paths e ac msg ((p, cfg) # ps) rc (ls, dk) =
     (let (opened, lf0, dk0) =
            (case ls_logFiles ls p of
               Some lf \<Rightarrow> (Inr True, lf, dk)
             | None \<Rightarrow> on_dir p (LogFile_Open e (LogFile_move (configured_file e ac p cfg))) dk);
          ls0 = ls\<lparr>ls_logFiles := (ls_logFiles ls)(p \<mapsto> lf0)\<rparr>
      in case opened of
           Inl ex \<Rightarrow> (Inl ex, ls0, dk0)
         | Inr _ \<Rightarrow>
             (let (r, lf1, dk1) = on_dir p (LogFile_Process e msg lf0) dk0;
                  ls1 = ls0\<lparr>ls_logFiles := (ls_logFiles ls0)(p \<mapsto> lf1)\<rparr>
              in case r of
                   Inl ex \<Rightarrow> (Inl ex, ls1, dk1)
                 | Inr ok \<Rightarrow> process_paths e ac msg ps (rc \<and> ok) (ls1, dk1)))"

definition LogFiles_Process ::
    "rx_ops \<Rightarrow> (string \<Rightarrow> string \<Rightarrow> string) \<Rightarrow> lf_env \<Rightarrow> accounts \<Rightarrow> Message \<Rightarrow> LogFiles \<times> disk
     \<Rightarrow> bool result \<times> LogFiles \<times> disk" where
  "LogFiles_Process rx rr e ac msg s =
     (case s of (ls, dk) \<Rightarrow>
        let (logPaths, ls') = LogPathConfigs rx rr msg ls
        in process_paths e ac msg logPaths True (ls', dk))"

section \<open>A table of computed values\<close>

text \<open>
  A cache whose key determines the value for the inputs it is used on: every entry is the value
  of some such input, and so a hit returns what would be computed.
\<close>

definition memo_inv :: "('a \<Rightarrow> 'k) \<Rightarrow> ('a \<Rightarrow> 'v) \<Rightarrow> ('a \<Rightarrow> bool) \<Rightarrow> ('k \<Rightarrow> 'v option) \<Rightarrow> bool" where
  "memo_inv key compute ok m \<longleftrightarrow> (\<forall>k v. m k = Some v \<longrightarrow> (\<exists>x. ok x \<and> key x = k \<and> compute x = v))"

locale memo_table =
  fixes key :: "'a \<Rightarrow> 'k" and compute :: "'a \<Rightarrow> 'v" and ok :: "'a \<Rightarrow> bool"
  assumes key_determines: "ok x \<Longrightarrow> ok y \<Longrightarrow> key x = key y \<Longrightarrow> compute x = compute y"
begin

lemma memo_empty: "memo_inv key compute ok Map.empty"
  by (simp add: memo_inv_def)

lemma memo_insert: "memo_inv key compute ok m \<Longrightarrow> ok x \<Longrightarrow> memo_inv key compute ok (m(key x \<mapsto> compute x))"
  by (auto simp: memo_inv_def)

lemma memo_hit: "memo_inv key compute ok m \<Longrightarrow> ok x \<Longrightarrow> m (key x) = Some v \<Longrightarrow> v = compute x"
  unfolding memo_inv_def by (metis key_determines)

end

definition valid_header :: "Message \<Rightarrow> bool" where
  "valid_header msg \<longleftrightarrow> valid_facility (facility (msg_header msg)) \<and> valid_severity (severity (msg_header msg))"

abbreviation path_key :: "Message \<times> string \<Rightarrow> LogPathCacheKey" where
  "path_key \<equiv> \<lambda>(msg, pat). LogPathCacheKey_new msg pat"

abbreviation path_value :: "(string \<Rightarrow> string \<Rightarrow> string) \<Rightarrow> string \<Rightarrow> Message \<times> string \<Rightarrow> string" where
  "path_value rr dir \<equiv> \<lambda>(msg, pat). compute_path rr dir msg pat"

abbreviation path_ok :: "Message \<times> string \<Rightarrow> bool" where
  "path_ok \<equiv> \<lambda>(msg, pat). valid_header msg"

lemma facility_of_key:
  assumes "valid_facility f" "valid_severity s"
  shows "and (or f s) 0xF8 = f"
proof -
  have "and f 0xF8 = f" using assms(1) by (auto simp: valid_facility_def g_facilities_def)
  moreover have "and s 0xF8 = 0" by (rule valid_severity_cases[OF assms(2)]) simp_all
  ultimately show ?thesis by (simp add: bit.conj_disj_distrib2)
qed

lemma key_bits: "or (ucast f) (ucast s) = (ucast (or f s :: u8) :: u32)"
  by (simp add: unsigned_or_eq)

lemma ucast_u8_inject: "(ucast (a :: u8) :: u32) = ucast b \<longleftrightarrow> a = b"
proof
  assume "(ucast a :: u32) = ucast b"
  then have "unat (ucast a :: u32) = unat (ucast b :: u32)" by simp
  then have "take_bit 32 (unat a) = take_bit 32 (unat b)" by (simp add: unsigned_ucast_eq)
  moreover have "unat a < 2 ^ 32" "unat b < 2 ^ 32"
    using unsigned_less[of a, where ?'a = nat] unsigned_less[of b, where ?'a = nat] by simp_all
  ultimately have "unat a = unat b" by (simp add: take_bit_nat_eq_self)
  then show "a = b" by (rule word_unat_eq_iff[THEN iffD2])
qed simp

interpretation path_memo: memo_table path_key "path_value rr dir" path_ok for rr dir
proof
  fix x y assume a: "path_ok x" "path_ok y" "path_key x = path_key y"
  obtain m p n q where x: "x = (m, p)" "y = (n, q)" by fastforce
  from a x have v: "valid_header m" "valid_header n"
    and k: "or (facility (msg_header m)) (severity (msg_header m)) =
      or (facility (msg_header n)) (severity (msg_header n))"
    and o: "hostname (origin (msg_header m)) = hostname (origin (msg_header n))"
      "appname (origin (msg_header m)) = appname (origin (msg_header n))" "p = q"
    by (auto simp: LogPathCacheKey_new_def key_bits ucast_u8_inject)
  from v k have "facility (msg_header m) = facility (msg_header n)"
    using facility_of_key by (metis valid_header_def)
  with o x show "path_value rr dir x = path_value rr dir y" by (simp add: compute_path_def Let_def)
qed

section \<open>Which files a message goes to\<close>

fun first_by_key :: "('k \<times> 'v) list \<Rightarrow> ('k \<times> 'v) list" where
  "first_by_key [] = []"
| "first_by_key ((k, v) # xs) = (k, v) # filter (\<lambda>e. fst e \<noteq> k) (first_by_key xs)"

definition accepts :: "rx_ops \<Rightarrow> Message \<Rightarrow> MessageFilterDriver \<Rightarrow> bool" where
  "accepts rx msg drv \<longleftrightarrow> fst (driver_parse rx msg drv) = Some True"

definition accepted_paths ::
    "rx_ops \<Rightarrow> (string \<Rightarrow> string \<Rightarrow> string) \<Rightarrow> string \<Rightarrow> Message \<Rightarrow> (MessageFilterDriver \<times> LogFileConfig) list
     \<Rightarrow> (string \<times> LogFileConfig) list" where
  "accepted_paths rx rr dir msg fs =
     map (\<lambda>(drv, cfg). (compute_path rr dir msg (lc_pathPattern cfg), cfg)) (filter (\<lambda>(drv, cfg). accepts rx msg drv) fs)"

definition cache_ok :: "(string \<Rightarrow> string \<Rightarrow> string) \<Rightarrow> LogFiles \<Rightarrow> bool" where
  "cache_ok rr ls \<longleftrightarrow> memo_inv path_key (path_value rr (fc_logDirectory (ls_filesConfig ls))) path_ok (ls_cache ls)"

lemma LogFiles_move_cache_ok: "cache_ok rr (LogFiles_move ls)"
  by (simp add: cache_ok_def LogFiles_move_def memo_inv_def)

lemma LogPath_cached:
  assumes "cache_ok rr ls" "valid_header msg"
  shows "\<exists>c. LogPath rr msg cfg ls =
      (compute_path rr (fc_logDirectory (ls_filesConfig ls)) msg (lc_pathPattern cfg), ls\<lparr>ls_cache := c\<rparr>)
    \<and> cache_ok rr (ls\<lparr>ls_cache := c\<rparr>)"
proof -
  let ?dir = "fc_logDirectory (ls_filesConfig ls)" and ?k = "LogPathCacheKey_new msg (lc_pathPattern cfg)"
  let ?v = "compute_path rr ?dir msg (lc_pathPattern cfg)"
  have m: "memo_inv path_key (path_value rr ?dir) path_ok (ls_cache ls)" using assms(1) by (simp add: cache_ok_def)
  have ok: "path_ok (msg, lc_pathPattern cfg)" using assms(2) by simp
  have hit: "ls_cache ls ?k = Some v \<Longrightarrow> v = ?v" for v using path_memo.memo_hit[OF m ok] by simp
  show ?thesis
  proof (cases "LogPathFromCache msg cfg ls = []")
    case True
    then show ?thesis using path_memo.memo_insert[OF m ok]
      by (intro exI[of _ "(ls_cache ls)(?k \<mapsto> ?v)"]) (simp add: LogPath_def cache_ok_def Let_def)
  next
    case False
    then show ?thesis using assms(1) hit
      by (intro exI[of _ "ls_cache ls"]) (auto simp: LogPath_def LogPathFromCache_def Let_def split: option.splits)
  qed
qed

definition scanned :: "rx_ops \<Rightarrow> (MessageFilterDriver \<times> LogFileConfig) list \<Rightarrow> bool" where
  "scanned rx fs \<longleftrightarrow> (\<forall>(drv, cfg)\<in>set fs. drv_tokenized drv)"

lemma scanned_parse: "drv_tokenized drv \<Longrightarrow> snd (driver_parse rx msg drv) = drv"
  by (simp add: driver_parse_def Let_def)

lemma scanned_configs: "scanned rx (filtered_configs rx msg0 cfgs)"
  by (induction cfgs)
    (auto simp: scanned_def MessageFilterDriver_new_iff split: sum.splits)

lemma first_by_key_keys: "set (map fst (first_by_key xs)) = set (map fst xs)"
  by (induction xs rule: first_by_key.induct) auto

lemma first_by_key_distinct: "distinct (map fst (first_by_key xs))"
  by (induction xs rule: first_by_key.induct) (auto simp: distinct_filter_key)

lemma path_configs_spec:
  assumes "cache_ok rr ls" "valid_header msg" "scanned rx fs" "dir = fc_logDirectory (ls_filesConfig ls)"
  shows "\<exists>c. path_configs rx rr msg fs acc ls =
      (fs, acc @ filter (\<lambda>e. fst e \<notin> set (map fst acc)) (first_by_key (accepted_paths rx rr dir msg fs)),
       ls\<lparr>ls_cache := c\<rparr>) \<and> cache_ok rr (ls\<lparr>ls_cache := c\<rparr>)"
  using assms
proof (induction fs arbitrary: acc ls)
  case Nil
  then show ?case by (intro exI[of _ "ls_cache ls"]) (simp add: accepted_paths_def)
next
  case (Cons x fs)
  obtain drv cfg where x: "x = (drv, cfg)" by fastforce
  have sc: "scanned rx fs" "snd (driver_parse rx msg drv) = drv"
    using Cons.prems(3) x scanned_parse by (auto simp: scanned_def)
  obtain r where r: "driver_parse rx msg drv = (r, drv)" using sc(2) by (metis prod.collapse)
  show ?case
  proof (cases "r = Some True")
    case True
    let ?p = "compute_path rr dir msg (lc_pathPattern cfg)"
    obtain c where c: "LogPath rr msg cfg ls = (?p, ls\<lparr>ls_cache := c\<rparr>)" "cache_ok rr (ls\<lparr>ls_cache := c\<rparr>)"
      using LogPath_cached[OF Cons.prems(1,2), of cfg] Cons.prems(4) by blast
    let ?acc = "if ?p \<in> set (map fst acc) then acc else acc @ [(?p, cfg)]"
    from Cons.IH[OF c(2) Cons.prems(2) sc(1), of ?acc] Cons.prems(4) obtain c' where
      ih: "path_configs rx rr msg fs ?acc (ls\<lparr>ls_cache := c\<rparr>) =
        (fs, ?acc @ filter (\<lambda>e. fst e \<notin> set (map fst ?acc)) (first_by_key (accepted_paths rx rr dir msg fs)), ls\<lparr>ls_cache := c'\<rparr>)"
      "cache_ok rr (ls\<lparr>ls_cache := c'\<rparr>)" by auto
    have "acc @ filter (\<lambda>e. fst e \<notin> set (map fst acc)) (first_by_key (accepted_paths rx rr dir msg (x # fs))) =
        ?acc @ filter (\<lambda>e. fst e \<notin> set (map fst ?acc)) (first_by_key (accepted_paths rx rr dir msg fs))"
      using True r x by (auto simp: accepted_paths_def accepts_def image_iff intro!: filter_cong)
    with ih True r c(1) x show ?thesis by (intro exI[of _ c']) simp
  next
    case False
    from Cons.IH[OF Cons.prems(1,2) sc(1) Cons.prems(4), of acc] False r x show ?thesis
      by (auto simp: accepted_paths_def accepts_def)
  qed
qed

lemma LogPathConfigs_spec:
  assumes "cache_ok rr ls" "valid_header msg" "scanned rx (ls_filtered ls)"
  shows "\<exists>c. LogPathConfigs rx rr msg ls =
      (first_by_key (accepted_paths rx rr (fc_logDirectory (ls_filesConfig ls)) msg (ls_filtered ls)), ls\<lparr>ls_cache := c\<rparr>)
    \<and> cache_ok rr (ls\<lparr>ls_cache := c\<rparr>)"
  using path_configs_spec[OF assms(1,2,3) refl, of "[]"] by (auto simp: LogPathConfigs_def)

section \<open>The state over a run\<close>

lemma path_unchanged [simp]:
  "lf_path (LogFile_Compression c lf) = lf_path lf" "lf_path (snd (LogFile_Group g n lf)) = lf_path lf"
  "lf_path (snd (LogFile_User g n lf)) = lf_path lf" "lf_path (LogFile_new e ids p perm per sz k fm) = p"
  by (simp_all add: LogFile_Compression_def LogFile_Group_def LogFile_User_def LogFile_new_def Let_def split: option.splits)

lemma Roll_path: "Roll e lf w = (ex, lf', w') \<Longrightarrow> lf_path lf' = lf_path lf"
  by (auto simp: Roll_def split: prod.splits option.splits)

lemma open_append_path: "open_append e lf w = (b, lf', w') \<Longrightarrow> lf_path lf' = lf_path lf"
  by (auto simp: open_append_def Let_def split: parent.splits if_splits)

lemma OpenNoLock_path: "OpenNoLock e lf w = (r, lf', w') \<Longrightarrow> lf_path lf' = lf_path lf"
  by (auto simp: OpenNoLock_def Let_def split: if_splits prod.splits option.splits sum.splits bool.splits
      dest!: Roll_path open_append_path)

lemma append_entry_path: "append_entry e msg lf w = (b, lf', w') \<Longrightarrow> lf_path lf' = lf_path lf"
  by (auto simp: append_entry_def Let_def split: if_splits)

lemma LogFile_Process_path: "LogFile_Process e msg lf w = (r, lf', w') \<Longrightarrow> lf_path lf' = lf_path lf"
  by (auto simp: LogFile_Process_def split: if_splits prod.splits option.splits sum.splits
      dest!: Roll_path OpenNoLock_path append_entry_path)

definition files_named :: "LogFiles \<Rightarrow> bool" where
  "files_named ls \<longleftrightarrow> (\<forall>p lf. ls_logFiles ls p = Some lf \<longrightarrow> lf_path lf = p)"

lemma on_dir_path:
  "on_dir p act dk = (r, lf, dk') \<Longrightarrow> \<exists>w w'. act w = (r, lf, w')"
  by (auto simp: on_dir_def split: prod.splits)

lemma process_paths_frame:
  assumes "process_paths e ac msg ps rc (ls, dk) = (r, ls', dk')" "files_named ls"
  shows "files_named ls' \<and> (\<exists>m. ls' = ls\<lparr>ls_logFiles := m\<rparr>)"
  using assms
proof (induction ps arbitrary: rc ls dk)
  case Nil
  then show ?case by (auto intro: exI[of _ "ls_logFiles ls"])
next
  case (Cons x ps)
  obtain p cfg where x: "x = (p, cfg)" by fastforce
  define start where "start = (case ls_logFiles ls p of Some lf \<Rightarrow> (Inr True, lf, dk)
      | None \<Rightarrow> on_dir p (LogFile_Open e (LogFile_move (configured_file e ac p cfg))) dk)"
  obtain opened lf0 dk0 where st: "start = (opened, lf0, dk0)" by (cases start)
  have p0: "lf_path lf0 = p"
  proof (cases "ls_logFiles ls p")
    case None
    then obtain w w' where "LogFile_Open e (configured_file e ac p cfg) w = (opened, lf0, w')"
      using st on_dir_path by (fastforce simp: start_def)
    then show ?thesis by (auto simp: LogFile_Open_def configured_file_def dest!: OpenNoLock_path)
  next
    case (Some lf)
    then show ?thesis using Cons.prems(2) st by (simp add: start_def files_named_def)
  qed
  define ls0 where "ls0 = ls\<lparr>ls_logFiles := (ls_logFiles ls)(p \<mapsto> lf0)\<rparr>"
  have n0: "files_named ls0" using Cons.prems(2) p0 by (simp add: files_named_def ls0_def)
  obtain r1 lf1 dk1 where pr: "on_dir p (LogFile_Process e msg lf0) dk0 = (r1, lf1, dk1)"
    by (cases "on_dir p (LogFile_Process e msg lf0) dk0")
  have p1: "lf_path lf1 = p"
    using on_dir_path[OF pr] p0 by (auto dest!: LogFile_Process_path)
  define ls1 where "ls1 = ls0\<lparr>ls_logFiles := (ls_logFiles ls0)(p \<mapsto> lf1)\<rparr>"
  have n1: "files_named ls1" using n0 p1 by (simp add: files_named_def ls1_def)
  have e: "process_paths e ac msg (x # ps) rc (ls, dk) =
      (case opened of Inl ex \<Rightarrow> (Inl ex, ls0, dk0)
       | Inr _ \<Rightarrow> (case r1 of Inl ex \<Rightarrow> (Inl ex, ls1, dk1)
                 | Inr ok \<Rightarrow> process_paths e ac msg ps (rc \<and> ok) (ls1, dk1)))"
    by (simp add: x start_def[symmetric] st pr ls1_def ls0_def del: LogFile_moves split: sum.split)
  have upd: "ls0 = ls\<lparr>ls_logFiles := (ls_logFiles ls)(p \<mapsto> lf0)\<rparr>"
    "ls1 = ls\<lparr>ls_logFiles := (ls_logFiles ls)(p \<mapsto> lf1)\<rparr>" by (simp_all add: ls0_def ls1_def)
  show ?case
  proof (cases opened)
    case (Inl ex)
    with e Cons.prems(1) n0 upd show ?thesis by auto
  next
    case (Inr b)
    show ?thesis
    proof (cases r1)
      case (Inl ex)
      with e Cons.prems(1) Inr n1 upd show ?thesis by auto
    next
      case (Inr ok)
      with e Cons.prems(1) \<open>opened = Inr b\<close> have "process_paths e ac msg ps (rc \<and> ok) (ls1, dk1) = (r, ls', dk')" by simp
      from Cons.IH[OF this n1] upd(2) show ?thesis by auto
    qed
  qed
qed

definition logfiles_inv :: "rx_ops \<Rightarrow> (string \<Rightarrow> string \<Rightarrow> string) \<Rightarrow> Message \<Rightarrow> FilesConfig \<Rightarrow> LogFiles \<times> disk \<Rightarrow> bool" where
  "logfiles_inv rx rr msg0 fc = (\<lambda>(ls, dk). ls_filesConfig ls = fc
     \<and> ls_filtered ls = filtered_configs rx msg0 (fc_logs fc) \<and> cache_ok rr ls \<and> files_named ls)"

definition process_event :: "rx_ops \<Rightarrow> (string \<Rightarrow> string \<Rightarrow> string) \<Rightarrow> accounts \<Rightarrow> LogFiles \<times> disk \<Rightarrow> lf_env \<times> Message \<Rightarrow> LogFiles \<times> disk" where
  "process_event rx rr ac s ev = snd (LogFiles_Process rx rr (fst ev) ac (snd ev) s)"

lemma Configure_inv: "logfiles_inv rx rr msg0 fc (Configure rx msg0 fc ls, dk)"
  by (simp add: logfiles_inv_def Configure_def cache_ok_def path_memo.memo_empty files_named_def)

lemma process_event_inv:
  assumes "logfiles_inv rx rr msg0 fc s" "valid_header (snd ev)"
  shows "logfiles_inv rx rr msg0 fc (process_event rx rr ac s ev)"
proof -
  obtain ls dk where s: "s = (ls, dk)" by fastforce
  have i: "cache_ok rr ls" "files_named ls" "scanned rx (ls_filtered ls)"
    using assms(1) s scanned_configs by (auto simp: logfiles_inv_def)
  from LogPathConfigs_spec[OF i(1) assms(2) i(3)] obtain ps c where
    c: "LogPathConfigs rx rr (snd ev) ls = (ps, ls\<lparr>ls_cache := c\<rparr>)" "cache_ok rr (ls\<lparr>ls_cache := c\<rparr>)" by blast
  obtain r ls' dk' where p: "process_paths (fst ev) ac (snd ev) ps True (ls\<lparr>ls_cache := c\<rparr>, dk) = (r, ls', dk')"
    by (cases "process_paths (fst ev) ac (snd ev) ps True (ls\<lparr>ls_cache := c\<rparr>, dk)")
  have "files_named (ls\<lparr>ls_cache := c\<rparr>)" using i(2) by (simp add: files_named_def)
  from process_paths_frame[OF p this] c(2) assms(1) s
  have "logfiles_inv rx rr msg0 fc (ls', dk')" by (auto simp: logfiles_inv_def cache_ok_def)
  then show ?thesis using c(1) p s by (simp add: process_event_def LogFiles_Process_def)
qed

interpretation log_files: event_machine "process_event rx rr ac" "logfiles_inv rx rr msg0 fc" "\<lambda>ev. valid_header (snd ev)"
  for rx rr ac msg0 fc
  by unfold_locales (rule process_event_inv)

lemma configured_run_inv:
  "list_all (\<lambda>ev. valid_header (snd ev)) evs \<Longrightarrow>
    logfiles_inv rx rr msg0 fc (run_events (process_event rx rr ac) (Configure rx msg0 fc ls0, dk0) evs)"
  by (rule log_files.inv_run[OF Configure_inv])

section \<open>Properties\<close>

text \<open>
  C12. The cache of paths is transparent and every file is listed once: in any state reached from
  a configuration by messages whose facility and severity are enumerators, the paths found for
  such a message are those computed afresh from the entries whose filter accepts it, in the
  order of the configuration, the first entry for a path deciding.
\<close>

theorem log_paths_of_message:
  assumes "list_all (\<lambda>ev. valid_header (snd ev)) evs" "valid_header msg"
    "run_events (process_event rx rr ac) (Configure rx msg0 fc ls0, dk0) evs = (ls, dk)"
  shows "fst (LogPathConfigs rx rr msg ls) =
      first_by_key (accepted_paths rx rr (fc_logDirectory fc) msg (filtered_configs rx msg0 (fc_logs fc)))
    \<and> distinct (map fst (fst (LogPathConfigs rx rr msg ls)))"
proof -
  have "logfiles_inv rx rr msg0 fc (ls, dk)"
    using configured_run_inv[OF assms(1), of rx rr msg0 fc ac ls0 dk0] assms(3) by simp
  then have i: "cache_ok rr ls" "ls_filesConfig ls = fc" "ls_filtered ls = filtered_configs rx msg0 (fc_logs fc)"
    by (auto simp: logfiles_inv_def)
  have "scanned rx (ls_filtered ls)" using i(3) scanned_configs by simp
  from LogPathConfigs_spec[OF i(1) assms(2) this] i(2,3) show ?thesis by (auto simp: first_by_key_distinct)
qed

text \<open>
  Each open log file is filed under its own path, whatever messages were processed and
  whatever failed on the way, so no path is ever open twice.
\<close>

theorem open_files_named_by_path:
  assumes "list_all (\<lambda>ev. valid_header (snd ev)) evs"
    "run_events (process_event rx rr ac) (Configure rx msg0 fc ls0, dk0) evs = (ls, dk)"
    "ls_logFiles ls p = Some lf"
  shows "lf_path lf = p"
  using configured_run_inv[OF assms(1), of rx rr msg0 fc ac ls0 dk0] assms(2,3)
  by (auto simp: logfiles_inv_def files_named_def)

text \<open>
  An entry without a filter logs nothing: the driver refuses the empty expression, the
  entry is dropped, and every message is processed as a success without touching the disk.
\<close>

theorem empty_filter_logs_nothing:
  assumes "\<forall>cfg\<in>set (fc_logs fc). lc_filter cfg = []"
  shows "LogFiles_Process rx rr e ac msg (Configure rx msg0 fc ls, dk) = (Inr True, Configure rx msg0 fc ls, dk)"
proof -
  have "filter_parse rx msg0 [] = None" by (simp add: filter_parse_def test_at_def p_operand.simps)
  then have "MessageFilterDriver_new rx msg0 [] \<noteq> Inr drv" for drv
    by (auto simp: MessageFilterDriver_new_iff)
  then have n: "\<exists>ex. MessageFilterDriver_new rx msg0 [] = Inl ex" by (cases "MessageFilterDriver_new rx msg0 []") auto
  have "filtered_configs rx msg0 cfgs = []" if "\<forall>cfg\<in>set cfgs. lc_filter cfg = []" for cfgs
    using that n by (induction cfgs) auto
  with assms show ?thesis by (simp add: LogFiles_Process_def LogPathConfigs_def Configure_def)
qed

text \<open>The replacement of boost: conditional sub-expressions of the format, for plain names.\<close>

definition plain_name :: "string \<Rightarrow> bool" where
  "plain_name s \<longleftrightarrow> (\<forall>c\<in>set s. is_alnum c \<or> c \<in> {CHR ''-'', CHR ''.'', CHR ''_''})"

fun subst_names :: "string \<Rightarrow> string \<Rightarrow> string \<Rightarrow> string \<Rightarrow> string" where
  "subst_names h a f (c # d # s) =
     (if c = CHR ''%'' \<and> d = CHR ''H'' then h @ subst_names h a f s
      else if c = CHR ''%'' \<and> d = CHR ''I'' then a @ subst_names h a f s
      else if c = CHR ''%'' \<and> d = CHR ''F'' then f @ subst_names h a f s
      else c # subst_names h a f (d # s))"
| "subst_names h a f s = s"

definition regex_replace_ok :: "(string \<Rightarrow> string \<Rightarrow> string) \<Rightarrow> bool" where
  "regex_replace_ok rr \<longleftrightarrow>
     (\<forall>pat h a f. plain_name h \<and> plain_name a \<and> plain_name f \<longrightarrow> rr pat (replacement h a f) = subst_names h a f pat)"

lemma facility_name_plain: "plain_name (FacilityName f)"
  using FacilityName_word[of f] by (simp add: plain_name_def)


text \<open>A replacement that behaves so: the names are read back from the format.\<close>

definition fmt_field :: "string \<Rightarrow> string \<times> string" where
  "fmt_field s = (takeWhile (\<lambda>c. c \<noteq> CHR '')'') (drop 3 s), drop 1 (dropWhile (\<lambda>c. c \<noteq> CHR '')'') (drop 3 s)))"

definition sample_replace :: "string \<Rightarrow> string \<Rightarrow> string" where
  "sample_replace pat fmt =
     (let (h, r) = fmt_field fmt; (a, q) = fmt_field r; (f, _) = fmt_field q in subst_names h a f pat)"

lemma fmt_field_plain: "plain_name s \<Longrightarrow> fmt_field (x # y # z # s @ CHR '')'' # r) = (s, r)"
proof -
  assume "plain_name s"
  then have n: "\<forall>c\<in>set s. c \<noteq> CHR '')''" by (auto simp: plain_name_def is_alnum_def)
  have "takeWhile (\<lambda>c. c \<noteq> CHR '')'') (s @ CHR '')'' # r) = s" "dropWhile (\<lambda>c. c \<noteq> CHR '')'') (s @ CHR '')'' # r) = CHR '')'' # r"
    by (rule takeWhile_all_append[OF n], simp, rule dropWhile_all_append[OF n], simp)
  then show ?thesis by (simp add: fmt_field_def)
qed

lemma sample_replace_ok: "regex_replace_ok sample_replace"
  unfolding regex_replace_ok_def
proof (intro allI impI)
  fix pat h a f :: string
  assume n: "plain_name h \<and> plain_name a \<and> plain_name f"
  have "replacement h a f = CHR ''('' # CHR ''?'' # CHR ''1'' # h @ CHR '')'' # CHR ''('' # CHR ''?'' # CHR ''2'' # a
      @ CHR '')'' # CHR ''('' # CHR ''?'' # CHR ''3'' # f @ CHR '')'' # []" by (simp add: replacement_def)
  with n show "sample_replace pat (replacement h a f) = subst_names h a f pat"
    by (simp add: sample_replace_def fmt_field_plain del: append_Cons)
qed

lemma sample_valid_header: "valid_header sample_message"
  using sample_message_text_ok by (simp add: valid_header_def message_text_ok_def header_text_ok_def)

definition sample_accounts :: accounts where
  "sample_accounts = \<lparr>ac_ids = (0, 0), ac_pwnam = Map.empty, ac_grnam = Map.empty\<rparr>"

definition sample_files :: FilesConfig where
  "sample_files = \<lparr>fc_logDirectory = ''/logs'',
     fc_logs = [LogFileConfig_Init\<lparr>lc_filter := fexpr_text (PidIs Ge 0)\<rparr>]\<rparr>"

lemma sample_accepted:
  "first_by_key (accepted_paths sample_rx sample_replace (fc_logDirectory sample_files) sample_message
      (filtered_configs sample_rx sample_message (fc_logs sample_files))) =
    [(compute_path sample_replace ''/logs'' sample_message ''%H/%I'', hd (fc_logs sample_files))]"
proof -
  have ok: "fexpr_ok sample_rx (PidIs Ge 0)" by simp
  from driver_of_fexpr(1)[OF ok] driver_of_fexpr(2)[OF ok, of sample_message] show ?thesis
    by (simp add: sample_files_def accepted_paths_def accepts_def LogFileConfig_Init_def)
qed

lemma log_paths_of_message_witness:
  "fst (LogPathConfigs sample_rx sample_replace sample_message
       (fst (run_events (process_event sample_rx sample_replace sample_accounts)
         (Configure sample_rx sample_message sample_files LogFiles_new, \<lambda>_. \<lparr>w_parent = NoDir, w_cmds = []\<rparr>)
         [(sample_env, sample_message)]))) =
     [(compute_path sample_replace ''/logs'' sample_message ''%H/%I'', hd (fc_logs sample_files))]"
proof -
  let ?run = "run_events (process_event sample_rx sample_replace sample_accounts)
         (Configure sample_rx sample_message sample_files LogFiles_new, \<lambda>_. \<lparr>w_parent = NoDir, w_cmds = []\<rparr>)
         [(sample_env, sample_message)]"
  have v: "valid_header sample_message"
    by (rule sample_valid_header)
  obtain ls dk where run: "?run = (ls, dk)" by fastforce
  have "fst (LogPathConfigs sample_rx sample_replace sample_message ls) =
      first_by_key (accepted_paths sample_rx sample_replace (fc_logDirectory sample_files) sample_message
        (filtered_configs sample_rx sample_message (fc_logs sample_files)))"
    using log_paths_of_message[OF _ v run] v by simp
  then show ?thesis unfolding run sample_accepted by simp
qed

lemma process_paths_opens: "ls_logFiles (fst (snd (process_paths e ac msg [(p, cfg)] rc (ls, dk)))) p \<noteq> None"
  by (auto simp: Let_def split: prod.splits sum.splits)

lemma open_files_named_by_path_witness:
  "\<exists>p lf. ls_logFiles (fst (run_events (process_event sample_rx sample_replace sample_accounts)
       (Configure sample_rx sample_message sample_files LogFiles_new, \<lambda>_. \<lparr>w_parent = NoDir, w_cmds = []\<rparr>)
       [(sample_env, sample_message)])) p = Some lf \<and> lf_path lf = p"
proof -
  let ?c = "Configure sample_rx sample_message sample_files LogFiles_new" and ?dk = "\<lambda>_. \<lparr>w_parent = NoDir, w_cmds = []\<rparr>"
  obtain ls dk where run: "run_events (process_event sample_rx sample_replace sample_accounts) (?c, ?dk)
      [(sample_env, sample_message)] = (ls, dk)" by fastforce
  have inv: "logfiles_inv sample_rx sample_replace sample_message sample_files (?c, ?dk)" by (rule Configure_inv)
  then have f: "cache_ok sample_replace ?c" "ls_filesConfig ?c = sample_files"
    "ls_filtered ?c = filtered_configs sample_rx sample_message (fc_logs sample_files)"
    by (auto simp: logfiles_inv_def)
  have "scanned sample_rx (ls_filtered ?c)" unfolding f(3) by (rule scanned_configs)
  from LogPathConfigs_spec[OF f(1) sample_valid_header this] obtain c where
    lp: "LogPathConfigs sample_rx sample_replace sample_message ?c =
      ([(compute_path sample_replace ''/logs'' sample_message ''%H/%I'', hd (fc_logs sample_files))], ?c\<lparr>ls_cache := c\<rparr>)"
    unfolding f(2,3) sample_accepted by blast
  have "ls = fst (snd (process_paths sample_env sample_accounts sample_message
      [(compute_path sample_replace ''/logs'' sample_message ''%H/%I'', hd (fc_logs sample_files))] True (?c\<lparr>ls_cache := c\<rparr>, ?dk)))"
    using run by (simp add: process_event_def LogFiles_Process_def lp del: process_paths.simps)
  then obtain p where "ls_logFiles ls p \<noteq> None" using process_paths_opens by metis
  then obtain lf where lf: "ls_logFiles ls p = Some lf" by blast
  from open_files_named_by_path[OF _ run lf] sample_valid_header have "lf_path lf = p" by simp
  with lf run show ?thesis by auto
qed

lemma empty_filter_logs_nothing_witness:
  "LogFiles_Process sample_rx sample_replace sample_env sample_accounts sample_message
      (Configure sample_rx sample_message \<lparr>fc_logDirectory = ''/logs'', fc_logs = [LogFileConfig_Init]\<rparr> LogFiles_new,
       \<lambda>_. \<lparr>w_parent = NoDir, w_cmds = []\<rparr>) =
    (Inr True, Configure sample_rx sample_message \<lparr>fc_logDirectory = ''/logs'', fc_logs = [LogFileConfig_Init]\<rparr> LogFiles_new,
       \<lambda>_. \<lparr>w_parent = NoDir, w_cmds = []\<rparr>)"
  by (rule empty_filter_logs_nothing) (simp add: LogFileConfig_Init_def)


end
