(* ===== verification/UdpEndpoint.thy ===== *)
theory UdpEndpoint
  imports Prelude
begin

text \<open>
  \<open>DwmMclogUdpEndpoint.{hh,cc}\<close>: an address and a port. The address class is libDwm's
  \<open>IpAddress\<close>: a type with a linear order, and the operations the code calls, as a record of
  functions with the laws \<open>ip_ok\<close>. The lemmas: the order of end points is linear, the
  conversions to and from socket addresses are inverse, and each asserts its family.
\<close>

section \<open>Addresses\<close>

type_synonym u128 = "128 word"

record 'a ip_ops =
  ip_v4 :: "'a \<Rightarrow> u32 option"
  ip_v6 :: "'a \<Rightarrow> u128 option"
  of_v4 :: "u32 \<Rightarrow> 'a"
  of_v6 :: "u128 \<Rightarrow> 'a"
  ip_string :: "'a \<Rightarrow> string"

text \<open>An address has exactly one family, and its raw form determines it.\<close>

definition ip_ok :: "'a ip_ops \<Rightarrow> bool" where
  "ip_ok ip \<longleftrightarrow>
     (\<forall>w. ip_v4 ip (of_v4 ip w) = Some w \<and> ip_v6 ip (of_v4 ip w) = None) \<and>
     (\<forall>w. ip_v6 ip (of_v6 ip w) = Some w \<and> ip_v4 ip (of_v6 ip w) = None) \<and>
     (\<forall>a. (\<exists>w. a = of_v4 ip w) \<or> (\<exists>w. a = of_v6 ip w))"

definition sample_ip :: "(u32 + u128) ip_ops" where
  "sample_ip =
     \<lparr>ip_v4 = (\<lambda>a. case a of Inl w \<Rightarrow> Some w | Inr w \<Rightarrow> None),
      ip_v6 = (\<lambda>a. case a of Inl w \<Rightarrow> None | Inr w \<Rightarrow> Some w),
      of_v4 = Inl, of_v6 = Inr, ip_string = (\<lambda>_. ''::'')\<rparr>"

lemma sample_ip_ok: "ip_ok sample_ip"
proof -
  have "(\<exists>w. a = Inl w) \<or> (\<exists>w. a = Inr w)" for a :: "u32 + u128" by (cases a) auto
  then show ?thesis by (simp add: ip_ok_def sample_ip_def)
qed

section \<open>Socket addresses\<close>

text \<open>\<open>htons\<close> and \<open>ntohs\<close> on a little-endian host.\<close>

definition htons :: "u16 \<Rightarrow> u16" where
  "htons w = or (push_bit 8 w) (drop_bit 8 w)"

abbreviation ntohs :: "u16 \<Rightarrow> u16" where
  "ntohs \<equiv> htons"

lemma ntohs_htons [simp]: "ntohs (htons w) = w"
  by (rule bit_word_eqI) (auto simp: htons_def bit_or_iff bit_push_bit_iff bit_drop_bit_eq)

lemma htons_inject [simp]: "htons v = htons w \<longleftrightarrow> v = w"
  by (metis ntohs_htons)

record sockaddr_in =
  sin_addr :: u32
  sin_port :: u16

record sockaddr_in6 =
  sin6_addr :: u128
  sin6_port :: u16

section \<open>End points\<close>

datatype 'a UdpEndpoint = UdpEndpoint (Addr: 'a) (Port: u16)

text \<open>\<open>operator <\<close>: by address, then by port.\<close>

definition UdpEndpoint_lt :: "('a :: linorder) UdpEndpoint \<Rightarrow> 'a UdpEndpoint \<Rightarrow> bool" where
  "UdpEndpoint_lt a b \<longleftrightarrow>
     (if Addr a < Addr b then True else if Addr a = Addr b then Port a < Port b else False)"

instantiation UdpEndpoint :: (linorder) linorder
begin

definition less_UdpEndpoint :: "'a UdpEndpoint \<Rightarrow> 'a UdpEndpoint \<Rightarrow> bool" where
  "less_UdpEndpoint = UdpEndpoint_lt"

definition less_eq_UdpEndpoint :: "'a UdpEndpoint \<Rightarrow> 'a UdpEndpoint \<Rightarrow> bool" where
  "less_eq_UdpEndpoint a b \<longleftrightarrow> a < b \<or> a = (b :: 'a UdpEndpoint)"

instance
  by standard
    (auto simp: less_UdpEndpoint_def UdpEndpoint_lt_def less_eq_UdpEndpoint_def neq_iff intro: UdpEndpoint.expand
      split: if_splits)

end

definition UdpEndpoint_of_sockaddr_in :: "'a ip_ops \<Rightarrow> sockaddr_in \<Rightarrow> 'a UdpEndpoint" where
  "UdpEndpoint_of_sockaddr_in ip sa = UdpEndpoint (of_v4 ip (sin_addr sa)) (ntohs (sin_port sa))"

definition UdpEndpoint_of_sockaddr_in6 :: "'a ip_ops \<Rightarrow> sockaddr_in6 \<Rightarrow> 'a UdpEndpoint" where
  "UdpEndpoint_of_sockaddr_in6 ip sa = UdpEndpoint (of_v6 ip (sin6_addr sa)) (ntohs (sin6_port sa))"

definition UdpEndpoint_sockaddr_in :: "'a ip_ops \<Rightarrow> 'a UdpEndpoint \<Rightarrow> sockaddr_in result" where
  "UdpEndpoint_sockaddr_in ip ep =
     (case ip_v4 ip (Addr ep) of
        None \<Rightarrow> Inl AssertionFailed
      | Some raw \<Rightarrow> Inr \<lparr>sin_addr = raw, sin_port = htons (Port ep)\<rparr>)"

definition UdpEndpoint_sockaddr_in6 :: "'a ip_ops \<Rightarrow> 'a UdpEndpoint \<Rightarrow> sockaddr_in6 result" where
  "UdpEndpoint_sockaddr_in6 ip ep =
     (case ip_v6 ip (Addr ep) of
        None \<Rightarrow> Inl AssertionFailed
      | Some raw \<Rightarrow> Inr \<lparr>sin6_addr = raw, sin6_port = htons (Port ep)\<rparr>)"

definition UdpEndpoint_string :: "'a ip_ops \<Rightarrow> 'a UdpEndpoint \<Rightarrow> string" where
  "UdpEndpoint_string ip ep = ip_string ip (Addr ep) @ '':'' @ show_nat (unat (Port ep))"

text \<open>\<open>Port(port)\<close> sets and returns; the formatter of \<open>std::format\<close> writes the string again.\<close>

definition UdpEndpoint_set_Port :: "u16 \<Rightarrow> 'a UdpEndpoint \<Rightarrow> u16 \<times> 'a UdpEndpoint" where
  "UdpEndpoint_set_Port port ep = (let ep' = UdpEndpoint (Addr ep) port in (Port ep', ep'))"

definition UdpEndpoint_format :: "'a ip_ops \<Rightarrow> string \<Rightarrow> 'a UdpEndpoint \<Rightarrow> string" where
  "UdpEndpoint_format ip ctx_out ep = ctx_out @ ip_string ip (Addr ep) @ '':'' @ show_nat (unat (Port ep))"

lemma UdpEndpoint_format_string: "UdpEndpoint_format ip ctx ep = ctx @ UdpEndpoint_string ip ep"
  by (simp add: UdpEndpoint_format_def UdpEndpoint_string_def)

lemma UdpEndpoint_sockaddr_roundtrip:
  assumes "ip_ok ip"
  shows "UdpEndpoint_sockaddr_in ip (UdpEndpoint_of_sockaddr_in ip sa) = Inr sa"
    and "UdpEndpoint_sockaddr_in6 ip (UdpEndpoint_of_sockaddr_in6 ip sa6) = Inr sa6"
    and "UdpEndpoint_sockaddr_in ip ep = Inr sb \<Longrightarrow> UdpEndpoint_of_sockaddr_in ip sb = ep"
    and "UdpEndpoint_sockaddr_in6 ip ep = Inr sb6 \<Longrightarrow> UdpEndpoint_of_sockaddr_in6 ip sb6 = ep"
proof -
  have inv4: "ip_v4 ip a = Some w \<Longrightarrow> of_v4 ip w = a" for a w
    using assms unfolding ip_ok_def by (metis option.distinct(1) option.inject)
  have inv6: "ip_v6 ip a = Some w \<Longrightarrow> of_v6 ip w = a" for a w
    using assms unfolding ip_ok_def by (metis option.distinct(1) option.inject)
  show "UdpEndpoint_sockaddr_in ip (UdpEndpoint_of_sockaddr_in ip sa) = Inr sa"
    "UdpEndpoint_sockaddr_in6 ip (UdpEndpoint_of_sockaddr_in6 ip sa6) = Inr sa6"
    using assms
    by (simp_all add: ip_ok_def UdpEndpoint_sockaddr_in_def UdpEndpoint_of_sockaddr_in_def
        UdpEndpoint_sockaddr_in6_def UdpEndpoint_of_sockaddr_in6_def)
  show "UdpEndpoint_sockaddr_in ip ep = Inr sb \<Longrightarrow> UdpEndpoint_of_sockaddr_in ip sb = ep"
    by (cases ep) (auto simp: UdpEndpoint_sockaddr_in_def UdpEndpoint_of_sockaddr_in_def inv4 split: option.splits)
  show "UdpEndpoint_sockaddr_in6 ip ep = Inr sb6 \<Longrightarrow> UdpEndpoint_of_sockaddr_in6 ip sb6 = ep"
    by (cases ep) (auto simp: UdpEndpoint_sockaddr_in6_def UdpEndpoint_of_sockaddr_in6_def inv6 split: option.splits)
qed

text \<open>Every end point converts to the socket address of its family and to no other.\<close>

lemma UdpEndpoint_family:
  assumes "ip_ok ip"
  shows "UdpEndpoint_sockaddr_in ip ep = Inl AssertionFailed \<longleftrightarrow>
    (\<exists>sa. UdpEndpoint_sockaddr_in6 ip ep = Inr sa)"
proof -
  have "ip_v4 ip (Addr ep) = None \<longleftrightarrow> ip_v6 ip (Addr ep) \<noteq> None"
    using assms unfolding ip_ok_def by (metis option.distinct(1))
  then show ?thesis
    by (auto simp: UdpEndpoint_sockaddr_in_def UdpEndpoint_sockaddr_in6_def split: option.splits)
qed

end
