(* ===== verification/MessagePacket.thy ===== *)
theory MessagePacket
  imports Message UdpEndpoint
begin

text \<open>
  \<open>DwmMclogMessagePacket.{hh,cc}\<close>: the caller's buffer, a \<open>spanstream\<close> over a window of it
  (the payload), and the length of the payload. On the wire: 24 bytes of nonce, the payload,
  16 bytes of authentication tag; encryption is in place. The packet does not own the buffer,
  so the payload is a window \<open>pk_off\<close>, \<open>pk_len\<close> into \<open>pk_buf\<close>, not a copy. libsodium's
  AEAD is a parameter with the law \<open>aead_ok\<close>. The lemmas: \<open>Add\<close> is all or nothing, the
  well-formedness of packets, and that a datagram sent is the payload received.
\<close>

section \<open>The cipher\<close>

record aead =
  aead_enc :: "bytes \<Rightarrow> bytes \<Rightarrow> bytes \<Rightarrow> bytes option"
  aead_dec :: "bytes \<Rightarrow> bytes \<Rightarrow> bytes \<Rightarrow> bytes option"

text \<open>Arguments: nonce, key, text. The result carries the 16-byte tag; decryption inverts.\<close>

definition aead_ok :: "aead \<Rightarrow> bool" where
  "aead_ok ae \<longleftrightarrow>
     (\<forall>n k p. \<exists>c. aead_enc ae n k p = Some c \<and> length c = length p + 16 \<and> aead_dec ae n k c = Some p) \<and>
     (\<forall>n k c p. aead_dec ae n k c = Some p \<longrightarrow> length c = length p + 16)"

definition sample_aead :: aead where
  "sample_aead =
     \<lparr>aead_enc = (\<lambda>n k p. Some (p @ replicate 16 CHR 0x00)),
      aead_dec = (\<lambda>n k c. if length c < 16 then None else Some (take (length c - 16) c))\<rparr>"

lemma sample_aead_ok: "aead_ok sample_aead"
  by (auto simp: aead_ok_def sample_aead_def split: if_splits)

section \<open>The packet\<close>

definition k_nonceLen :: nat where "k_nonceLen = 24"
definition k_macLen :: nat where "k_macLen = 16"
definition k_minPacketLen :: nat where "k_minPacketLen = k_nonceLen + k_macLen"

lemmas k_lens = k_nonceLen_def k_macLen_def k_minPacketLen_def

record MessagePacket =
  pk_buf :: bytes
  pk_off :: nat
  pk_len :: nat
  pk_pos :: nat
  pk_fail :: bool
  pk_payloadLength :: nat

text \<open>The constructor's \<open>assert\<close> is compiled in: the repository defines no \<open>NDEBUG\<close>.\<close>

definition MessagePacket_new :: "bytes \<Rightarrow> MessagePacket result" where
  "MessagePacket_new buf =
     (if k_minPacketLen < length buf
      then Inr \<lparr>pk_buf = buf, pk_off = k_nonceLen, pk_len = length buf - (k_nonceLen + k_macLen),
                pk_pos = 0, pk_fail = False, pk_payloadLength = 0\<rparr>
      else Inl AssertionFailed)"

text \<open>The payload as the stream that \<open>Write\<close> sees, and the packet after writing to it.\<close>

definition payload_os :: "MessagePacket \<Rightarrow> ostream" where
  "payload_os pk =
     \<lparr>obuf = take (pk_len pk) (drop (pk_off pk) (pk_buf pk)), opos = pk_pos pk,
      olimit = Some (pk_len pk), ofail = pk_fail pk\<rparr>"

definition set_payload_os :: "ostream \<Rightarrow> MessagePacket \<Rightarrow> MessagePacket" where
  "set_payload_os os pk =
     pk\<lparr>pk_buf := take (pk_off pk) (pk_buf pk) @ obuf os @ drop (pk_off pk + pk_len pk) (pk_buf pk),
        pk_pos := opos os, pk_fail := ofail os\<rparr>"

text \<open>\<open>Add(t)\<close>, for any class with a \<open>Write\<close> member (\<open>wr\<close> is \<open>StreamIO::Write\<close> of it).\<close>

definition Add :: "(ostream \<Rightarrow> ostream) \<Rightarrow> MessagePacket \<Rightarrow> bool \<times> MessagePacket" where
  "Add wr pk =
     (let prevPos = pk_pos pk;
          os = wr (payload_os pk)
      in if \<not> ofail os then
           let p1 = set_payload_os os pk
           in (True, p1\<lparr>pk_payloadLength := pk_pos p1\<rparr>)
         else
           let p1 = set_payload_os (os_seekp prevPos (os_clear os)) pk
           in (False, p1\<lparr>pk_payloadLength := pk_pos p1\<rparr>))"

definition Reset :: "MessagePacket \<Rightarrow> MessagePacket" where
  "Reset pk = pk\<lparr>pk_pos := (if pk_fail pk then pk_pos pk else 0), pk_payloadLength := 0\<rparr>"

definition HasPayload :: "MessagePacket \<Rightarrow> bool" where
  "HasPayload pk \<longleftrightarrow> pk_payloadLength pk > 0"

text \<open>\<open>Payload()\<close> as the stream that \<open>Read\<close> sees.\<close>

definition Payload :: "MessagePacket \<Rightarrow> istream" where
  "Payload pk = good (take (pk_len pk) (drop (pk_off pk) (pk_buf pk)))"

text \<open>Bytes stored into the buffer from a position on.\<close>

definition poke :: "nat \<Rightarrow> bytes \<Rightarrow> bytes \<Rightarrow> bytes" where
  "poke i bs buf = take i buf @ bs @ drop (i + length bs) buf"

text \<open>\<open>nonce\<close> is what \<open>randombytes_buf\<close> delivers.\<close>

definition Encrypt :: "aead \<Rightarrow> bytes \<Rightarrow> bytes \<Rightarrow> MessagePacket \<Rightarrow> bool \<times> MessagePacket" where
  "Encrypt ae nonce secretKey pk =
     (let p1 = pk\<lparr>pk_buf := poke 0 nonce (pk_buf pk)\<rparr>;
          plain = take (pk_payloadLength pk) (drop k_nonceLen (pk_buf p1))
      in case aead_enc ae (take k_nonceLen (pk_buf p1)) secretKey plain of
           None \<Rightarrow> (False, p1)
         | Some c \<Rightarrow> (pk_payloadLength pk + k_macLen = length c,
                      p1\<lparr>pk_buf := poke k_nonceLen c (pk_buf p1)\<rparr>))"

text \<open>
  \<open>SendTo\<close>: the bytes handed to \<open>sendto\<close>, with the kernel's answer \<open>ret\<close>. The branch on
  the address family only picks the form of the socket address; the call that fails to
  encrypt sends nothing.
\<close>

definition datagram :: "MessagePacket \<Rightarrow> bytes" where
  "datagram pk = take (k_nonceLen + k_macLen + pk_payloadLength pk) (pk_buf pk)"

definition SendTo ::
    "(bytes \<Rightarrow> 'a UdpEndpoint \<Rightarrow> int) \<Rightarrow> 'a UdpEndpoint \<Rightarrow> MessagePacket
     \<Rightarrow> int \<times> ('a UdpEndpoint \<times> bytes) list" where
  "SendTo sendto dst pk = (let d = datagram pk in (sendto d dst, [(dst, d)]))"

definition SendTo_secret ::
    "aead \<Rightarrow> bytes \<Rightarrow> (bytes \<Rightarrow> 'a UdpEndpoint \<Rightarrow> int) \<Rightarrow> bytes \<Rightarrow> 'a UdpEndpoint
     \<Rightarrow> MessagePacket \<Rightarrow> int \<times> ('a UdpEndpoint \<times> bytes) list \<times> MessagePacket" where
  "SendTo_secret ae nonce sendto secretKey dst pk =
     (let (ok, p1) = Encrypt ae nonce secretKey pk
      in if ok then let d = datagram p1 in (sendto d dst, [(dst, d)], p1) else (-1, [], p1))"

definition set_payload_window :: "nat \<Rightarrow> nat \<Rightarrow> MessagePacket \<Rightarrow> MessagePacket" where
  "set_payload_window off len pk = pk\<lparr>pk_off := off, pk_len := len, pk_pos := 0, pk_fail := False\<rparr>"

definition Decrypt :: "aead \<Rightarrow> nat \<Rightarrow> bytes \<Rightarrow> MessagePacket \<Rightarrow> int \<times> MessagePacket" where
  "Decrypt ae recvlen secretKey pk =
     (if k_nonceLen + k_macLen < recvlen then
        (case aead_dec ae (take k_nonceLen (pk_buf pk)) secretKey
                (take (recvlen - k_nonceLen) (drop k_nonceLen (pk_buf pk))) of
           Some plain \<Rightarrow>
             (int recvlen,
              set_payload_window k_nonceLen (length plain)
                (pk\<lparr>pk_buf := poke k_nonceLen plain (pk_buf pk), pk_payloadLength := length plain\<rparr>))
         | None \<Rightarrow> (-1, set_payload_window k_nonceLen 0 (pk\<lparr>pk_payloadLength := 0\<rparr>)))
      else (-1, set_payload_window k_nonceLen 0 (pk\<lparr>pk_payloadLength := 0\<rparr>)))"

text \<open>
  \<open>recvfrom\<close>: \<open>None\<close> when it fails, else the datagram with its source; what exceeds the
  buffer is cut off. The result is the return code, the source and the packet.
\<close>

definition store_received :: "bytes \<Rightarrow> MessagePacket \<Rightarrow> nat \<times> MessagePacket" where
  "store_received d pk =
     (let r = take (length (pk_buf pk)) d in (length r, pk\<lparr>pk_buf := poke 0 r (pk_buf pk)\<rparr>))"

definition RecvFrom_secret ::
    "aead \<Rightarrow> bytes \<Rightarrow> (sockaddr_in \<times> bytes) option \<Rightarrow> MessagePacket
     \<Rightarrow> int \<times> sockaddr_in option \<times> MessagePacket" where
  "RecvFrom_secret ae secretKey recvd pk =
     (let p0 = pk\<lparr>pk_payloadLength := 0\<rparr>
      in case recvd of
           None \<Rightarrow> (-1, None, set_payload_window 0 0 p0)
         | Some (src, d) \<Rightarrow>
             let (recvrc, p1) = store_received d p0
             in if recvrc > 0 then
                  if recvrc > k_minPacketLen then
                    let (rc, p2) = Decrypt ae recvrc secretKey p1 in (rc, Some src, p2)
                  else (0, Some src, set_payload_window 0 0 p1)
                else (-1, Some src, set_payload_window 0 0 p1))"

definition RecvFrom6_secret ::
    "aead \<Rightarrow> bytes \<Rightarrow> (sockaddr_in6 \<times> bytes) option \<Rightarrow> MessagePacket
     \<Rightarrow> int \<times> sockaddr_in6 option \<times> MessagePacket" where
  "RecvFrom6_secret ae secretKey recvd pk =
     (let p0 = pk\<lparr>pk_payloadLength := 0\<rparr>
      in case recvd of
           None \<Rightarrow> (-1, None, set_payload_window 0 0 p0)
         | Some (src, d) \<Rightarrow>
             let (recvrc, p1) = store_received d p0
             in if recvrc > 0 then
                  if recvrc > k_minPacketLen then
                    let (rc, p2) = Decrypt ae recvrc secretKey p1 in (rc, Some src, p2)
                  else (0, Some src, set_payload_window 0 0 p1)
                else (-1, Some src, set_payload_window 0 0 p1))"

definition RecvFrom ::
    "(sockaddr_in \<times> bytes) option \<Rightarrow> MessagePacket \<Rightarrow> int \<times> sockaddr_in option \<times> MessagePacket" where
  "RecvFrom recvd pk =
     (let p0 = pk\<lparr>pk_payloadLength := 0\<rparr>
      in case recvd of
           None \<Rightarrow> (-1, None, set_payload_window 0 0 p0)
         | Some (src, d) \<Rightarrow>
             let (recvrc, p1) = store_received d p0
             in if recvrc > 0 then
                  if recvrc > k_minPacketLen then
                    let plainLen = recvrc - (k_nonceLen + k_macLen)
                    in (int recvrc, Some src,
                        set_payload_window k_nonceLen plainLen (p1\<lparr>pk_payloadLength := plainLen\<rparr>))
                  else (0, Some src, set_payload_window 0 0 p1)
                else (-1, Some src, set_payload_window 0 0 p1))"

definition RecvFrom6 ::
    "(sockaddr_in6 \<times> bytes) option \<Rightarrow> MessagePacket \<Rightarrow> int \<times> sockaddr_in6 option \<times> MessagePacket" where
  "RecvFrom6 recvd pk =
     (let p0 = pk\<lparr>pk_payloadLength := 0\<rparr>
      in case recvd of
           None \<Rightarrow> (-1, None, set_payload_window 0 0 p0)
         | Some (src, d) \<Rightarrow>
             let (recvrc, p1) = store_received d p0
             in if recvrc > 0 then
                  if recvrc > k_minPacketLen then
                    let plainLen = recvrc - (k_nonceLen + k_macLen)
                    in (int recvrc, Some src,
                        set_payload_window k_nonceLen plainLen (p1\<lparr>pk_payloadLength := plainLen\<rparr>))
                  else (0, Some src, set_payload_window 0 0 p1)
                else (-1, Some src, set_payload_window 0 0 p1))"

section \<open>Lemmas: filling a packet\<close>

text \<open>
  A packet being filled: the window lies behind the nonce and leaves room for the tag, the
  stream is good, and the payload length is the put position.
\<close>

definition packet_wf :: "MessagePacket \<Rightarrow> bool" where
  "packet_wf pk \<longleftrightarrow>
     pk_off pk = k_nonceLen \<and> k_minPacketLen < length (pk_buf pk)
     \<and> pk_len pk = length (pk_buf pk) - k_minPacketLen
     \<and> pk_pos pk \<le> pk_len pk \<and> \<not> pk_fail pk \<and> pk_payloadLength pk = pk_pos pk"

text \<open>The bytes added so far.\<close>

definition payload_bytes :: "MessagePacket \<Rightarrow> bytes" where
  "payload_bytes pk = take (pk_payloadLength pk) (drop k_nonceLen (pk_buf pk))"

lemma MessagePacket_new_wf:
  "MessagePacket_new buf = Inr pk \<Longrightarrow>
   packet_wf pk \<and> payload_bytes pk = [] \<and> length (pk_buf pk) = length buf"
  by (auto simp: MessagePacket_new_def packet_wf_def payload_bytes_def k_minPacketLen_def
      split: if_splits)

lemma MessagePacket_new_aborts:
  "MessagePacket_new buf = Inl AssertionFailed \<longleftrightarrow> length buf \<le> k_minPacketLen"
  by (simp add: MessagePacket_new_def not_less)

lemma payload_os_wf: "packet_wf pk \<Longrightarrow> os_wf (payload_os pk)"
  by (auto simp: packet_wf_def os_wf_def payload_os_def k_lens)

lemma payload_bytes_length: "packet_wf pk \<Longrightarrow> length (payload_bytes pk) = pk_payloadLength pk"
  by (auto simp: payload_bytes_def packet_wf_def k_lens min_def)

lemma HasPayload_iff: "packet_wf pk \<Longrightarrow> HasPayload pk \<longleftrightarrow> payload_bytes pk \<noteq> []"
  using payload_bytes_length[of pk] by (cases "payload_bytes pk") (auto simp: HasPayload_def)

text \<open>The buffer of a packet being filled: nonce, payload so far, room, tag.\<close>

lemma packet_wf_split:
  assumes "packet_wf pk"
  obtains n r t where "pk_buf pk = n @ payload_bytes pk @ r @ t" "length n = k_nonceLen"
    "length (payload_bytes pk) = pk_pos pk" "length r = pk_len pk - pk_pos pk" "length t = k_macLen"
proof
  let ?b = "pk_buf pk"
  let ?n = "take k_nonceLen ?b" and ?r = "take (pk_len pk - pk_pos pk) (drop (k_nonceLen + pk_pos pk) ?b)"
    and ?t = "drop (k_nonceLen + pk_len pk) ?b"
  have l: "pk_pos pk \<le> pk_len pk" "pk_payloadLength pk = pk_pos pk" "length ?b = 40 + pk_len pk"
    using assms by (auto simp: packet_wf_def k_lens)
  have "?r @ ?t = drop (k_nonceLen + pk_pos pk) ?b"
    using append_take_drop_id[of "pk_len pk - pk_pos pk" "drop (k_nonceLen + pk_pos pk) ?b"] l
    by (simp add: ac_simps)
  moreover have "payload_bytes pk @ drop (k_nonceLen + pk_pos pk) ?b = drop k_nonceLen ?b"
    using append_take_drop_id[of "pk_pos pk" "drop k_nonceLen ?b"] l
    by (simp add: payload_bytes_def ac_simps)
  ultimately show "?b = ?n @ payload_bytes pk @ ?r @ ?t" by simp
  show "length ?n = k_nonceLen" "length ?r = pk_len pk - pk_pos pk" "length ?t = k_macLen"
    using l by (simp_all add: k_lens)
  show "length (payload_bytes pk) = pk_pos pk" using payload_bytes_length[OF assms] l by simp
qed

lemma packet_wf_intro:
  assumes "pk_buf p = n @ x @ r @ t" "length n = k_nonceLen" "length t = k_macLen" "pk_off p = k_nonceLen"
    "pk_len p = length (x @ r)" "0 < pk_len p" "pk_pos p = length x" "\<not> pk_fail p"
    "pk_payloadLength p = length x"
  shows "packet_wf p \<and> payload_bytes p = x"
  using assms by (simp add: packet_wf_def payload_bytes_def k_lens)

text \<open>
  \<open>Add\<close> of a value whose \<open>Write\<close> emits \<open>bs\<close>: all of it or nothing, never past the
  room left for the tag.
\<close>

lemma Add_fits:
  assumes wf: "packet_wf pk" and wr: "\<And>os. os_wf os \<Longrightarrow> wr os = os_write bs os"
    and fits: "pk_pos pk + length bs \<le> pk_len pk"
  obtains p' where "Add wr pk = (True, p')" "packet_wf p'" "payload_bytes p' = payload_bytes pk @ bs"
    "length (pk_buf p') = length (pk_buf pk)"
proof -
  let ?x = "payload_bytes pk"
  obtain n r t where s: "pk_buf pk = n @ ?x @ r @ t" "length n = k_nonceLen" "length ?x = pk_pos pk"
    "length r = pk_len pk - pk_pos pk" "length t = k_macLen" using packet_wf_split[OF wf] by blast
  have w: "pk_off pk = k_nonceLen" "\<not> pk_fail pk" "pk_pos pk \<le> pk_len pk" "0 < pk_len pk"
    using wf by (auto simp: packet_wf_def k_lens)
  have os0: "payload_os pk = \<lparr>obuf = ?x @ r, opos = pk_pos pk, olimit = Some (pk_len pk), ofail = False\<rparr>"
    using s w by (simp add: payload_os_def)
  have os: "wr (payload_os pk) = \<lparr>obuf = ?x @ bs @ drop (length bs) r, opos = pk_pos pk + length bs,
      olimit = Some (pk_len pk), ofail = False\<rparr>"
    using wr[OF payload_os_wf[OF wf]] os_write_fits[OF payload_os_wf[OF wf], of "pk_len pk" bs] fits s
    unfolding os0 by simp
  let ?p = "(set_payload_os (wr (payload_os pk)) pk)\<lparr>pk_payloadLength := pk_pos pk + length bs\<rparr>"
  have "pk_buf ?p = n @ (?x @ bs) @ drop (length bs) r @ t"
    using s w unfolding os by (simp add: set_payload_os_def)
  moreover have "pk_len ?p = length ((?x @ bs) @ drop (length bs) r)"
    using s w fits by (simp add: set_payload_os_def)
  ultimately have "packet_wf ?p \<and> payload_bytes ?p = ?x @ bs"
    using s w by (intro packet_wf_intro) (auto simp: set_payload_os_def os)
  moreover have "Add wr pk = (True, ?p)"
    using os by (simp add: Add_def Let_def set_payload_os_def)
  moreover have "length (pk_buf ?p) = length (pk_buf pk)"
    using s w fits unfolding os by (simp add: set_payload_os_def)
  ultimately show thesis using that by blast
qed

lemma Add_full:
  assumes wf: "packet_wf pk" and wr: "\<And>os. os_wf os \<Longrightarrow> wr os = os_write bs os"
    and full: "pk_len pk < pk_pos pk + length bs"
  obtains p' where "Add wr pk = (False, p')" "packet_wf p'" "payload_bytes p' = payload_bytes pk"
    "length (pk_buf p') = length (pk_buf pk)"
proof -
  let ?x = "payload_bytes pk" and ?os = "payload_os pk"
  obtain n r t where s: "pk_buf pk = n @ ?x @ r @ t" "length n = k_nonceLen" "length ?x = pk_pos pk"
    "length r = pk_len pk - pk_pos pk" "length t = k_macLen" using packet_wf_split[OF wf] by blast
  have w: "pk_off pk = k_nonceLen" "\<not> pk_fail pk" "pk_pos pk \<le> pk_len pk" "0 < pk_len pk"
    using wf by (auto simp: packet_wf_def k_lens)
  have os0: "?os = \<lparr>obuf = ?x @ r, opos = pk_pos pk, olimit = Some (pk_len pk), ofail = False\<rparr>"
    using s w by (simp add: payload_os_def)
  have o: "ofail (wr ?os)" "take (pk_pos pk) (obuf (wr ?os)) = ?x"
    using os_write_overflow[OF payload_os_wf[OF wf], of "pk_len pk" bs] full s
      wr[OF payload_os_wf[OF wf]] unfolding os0 by simp_all
  have lb: "length (obuf (wr ?os)) = pk_len pk"
    using os_wf_write[OF payload_os_wf[OF wf], of bs] wr[OF payload_os_wf[OF wf]]
    by (simp add: os_wf_def payload_os_def)
  define y where "y = drop (pk_pos pk) (obuf (wr ?os))"
  have y: "obuf (wr ?os) = ?x @ y" "length y = pk_len pk - pk_pos pk"
    using append_take_drop_id[of "pk_pos pk" "obuf (wr ?os)"] o(2) lb by (simp_all add: y_def)
  let ?p = "(set_payload_os (os_seekp (pk_pos pk) (os_clear (wr ?os))) pk)\<lparr>pk_payloadLength := pk_pos pk\<rparr>"
  have a: "Add wr pk = (False, ?p)"
    using o by (simp add: Add_def Let_def set_payload_os_def os_seekp_def os_clear_def)
  have "pk_buf ?p = n @ ?x @ y @ t"
    using s w by (simp add: set_payload_os_def os_seekp_def os_clear_def y)
  then have "packet_wf ?p \<and> payload_bytes ?p = ?x"
    using s w y by (intro packet_wf_intro) (auto simp: set_payload_os_def os_seekp_def os_clear_def)
  moreover have "length (pk_buf ?p) = length (pk_buf pk)"
    using s w y by (simp add: set_payload_os_def os_seekp_def os_clear_def)
  ultimately show thesis using a that by blast
qed

lemma Reset_wf:
  "packet_wf pk \<Longrightarrow> packet_wf (Reset pk) \<and> payload_bytes (Reset pk) = []
     \<and> length (pk_buf (Reset pk)) = length (pk_buf pk)"
  by (simp add: Reset_def packet_wf_def payload_bytes_def)

section \<open>Lemmas: from a packet to a datagram and back\<close>

lemma length_poke: "i + length bs \<le> length buf \<Longrightarrow> length (poke i bs buf) = length buf"
  by (simp add: poke_def)

lemma datagram_plain:
  assumes "packet_wf pk"
  obtains n t where "datagram pk = n @ payload_bytes pk @ t" "length n = k_nonceLen" "length t = k_macLen"
proof -
  obtain n r t where s: "pk_buf pk = n @ payload_bytes pk @ r @ t" "length n = k_nonceLen"
    "length (payload_bytes pk) = pk_pos pk" "length r = pk_len pk - pk_pos pk" "length t = k_macLen"
    using packet_wf_split[OF assms] by blast
  have "datagram pk = n @ payload_bytes pk @ take k_macLen (r @ t)"
    using s assms unfolding datagram_def s(1) by (simp add: packet_wf_def)
  moreover have "length (take k_macLen (r @ t)) = k_macLen" using s by simp
  ultimately show thesis using s(2) that by blast
qed

lemma Encrypt_datagram:
  assumes ae: "aead_ok ae" and wf: "packet_wf pk" and n: "length nonce = k_nonceLen"
  obtains p' c where "Encrypt ae nonce k pk = (True, p')" "aead_enc ae nonce k (payload_bytes pk) = Some c"
    "datagram p' = nonce @ c" "packet_wf p'" "length (pk_buf p') = length (pk_buf pk)"
    "length c = length (payload_bytes pk) + k_macLen"
proof -
  let ?x = "payload_bytes pk"
  obtain n0 r t where s: "pk_buf pk = n0 @ ?x @ r @ t" "length n0 = k_nonceLen"
    "length ?x = pk_pos pk" "length r = pk_len pk - pk_pos pk" "length t = k_macLen"
    using packet_wf_split[OF wf] by blast
  have w: "pk_payloadLength pk = pk_pos pk" "pk_pos pk \<le> pk_len pk"
    using wf by (auto simp: packet_wf_def)
  obtain c where c: "aead_enc ae nonce k ?x = Some c" "length c = length ?x + k_macLen"
    using ae by (fastforce simp: aead_ok_def k_macLen_def)
  have b1: "poke 0 nonce (pk_buf pk) = nonce @ ?x @ r @ t"
    using s n by (simp add: poke_def)
  have b2: "poke k_nonceLen c (nonce @ ?x @ r @ t) = nonce @ c @ drop k_macLen (r @ t)"
    using c s n by (simp add: poke_def)
  let ?p = "pk\<lparr>pk_buf := nonce @ c @ drop k_macLen (r @ t)\<rparr>"
  have lb: "length (pk_buf ?p) = length (pk_buf pk)" using s c n by simp
  have "Encrypt ae nonce k pk = (True, ?p)"
    unfolding Encrypt_def Let_def b1 using c n s(2,3) w(1) by (simp add: b2)
  moreover have "datagram ?p = nonce @ c"
    using n c s w by (simp add: datagram_def)
  moreover have "packet_wf ?p"
    using wf lb by (simp add: packet_wf_def)
  ultimately show thesis using c lb by (intro that)
qed

lemma RecvFrom_datagram:
  assumes "k_minPacketLen < length d" "length d \<le> length (pk_buf pk)"
  obtains p' where "RecvFrom (Some (src, d)) pk = (int (length d), Some src, p')"
    "Payload p' = good (take (length d - k_minPacketLen) (drop k_nonceLen d))"
    "length (pk_buf p') = length (pk_buf pk)"
proof -
  let ?p = "set_payload_window k_nonceLen (length d - k_minPacketLen)
    (pk\<lparr>pk_buf := poke 0 d (pk_buf pk), pk_payloadLength := length d - k_minPacketLen\<rparr>)"
  have "RecvFrom (Some (src, d)) pk = (int (length d), Some src, ?p)"
    using assms by (auto simp: RecvFrom_def Let_def store_received_def k_minPacketLen_def)
  moreover have "Payload ?p = good (take (length d - k_minPacketLen) (drop k_nonceLen d))"
    using assms by (simp add: Payload_def set_payload_window_def poke_def k_lens)
  moreover have "length (pk_buf ?p) = length (pk_buf pk)"
    using assms by (simp add: set_payload_window_def length_poke)
  ultimately show thesis by (rule that)
qed

lemma RecvFrom_secret_datagram:
  assumes ae: "aead_ok ae" and n: "length nonce = k_nonceLen" and c: "aead_enc ae nonce k x = Some c"
    and x: "x \<noteq> []" and fits: "k_nonceLen + length c \<le> length (pk_buf pk)"
  obtains p' where "RecvFrom_secret ae k (Some (src, nonce @ c)) pk = (int (length (nonce @ c)), Some src, p')"
    "Payload p' = good x" "length (pk_buf p') = length (pk_buf pk)" "HasPayload p'"
proof -
  have lc: "length c = length x + k_macLen" and dec: "aead_dec ae nonce k c = Some x"
    using ae c unfolding aead_ok_def k_macLen_def by (metis option.inject)+
  let ?b = "poke 0 (nonce @ c) (pk_buf pk)"
  let ?p = "set_payload_window k_nonceLen (length x)
    (pk\<lparr>pk_buf := poke k_nonceLen x ?b, pk_payloadLength := length x\<rparr>)"
  have lx: "0 < length x" using x by simp
  have b: "take k_nonceLen ?b = nonce" "take (length c) (drop k_nonceLen ?b) = c"
    using n fits by (simp_all add: poke_def)
  have lb: "length ?b = length (pk_buf pk)" using n fits by (simp add: length_poke)
  have "RecvFrom_secret ae k (Some (src, nonce @ c)) pk = (int (length (nonce @ c)), Some src, ?p)"
    using n fits lc lx dec b
    by (simp add: RecvFrom_secret_def Let_def store_received_def k_minPacketLen_def Decrypt_def min_def)
  moreover have "Payload ?p = good x"
    using lb n fits lc by (simp add: Payload_def set_payload_window_def poke_def[of _ x] min_def)
  moreover have "length (pk_buf ?p) = length (pk_buf pk)"
    using lb fits lc by (simp add: set_payload_window_def length_poke k_lens)
  moreover have "HasPayload ?p" using lx by (simp add: HasPayload_def set_payload_window_def)
  ultimately show thesis by (rule that)
qed

text \<open>
  Whatever arrives, the payload window lies inside the buffer, the buffer keeps its size, and
  a positive return code means a non-empty payload.
\<close>

definition window_ok :: "MessagePacket \<Rightarrow> bool" where
  "window_ok pk \<longleftrightarrow> pk_off pk + pk_len pk \<le> length (pk_buf pk)"

lemma RecvFrom_window:
  "RecvFrom recvd pk = (rc, src, p') \<Longrightarrow>
   window_ok p' \<and> length (pk_buf p') = length (pk_buf pk) \<and> (rc > 0 \<longleftrightarrow> HasPayload p')"
  by (auto simp: RecvFrom_def store_received_def set_payload_window_def window_ok_def
      HasPayload_def poke_def Let_def k_lens split: option.splits prod.splits if_splits)

lemma RecvFrom6_window:
  "RecvFrom6 recvd pk = (rc, src, p') \<Longrightarrow>
   window_ok p' \<and> length (pk_buf p') = length (pk_buf pk) \<and> (rc > 0 \<longleftrightarrow> HasPayload p')"
  by (auto simp: RecvFrom6_def store_received_def set_payload_window_def window_ok_def
      HasPayload_def poke_def Let_def k_lens split: option.splits prod.splits if_splits)

lemma Decrypt_window:
  assumes ae: "aead_ok ae" and d: "Decrypt ae recvlen k pk = (rc, p')"
    and l: "recvlen \<le> length (pk_buf pk)" "k_minPacketLen < length (pk_buf pk)"
  shows "window_ok p' \<and> length (pk_buf p') = length (pk_buf pk) \<and> (rc > 0 \<longleftrightarrow> HasPayload p')"
proof (cases "k_nonceLen + k_macLen < recvlen \<and> aead_dec ae (take k_nonceLen (pk_buf pk)) k
    (take (recvlen - k_nonceLen) (drop k_nonceLen (pk_buf pk))) \<noteq> None")
  case False
  then have "rc = -1 \<and> p' = set_payload_window k_nonceLen 0 (pk\<lparr>pk_payloadLength := 0\<rparr>)"
    using d by (auto simp: Decrypt_def split: option.splits if_splits)
  with l show ?thesis by (simp add: window_ok_def set_payload_window_def HasPayload_def k_lens)
next
  case True
  then obtain x where x: "k_nonceLen + k_macLen < recvlen" "aead_dec ae (take k_nonceLen (pk_buf pk)) k
    (take (recvlen - k_nonceLen) (drop k_nonceLen (pk_buf pk))) = Some x" by auto
  then have "length (take (recvlen - k_nonceLen) (drop k_nonceLen (pk_buf pk))) = length x + 16"
    using ae unfolding aead_ok_def by blast
  then have lx: "recvlen = length x + k_minPacketLen" using x(1) l by (simp add: k_lens)
  have "rc = int recvlen \<and> p' = set_payload_window k_nonceLen (length x)
      (pk\<lparr>pk_buf := poke k_nonceLen x (pk_buf pk), pk_payloadLength := length x\<rparr>)"
    using d x by (simp add: Decrypt_def)
  with lx l x(1) show ?thesis
    by (simp add: window_ok_def set_payload_window_def HasPayload_def length_poke k_lens)
qed

lemma RecvFrom_secret_window:
  assumes ae: "aead_ok ae" and l: "k_minPacketLen < length (pk_buf pk)"
    and r: "RecvFrom_secret ae k recvd pk = (rc, src, p')"
  shows "window_ok p' \<and> length (pk_buf p') = length (pk_buf pk) \<and> (rc > 0 \<longleftrightarrow> HasPayload p')"
proof (cases "\<exists>s d. recvd = Some (s, d) \<and> k_minPacketLen < min (length (pk_buf pk)) (length d)")
  case True
  then obtain s d where d: "recvd = Some (s, d)" "k_minPacketLen < min (length (pk_buf pk)) (length d)"
    by blast
  let ?r = "take (length (pk_buf pk)) d"
  let ?q = "pk\<lparr>pk_payloadLength := 0, pk_buf := poke 0 ?r (pk_buf pk)\<rparr>"
  have lq: "length (pk_buf ?q) = length (pk_buf pk)" by (simp add: length_poke)
  have "0 < length ?r" "k_minPacketLen < length ?r" using d(2) by (auto simp: k_lens)
  then have "RecvFrom_secret ae k recvd pk = (let (rc, p2) = Decrypt ae (length ?r) k ?q in (rc, Some s, p2))"
    unfolding d(1) RecvFrom_secret_def store_received_def Let_def option.case prod.case
    by (simp del: length_take)
  then have "Decrypt ae (length ?r) k ?q = (rc, p')"
    using r by (auto simp: Let_def split: prod.splits)
  from Decrypt_window[OF ae this] show ?thesis using l lq by simp
next
  case False
  then have "(recvd = None \<longrightarrow> rc = -1 \<and> p' = set_payload_window 0 0 (pk\<lparr>pk_payloadLength := 0\<rparr>))
     \<and> (\<forall>s d. recvd = Some (s, d) \<longrightarrow> rc \<le> 0 \<and> p' = set_payload_window 0 0
          (pk\<lparr>pk_payloadLength := 0, pk_buf := poke 0 (take (length (pk_buf pk)) d) (pk_buf pk)\<rparr>))"
    using r by (auto simp: RecvFrom_secret_def store_received_def Let_def min.commute
        split: option.splits prod.splits if_splits)
  then show ?thesis
    by (cases recvd) (auto simp: window_ok_def set_payload_window_def HasPayload_def length_poke)
qed


section \<open>Packets of messages\<close>

text \<open>Adding messages until one does not fit.\<close>

fun add_messages :: "dwm_io \<Rightarrow> Message list \<Rightarrow> MessagePacket \<Rightarrow> bool \<times> MessagePacket" where
  "add_messages io [] pk = (True, pk)"
| "add_messages io (m # ms) pk =
     (let (added, p1) = Add (Message_Write io m) pk
      in if added then add_messages io ms p1 else (False, p1))"

lemma add_messages_fit:
  assumes "packet_wf pk"
    and "pk_payloadLength pk + length (concat (map (Message_enc io) ms)) \<le> pk_len pk"
  obtains p' where "add_messages io ms pk = (True, p')" "packet_wf p'"
    "payload_bytes p' = payload_bytes pk @ concat (map (Message_enc io) ms)"
    "length (pk_buf p') = length (pk_buf pk)"
  using assms
proof (induction ms arbitrary: pk thesis)
  case Nil
  then show ?case by simp
next
  case (Cons m ms)
  have "pk_pos pk + length (Message_enc io m) \<le> pk_len pk"
    using Cons.prems by (simp add: packet_wf_def)
  then obtain p1 where p1: "Add (Message_Write io m) pk = (True, p1)" "packet_wf p1"
      "payload_bytes p1 = payload_bytes pk @ Message_enc io m" "length (pk_buf p1) = length (pk_buf pk)"
    using Add_fits[OF \<open>packet_wf pk\<close> Message_Write_enc] by blast
  have "pk_len p1 = pk_len pk" using p1 Cons.prems(2) by (simp add: packet_wf_def)
  moreover have "pk_payloadLength p1 = pk_payloadLength pk + length (Message_enc io m)"
    using p1 Cons.prems(2) payload_bytes_length by (metis length_append)
  ultimately have "pk_payloadLength p1 + length (concat (map (Message_enc io) ms)) \<le> pk_len p1"
    using Cons.prems(3) by simp
  then obtain p' where "add_messages io ms p1 = (True, p')" "packet_wf p'"
      "payload_bytes p' = payload_bytes p1 @ concat (map (Message_enc io) ms)"
      "length (pk_buf p') = length (pk_buf p1)"
    using Cons.IH[OF _ p1(2)] by blast
  then show ?case using p1 by (intro Cons.prems(1)[of p']) simp_all
qed

text \<open>
  C10. \<open>MessagePacket::Add\<close> is all or nothing: on a packet being filled it returns whether the
  encoded message fits in front of the room kept for the tag; if so the payload grows by
  exactly that encoding, if not the payload is what it was, although \<open>Write\<close> has already
  stored a part of the message. The packet stays well-formed and its buffer keeps its size.
\<close>

theorem packet_add_all_or_nothing:
  assumes "packet_wf pk"
  shows "\<exists>added p'. Add (Message_Write io msg) pk = (added, p') \<and> packet_wf p'
    \<and> length (pk_buf p') = length (pk_buf pk)
    \<and> added = (pk_payloadLength pk + length (Message_enc io msg) + k_minPacketLen \<le> length (pk_buf pk))
    \<and> payload_bytes p' = payload_bytes pk @ (if added then Message_enc io msg else [])"
proof -
  have wf: "pk_pos pk = pk_payloadLength pk" "length (pk_buf pk) = pk_len pk + k_minPacketLen"
    using assms by (auto simp: packet_wf_def)
  show ?thesis
  proof (cases "pk_pos pk + length (Message_enc io msg) \<le> pk_len pk")
    case True
    obtain p' where "Add (Message_Write io msg) pk = (True, p')" "packet_wf p'"
        "payload_bytes p' = payload_bytes pk @ Message_enc io msg"
        "length (pk_buf p') = length (pk_buf pk)"
      using Add_fits[OF assms Message_Write_enc True] by blast
    then show ?thesis using wf True by (intro exI[of _ True] exI[of _ p']) simp
  next
    case False
    then have f: "pk_len pk < pk_pos pk + length (Message_enc io msg)" by simp
    obtain p' where "Add (Message_Write io msg) pk = (False, p')" "packet_wf p'"
        "payload_bytes p' = payload_bytes pk" "length (pk_buf p') = length (pk_buf pk)"
      using Add_full[OF assms Message_Write_enc f] by blast
    then show ?thesis using wf False by (intro exI[of _ False] exI[of _ p']) simp
  qed
qed

definition sample_packet :: MessagePacket where
  "sample_packet = \<lparr>pk_buf = replicate 200 CHR ''#'', pk_off = 24, pk_len = 160, pk_pos = 0,
     pk_fail = False, pk_payloadLength = 0\<rparr>"

lemma sample_packet_wf: "packet_wf sample_packet"
  by (simp add: sample_packet_def packet_wf_def k_lens)

lemma packet_add_all_or_nothing_witness:
  "\<exists>added p'. Add (Message_Write sample_io sample_message) sample_packet = (added, p')
     \<and> packet_wf p' \<and> payload_bytes p' = (if added then Message_enc sample_io sample_message else [])"
  using packet_add_all_or_nothing[OF sample_packet_wf, of sample_io sample_message]
  by (auto simp: payload_bytes_def sample_packet_def)

text \<open>
  C20. Messages put into a packet that has room for them, sent encrypted and received with
  the same key into a buffer that is large enough, come out of the receiver's read loop as the
  same sequence: every \<open>Add\<close> succeeds, one datagram of nonce, ciphertext and tag is
  sent, \<open>RecvFrom\<close> returns its length, and the loop over \<open>Payload()\<close> delivers all messages.
\<close>

theorem encrypted_packet_delivery:
  assumes io: "io_ok io" and ae: "aead_ok ae" and nonce: "length nonce = k_nonceLen"
    and ms: "\<forall>m\<in>set ms. message_ok m" "ms \<noteq> []"
    and wf: "packet_wf pk" "payload_bytes pk = []"
    and fits: "length (concat (map (Message_enc io) ms)) + k_minPacketLen \<le> length (pk_buf pk)"
    and room: "length (pk_buf pk) \<le> length (pk_buf rp)"
  shows "\<exists>p1 p2 dg p3 y.
    add_messages io ms pk = (True, p1)
    \<and> SendTo_secret ae nonce sendto key dst p1 = (sendto dg dst, [(dst, dg)], p2)
    \<and> RecvFrom_secret ae key (Some (src, dg)) rp = (int (length dg), Some src, p3)
    \<and> read_loop (Message_Read io) (Payload p3) m0 = Some (ms, y)"
proof -
  let ?x = "concat (map (Message_enc io) ms)"
  have l: "pk_payloadLength pk = 0" "length (pk_buf pk) = pk_len pk + k_minPacketLen"
    using wf payload_bytes_length[OF wf(1)] by (auto simp: packet_wf_def)
  have "pk_payloadLength pk + length ?x \<le> pk_len pk" using l fits by simp
  from add_messages_fit[OF wf(1) this] obtain p1 where p1: "add_messages io ms pk = (True, p1)"
      "packet_wf p1" "payload_bytes p1 = ?x" "length (pk_buf p1) = length (pk_buf pk)"
    using wf(2) by auto
  obtain p2 c where p2: "Encrypt ae nonce key p1 = (True, p2)" "aead_enc ae nonce key ?x = Some c"
      "datagram p2 = nonce @ c" "length c = length ?x + k_macLen"
    using Encrypt_datagram[OF ae p1(2) nonce, of key] p1(3) by metis
  have "hd ms \<in> set ms" using ms(2) by simp
  then have ne: "?x \<noteq> []" using message_codec.wr_nonempty[OF io] ms(1) by auto
  have "k_nonceLen + length c \<le> length (pk_buf rp)"
    using p2(4) fits room by (simp add: k_minPacketLen_def)
  from RecvFrom_secret_datagram[OF ae nonce p2(2) ne this, of src] obtain p3 where
    p3: "RecvFrom_secret ae key (Some (src, nonce @ c)) rp = (int (length (nonce @ c)), Some src, p3)"
      "Payload p3 = good ?x" by metis
  obtain y where "read_loop (Message_Read io) (good ?x) m0 = Some (ms, y)"
    using message_codec.loop_concat[OF io ms(1), of m0] by blast
  then show ?thesis using p1 p2 p3 by (auto simp: SendTo_secret_def Let_def)
qed

lemma sample_message_length: "length (Message_enc sample_io sample_message) = 58"
  by (simp add: sample_message_def sample_io_def Message_enc_def MessageHeader_enc_def
      Timestamp_enc_def MessageOrigin_enc_def sample_enc_def sample_enc_str_def show_nat.simps)

lemma encrypted_packet_delivery_witness:
  "\<exists>p1 p2 dg p3 y.
    add_messages sample_io [sample_message, sample_message] sample_packet = (True, p1)
    \<and> SendTo_secret sample_aead (replicate 24 CHR ''n'') (\<lambda>d _. int (length d)) ''key''
        (UdpEndpoint (0 :: nat) 3737) p1 = (int (length dg), [(UdpEndpoint 0 3737, dg)], p2)
    \<and> RecvFrom_secret sample_aead ''key'' (Some (\<lparr>sin_addr = 1, sin_port = 2\<rparr>, dg)) sample_packet
        = (int (length dg), Some \<lparr>sin_addr = 1, sin_port = 2\<rparr>, p3)
    \<and> read_loop (Message_Read sample_io) (Payload p3) sample_message
        = Some ([sample_message, sample_message], y)"
  by (rule encrypted_packet_delivery)
    (simp_all add: sample_io_ok sample_aead_ok sample_message_ok sample_packet_wf sample_message_length
      k_lens payload_bytes_def, simp_all add: sample_packet_def)

text \<open>
  C21. Whatever datagram arrives, of any length and content, on a packet whose buffer its
  constructor accepts: the payload window stays inside the buffer, the buffer keeps its size,
  and the return code is positive exactly when there is a payload to read.
\<close>

theorem receive_stays_in_buffer:
  assumes "aead_ok ae" and "MessagePacket_new buf = Inr pk"
    and "RecvFrom_secret ae key recvd pk = (rc, src, p')" and "RecvFrom recvd pk = (rc', src', q')"
  shows "window_ok p' \<and> length (pk_buf p') = length buf \<and> (rc > 0 \<longleftrightarrow> HasPayload p')
    \<and> window_ok q' \<and> length (pk_buf q') = length buf \<and> (rc' > 0 \<longleftrightarrow> HasPayload q')"
proof -
  have "k_minPacketLen < length (pk_buf pk)" "length (pk_buf pk) = length buf"
    using MessagePacket_new_wf[OF assms(2)] by (auto simp: packet_wf_def)
  with RecvFrom_secret_window[OF assms(1) _ assms(3)] RecvFrom_window[OF assms(4)]
  show ?thesis by simp
qed

lemma receive_stays_in_buffer_witness:
  "\<exists>pk p' q'. MessagePacket_new (replicate 50 CHR ''#'') = Inr pk
     \<and> RecvFrom_secret sample_aead ''key'' (Some (\<lparr>sin_addr = 1, sin_port = 2\<rparr>, replicate 90 CHR ''x'')) pk
        = (50, Some \<lparr>sin_addr = 1, sin_port = 2\<rparr>, p')
     \<and> RecvFrom (Some (\<lparr>sin_addr = 1, sin_port = 2\<rparr>, replicate 90 CHR ''x'')) pk
        = (50, Some \<lparr>sin_addr = 1, sin_port = 2\<rparr>, q')
     \<and> window_ok p' \<and> HasPayload p' \<and> window_ok q' \<and> HasPayload q'"
proof -
  let ?r = "Some (\<lparr>sin_addr = 1, sin_port = 2\<rparr>, replicate 90 CHR ''x'')"
  obtain pk where pk: "MessagePacket_new (replicate 50 CHR ''#'') = Inr pk"
    by (simp add: MessagePacket_new_def k_lens)
  then have b: "pk_buf pk = replicate 50 CHR ''#''" by (auto simp: MessagePacket_new_def split: if_splits)
  obtain rc src p' where p': "RecvFrom_secret sample_aead ''key'' ?r pk = (rc, src, p')"
    by (cases "RecvFrom_secret sample_aead ''key'' ?r pk") auto
  obtain rc' src' q' where q': "RecvFrom ?r pk = (rc', src', q')" by (cases "RecvFrom ?r pk") auto
  have "rc = 50 \<and> src = Some \<lparr>sin_addr = 1, sin_port = 2\<rparr>"
    using p' by (simp add: RecvFrom_secret_def store_received_def b k_lens Decrypt_def sample_aead_def
        poke_def split: if_splits)
  moreover have "rc' = 50 \<and> src' = Some \<lparr>sin_addr = 1, sin_port = 2\<rparr>"
    using q' by (auto simp: RecvFrom_def store_received_def b k_lens)
  ultimately show ?thesis
    using pk p' q' receive_stays_in_buffer[OF sample_aead_ok pk p' q'] by auto
qed

end
