(* ===== verification/PacketSender.thy ===== *)
theory PacketSender
  imports MessagePacket
begin

text \<open>
  What \<open>LoopbackSender\<close> and \<open>MulticastSender\<close> have in common: a caller's thread puts messages
  into a queue, and the sender's thread (\<open>Run\<close>) waits for the queue, packs messages into a
  packet of 1200 bytes and sends it when the next message does not fit or a second has passed.
  The thread is a machine with one step per event; the queue (\<open>Dwm::Thread::Queue\<close>) is a
  parameter with the law \<open>queue_ok\<close>. The locale \<open>packet_sender\<close> states what a \<open>SendPacket\<close>
  must do, and derives that no message is lost, duplicated or reordered on the way.
\<close>

section \<open>The message queue\<close>

text \<open>\<open>q_items\<close> is the content the law talks about; no operation of the model reads it.\<close>

record ('m, 'q) queue_ops =
  q_empty :: 'q
  q_max_length :: "nat \<Rightarrow> 'q \<Rightarrow> 'q"
  q_push :: "'m \<Rightarrow> 'q \<Rightarrow> bool \<times> 'q"
  q_pop :: "'q \<Rightarrow> ('m \<times> 'q) option"
  q_items :: "'q \<Rightarrow> 'm list"

definition queue_ok :: "('m, 'q) queue_ops \<Rightarrow> bool" where
  "queue_ok qo \<longleftrightarrow>
     q_items qo (q_empty qo) = [] \<and>
     (\<forall>n q. q_items qo (q_max_length qo n q) = q_items qo q) \<and>
     (\<forall>m q ok q'. q_push qo m q = (ok, q') \<longrightarrow> q_items qo q' = q_items qo q @ (if ok then [m] else [])) \<and>
     (\<forall>q. q_pop qo q = None \<longleftrightarrow> q_items qo q = []) \<and>
     (\<forall>q m q'. q_pop qo q = Some (m, q') \<longrightarrow> q_items qo q = m # q_items qo q')"

text \<open>A queue that obeys it: a list with a limit, 0 for none.\<close>

definition sample_queue :: "('m, nat \<times> 'm list) queue_ops" where
  "sample_queue =
     \<lparr>q_empty = (0, []), q_max_length = (\<lambda>n (_, ms). (n, ms)),
      q_push = (\<lambda>m (n, ms). if n = 0 \<or> length ms < n then (True, (n, ms @ [m])) else (False, (n, ms))),
      q_pop = (\<lambda>(n, ms). case ms of [] \<Rightarrow> None | m # ms' \<Rightarrow> Some (m, (n, ms'))), q_items = snd\<rparr>"

lemma sample_queue_ok: "queue_ok sample_queue"
  by (auto simp: queue_ok_def sample_queue_def split: list.splits if_splits)

section \<open>The sending thread\<close>

text \<open>
  Where the thread is: at the test of \<open>_run\<close>, waiting in \<open>ConditionTimedWait\<close>, in the loop
  that pops messages, or past the end of \<open>Run\<close>. \<open>'d\<close> is what one \<open>SendPacket\<close> hands to the
  kernel; \<open>th_sent\<close> lists it, \<open>th_accepted\<close> the messages \<open>Process\<close> returned true for.
\<close>

datatype run_pc = AtTop | Waiting | Draining | Finished

record ('q, 'd) sender_thread =
  th_run :: bool
  th_queue :: 'q
  th_pkt :: MessagePacket
  th_pc :: run_pc
  th_sent :: "'d list"
  th_accepted :: "Message list"

datatype 'n sender_event =
    Process_call Message
  | Stop_call
  | Test_run 'n
  | Wait_returns bool 'n
  | Pop_next 'n

type_synonym ('n, 'd) send_op = "'n \<Rightarrow> MessagePacket \<Rightarrow> bool \<times> 'd \<times> MessagePacket"

text \<open>\<open>Process\<close> puts the message into the queue.\<close>

definition enqueue :: "(Message, 'q) queue_ops \<Rightarrow> Message \<Rightarrow> ('q, 'd) sender_thread \<Rightarrow> bool \<times> ('q, 'd) sender_thread" where
  "enqueue qo msg s =
     (let (ok, q) = q_push qo msg (th_queue s)
      in (ok, s\<lparr>th_queue := q, th_accepted := th_accepted s @ (if ok then [msg] else [])\<rparr>))"

definition send_now :: "('n, 'd) send_op \<Rightarrow> 'n \<Rightarrow> ('q, 'd) sender_thread \<Rightarrow> ('q, 'd) sender_thread" where
  "send_now send n s =
     (let (_, d, pkt') = send n (th_pkt s) in s\<lparr>th_pkt := pkt', th_sent := th_sent s @ [d]\<rparr>)"

text \<open>The body of the inner loop: add the message, or send what there is and add it then.\<close>

definition pack_message :: "dwm_io \<Rightarrow> ('n, 'd) send_op \<Rightarrow> 'n \<Rightarrow> Message \<Rightarrow> ('q, 'd) sender_thread \<Rightarrow> ('q, 'd) sender_thread" where
  "pack_message io send n msg s =
     (let (added, p1) = Add (Message_Write io msg) (th_pkt s); s1 = s\<lparr>th_pkt := p1\<rparr>
      in if added then s1
         else let s2 = send_now send n s1 in s2\<lparr>th_pkt := snd (Add (Message_Write io msg) (th_pkt s2))\<rparr>)"

text \<open>\<open>flush\<close>: whether \<open>Run\<close> sends what is left after its loop.\<close>

fun thread_step ::
    "(Message, 'q) queue_ops \<Rightarrow> dwm_io \<Rightarrow> ('n, 'd) send_op \<Rightarrow> bool \<Rightarrow> ('q, 'd) sender_thread \<Rightarrow> 'n sender_event
     \<Rightarrow> ('q, 'd) sender_thread" where
  "thread_step qo io send flush s (Process_call msg) = snd (enqueue qo msg s)"
| "thread_step qo io send flush s Stop_call = s\<lparr>th_run := False\<rparr>"
| "thread_step qo io send flush s (Test_run n) =
     (if th_pc s \<noteq> AtTop then s
      else if th_run s then s\<lparr>th_pc := Waiting\<rparr>
      else (if flush \<and> HasPayload (th_pkt s) then send_now send n s else s)\<lparr>th_pc := Finished\<rparr>)"
| "thread_step qo io send flush s (Wait_returns signalled n) =
     (if th_pc s \<noteq> Waiting then s
      else if signalled then s\<lparr>th_pc := Draining\<rparr>
      else (if HasPayload (th_pkt s) then send_now send n s else s)\<lparr>th_pc := AtTop\<rparr>)"
| "thread_step qo io send flush s (Pop_next n) =
     (if th_pc s \<noteq> Draining then s
      else case q_pop qo (th_queue s) of
             None \<Rightarrow> s\<lparr>th_pc := AtTop\<rparr>
           | Some (msg, q) \<Rightarrow> pack_message io send n msg (s\<lparr>th_queue := q\<rparr>))"

text \<open>\<open>char buf[1200]; MessagePacket pkt(buf, sizeof(buf))\<close> at the start of \<open>Run\<close>.\<close>

definition packet_1200 :: MessagePacket where
  "packet_1200 =
     \<lparr>pk_buf = replicate 1200 CHR 0x00, pk_off = k_nonceLen, pk_len = 1160, pk_pos = 0, pk_fail = False,
      pk_payloadLength = 0\<rparr>"

definition thread_start :: "'q \<Rightarrow> ('q, 'd) sender_thread" where
  "thread_start q =
     \<lparr>th_run = True, th_queue = q, th_pkt = packet_1200, th_pc = AtTop, th_sent = [], th_accepted = []\<rparr>"

lemma packet_1200_new: "MessagePacket_new (replicate 1200 CHR 0x00) = Inr packet_1200"
  by (simp add: MessagePacket_new_def packet_1200_def k_lens)

lemma packet_1200_wf: "packet_wf packet_1200 \<and> payload_bytes packet_1200 = [] \<and> pk_len packet_1200 = 1160"
  by (simp add: packet_wf_def packet_1200_def payload_bytes_def k_lens)

lemma payload_bound: "packet_wf pk \<Longrightarrow> pk_len pk = 1160 \<Longrightarrow> length (payload_bytes pk) \<le> 1160"
  by (simp add: payload_bytes_length packet_wf_def)

section \<open>What a sender must do, and what follows\<close>

text \<open>The message fits a packet of its own.\<close>

definition fits_packet :: "dwm_io \<Rightarrow> Message \<Rightarrow> bool" where
  "fits_packet io msg \<longleftrightarrow> length (Message_enc io msg) \<le> 1160"

definition event_fits :: "dwm_io \<Rightarrow> ('n \<Rightarrow> bool) \<Rightarrow> 'n sender_event \<Rightarrow> bool" where
  "event_fits io env_ok ev \<longleftrightarrow>
     (case ev of Process_call msg \<Rightarrow> fits_packet io msg | Stop_call \<Rightarrow> True
      | Test_run n \<Rightarrow> env_ok n | Wait_returns b n \<Rightarrow> env_ok n | Pop_next n \<Rightarrow> env_ok n)"

text \<open>
  The state in terms of messages: \<open>gs\<close> are the groups sent, one datagram each, \<open>g\<close> the
  messages in the packet; with what the queue holds they are the accepted ones in order.
\<close>

definition packed ::
    "(Message, 'q) queue_ops \<Rightarrow> dwm_io \<Rightarrow> ('d \<Rightarrow> bytes) \<Rightarrow> ('q, 'd) sender_thread \<Rightarrow> Message list list \<Rightarrow> Message list
     \<Rightarrow> bool" where
  "packed qo io payload s gs g \<longleftrightarrow>
     map payload (th_sent s) = map (\<lambda>ms. concat (map (Message_enc io) ms)) gs
     \<and> payload_bytes (th_pkt s) = concat (map (Message_enc io) g) \<and> [] \<notin> set gs
     \<and> (\<forall>d\<in>set (th_sent s). length (payload d) \<le> 1160)
     \<and> th_accepted s = concat gs @ g @ q_items qo (th_queue s)
     \<and> (\<forall>m\<in>set (th_accepted s). fits_packet io m)"

definition thread_inv ::
    "(Message, 'q) queue_ops \<Rightarrow> dwm_io \<Rightarrow> ('d \<Rightarrow> bytes) \<Rightarrow> ('q, 'd) sender_thread \<Rightarrow> bool" where
  "thread_inv qo io payload s \<longleftrightarrow>
     packet_wf (th_pkt s) \<and> pk_len (th_pkt s) = 1160 \<and> (\<exists>gs g. packed qo io payload s gs g)"

lemma thread_invE:
  assumes "thread_inv qo io payload s"
  obtains gs g where "packet_wf (th_pkt s)" "pk_len (th_pkt s) = 1160" "packed qo io payload s gs g"
  using assms by (auto simp: thread_inv_def)

lemma thread_invI:
  "packet_wf (th_pkt s) \<Longrightarrow> pk_len (th_pkt s) = 1160 \<Longrightarrow> packed qo io payload s gs g \<Longrightarrow> thread_inv qo io payload s"
  by (auto simp: thread_inv_def)

lemma packed_pc [simp]:
  "packed qo io payload (s\<lparr>th_pc := pc\<rparr>) = packed qo io payload s"
  "packed qo io payload (s\<lparr>th_run := r\<rparr>) = packed qo io payload s"
  "thread_inv qo io payload (s\<lparr>th_pc := pc\<rparr>) = thread_inv qo io payload s"
  "thread_inv qo io payload (s\<lparr>th_run := r\<rparr>) = thread_inv qo io payload s"
  by (simp_all add: packed_def thread_inv_def fun_eq_iff)

locale packet_sender =
  fixes send :: "('n, 'd) send_op"
    and payload :: "'d \<Rightarrow> bytes"
    and env_ok :: "'n \<Rightarrow> bool"
  assumes send_packet: "packet_wf pk \<Longrightarrow> env_ok n \<Longrightarrow> send n pk = (rc, d, pk') \<Longrightarrow>
      payload d = payload_bytes pk \<and> packet_wf pk' \<and> payload_bytes pk' = [] \<and> pk_len pk' = pk_len pk"
begin

lemma send_now_spec:
  assumes "packet_wf (th_pkt s)" "env_ok n"
  obtains d pk' where "send_now send n s = s\<lparr>th_pkt := pk', th_sent := th_sent s @ [d]\<rparr>"
    "payload d = payload_bytes (th_pkt s)" "packet_wf pk'" "payload_bytes pk' = []" "pk_len pk' = pk_len (th_pkt s)"
proof -
  obtain rc d pk' where s: "send n (th_pkt s) = (rc, d, pk')" by (cases "send n (th_pkt s)")
  from send_packet[OF assms s] s show thesis by (intro that[of d pk']) (simp_all add: send_now_def)
qed

lemma flush_inv:
  assumes "thread_inv qo io payload s" "env_ok n"
  shows "thread_inv qo io payload (if HasPayload (th_pkt s) then send_now send n s else s)"
proof (cases "HasPayload (th_pkt s)")
  case True
  obtain gs g where g: "packet_wf (th_pkt s)" "pk_len (th_pkt s) = 1160" "packed qo io payload s gs g"
    using assms(1) by (rule thread_invE)
  obtain d pk' where d: "send_now send n s = s\<lparr>th_pkt := pk', th_sent := th_sent s @ [d]\<rparr>"
    "payload d = payload_bytes (th_pkt s)" "packet_wf pk'" "payload_bytes pk' = []" "pk_len pk' = pk_len (th_pkt s)"
    using send_now_spec[OF g(1) assms(2)] by blast
  have "g \<noteq> []" using True g(3) HasPayload_iff[OF g(1)] by (auto simp: packed_def)
  then have "packed qo io payload (send_now send n s) (gs @ [g]) []"
    using g(3) d payload_bound[OF g(1,2)] by (simp add: packed_def)
  with True d g(2) show ?thesis by (intro thread_invI) simp_all
qed (use assms in simp)

lemma pack_message_inv:
  assumes wf: "packet_wf (th_pkt s)" "pk_len (th_pkt s) = 1160"
    and g: "packed qo io payload (s\<lparr>th_queue := q0\<rparr>) gs g" "q_items qo q0 = msg # q_items qo (th_queue s)"
    and n: "env_ok n"
  shows "thread_inv qo io payload (pack_message io send n msg s)"
proof (cases "pk_pos (th_pkt s) + length (Message_enc io msg) \<le> pk_len (th_pkt s)")
  case True
  obtain p' where p: "Add (Message_Write io msg) (th_pkt s) = (True, p')" "packet_wf p'"
      "payload_bytes p' = payload_bytes (th_pkt s) @ Message_enc io msg" "length (pk_buf p') = length (pk_buf (th_pkt s))"
    using Add_fits[OF wf(1) Message_Write_enc True] by blast
  have "pk_len p' = 1160" using p(2,4) wf by (simp add: packet_wf_def)
  moreover have "packed qo io payload (s\<lparr>th_pkt := p'\<rparr>) gs (g @ [msg])" using p(3) g by (simp add: packed_def)
  ultimately show ?thesis using p(1,2) by (intro thread_invI) (simp_all add: pack_message_def)
next
  case False
  then have "pk_len (th_pkt s) < pk_pos (th_pkt s) + length (Message_enc io msg)" by simp
  then obtain p1 where p1: "Add (Message_Write io msg) (th_pkt s) = (False, p1)" "packet_wf p1"
      "payload_bytes p1 = payload_bytes (th_pkt s)" "length (pk_buf p1) = length (pk_buf (th_pkt s))"
    using Add_full[OF wf(1) Message_Write_enc] by blast
  let ?s1 = "s\<lparr>th_pkt := p1\<rparr>"
  have l1: "pk_len p1 = 1160" using p1(2,4) wf by (simp add: packet_wf_def)
  have w1: "packet_wf (th_pkt ?s1)" using p1(2) by simp
  obtain d p2 where d: "send_now send n ?s1 = ?s1\<lparr>th_pkt := p2, th_sent := th_sent ?s1 @ [d]\<rparr>"
    "payload d = payload_bytes (th_pkt ?s1)" "packet_wf p2" "payload_bytes p2 = []" "pk_len p2 = pk_len (th_pkt ?s1)"
    using send_now_spec[OF w1 n] by blast
  have fit: "length (Message_enc io msg) \<le> 1160" using g by (simp add: packed_def fits_packet_def)
  have "pk_pos p2 = 0" using d(3,4) payload_bytes_length[OF d(3)] by (simp add: packet_wf_def)
  then have "pk_pos p2 + length (Message_enc io msg) \<le> pk_len p2" using fit l1 d(5) by simp
  then obtain p3 where p3: "Add (Message_Write io msg) p2 = (True, p3)" "packet_wf p3"
      "payload_bytes p3 = payload_bytes p2 @ Message_enc io msg" "length (pk_buf p3) = length (pk_buf p2)"
    using Add_fits[OF d(3) Message_Write_enc] by blast
  have l3: "pk_len p3 = 1160" using p3(2,4) d(3,5) l1 by (simp add: packet_wf_def)
  have "pk_pos (th_pkt s) > 0" using False fit wf(2) by simp
  then have ne: "g \<noteq> []" using g(1) payload_bytes_length[OF wf(1)] wf(1) by (auto simp: packet_wf_def packed_def)
  have e: "pack_message io send n msg s = s\<lparr>th_pkt := p3, th_sent := th_sent s @ [d]\<rparr>"
    using p1(1) d(1) p3(1) by (simp add: pack_message_def Let_def)
  have "packed qo io payload (pack_message io send n msg s) (gs @ [g]) [msg]"
    using p1(3) p3(3) d(2,4) g ne payload_bound[OF wf] by (simp add: e packed_def)
  then show ?thesis using p3(2) l3 by (intro thread_invI) (simp_all add: e)
qed

lemma thread_step_inv:
  assumes qo: "queue_ok qo" and inv: "thread_inv qo io payload s" and ev: "event_fits io env_ok ev"
  shows "thread_inv qo io payload (thread_step qo io send flush s ev)"
proof (cases ev)
  case (Process_call msg)
  obtain ok q where q: "q_push qo msg (th_queue s) = (ok, q)" by fastforce
  have i: "q_items qo q = q_items qo (th_queue s) @ (if ok then [msg] else [])"
    using qo q by (auto simp: queue_ok_def)
  obtain gs g where g: "packet_wf (th_pkt s)" "pk_len (th_pkt s) = 1160" "packed qo io payload s gs g"
    using inv by (rule thread_invE)
  have e: "thread_step qo io send flush s ev =
      s\<lparr>th_queue := q, th_accepted := th_accepted s @ (if ok then [msg] else [])\<rparr>"
    by (simp add: Process_call enqueue_def q)
  have "packed qo io payload (thread_step qo io send flush s ev) gs g"
    using g(3) i ev[unfolded Process_call] unfolding e by (auto simp: packed_def event_fits_def)
  then show ?thesis using g(1,2) unfolding e by (intro thread_invI) simp_all
next
  case Stop_call
  then show ?thesis using inv by simp
next
  case (Test_run n)
  then have n: "env_ok n" using ev by (simp add: event_fits_def)
  show ?thesis using flush_inv[OF inv n] inv Test_run by (auto split: if_splits)
next
  case (Wait_returns b n)
  then have n: "env_ok n" using ev by (simp add: event_fits_def)
  show ?thesis using flush_inv[OF inv n] inv Wait_returns by (auto split: if_splits)
next
  case (Pop_next n)
  then have n: "env_ok n" using ev by (simp add: event_fits_def)
  obtain gs g where g: "packet_wf (th_pkt s)" "pk_len (th_pkt s) = 1160" "packed qo io payload s gs g"
    using inv by (rule thread_invE)
  show ?thesis
  proof (cases "th_pc s = Draining \<and> q_pop qo (th_queue s) \<noteq> None")
    case False
    then show ?thesis using inv Pop_next by (auto split: option.splits)
  next
    case True
    then obtain msg q where mq: "q_pop qo (th_queue s) = Some (msg, q)" by auto
    then have i: "q_items qo (th_queue s) = msg # q_items qo q" using qo by (simp add: queue_ok_def)
    have "thread_inv qo io payload (pack_message io send n msg (s\<lparr>th_queue := q\<rparr>))"
      by (rule pack_message_inv[where ?q0.0 = "th_queue s" and gs = gs and g = g]) (use g i n in simp_all)
    then show ?thesis using Pop_next True mq by simp
  qed
qed

lemma thread_start_inv: "queue_ok qo \<Longrightarrow> q_items qo q = [] \<Longrightarrow> thread_inv qo io payload (thread_start q)"
  using packet_1200_wf
  by (intro thread_invI[where gs = "[]" and g = "[]"]) (auto simp: packed_def thread_start_def)

text \<open>Each datagram reads back as the messages of its group.\<close>

lemma groups_decode:
  assumes io: "io_ok io" and p: "packed qo io payload s gs g" and ok: "\<forall>m\<in>set (th_accepted s). message_ok m"
  shows "list_all2 (\<lambda>d ms. \<exists>y. read_loop (Message_Read io) (good (payload d)) m0 = Some (ms, y)) (th_sent s) gs"
proof -
  have l: "length (th_sent s) = length gs"
    using p by (metis length_map packed_def)
  have "\<exists>y. read_loop (Message_Read io) (good (payload (th_sent s ! i))) m0 = Some (gs ! i, y)" if i: "i < length gs" for i
  proof -
    have "map payload (th_sent s) ! i = map (\<lambda>ms. concat (map (Message_enc io) ms)) gs ! i" using p by (simp add: packed_def)
    then have e: "payload (th_sent s ! i) = concat (map (Message_enc io) (gs ! i))" using i l by simp
    have "\<forall>m\<in>set (gs ! i). message_ok m" using ok p i by (auto simp: packed_def)
    from message_codec.loop_concat[OF io this, of m0] show ?thesis by (auto simp: e)
  qed
  with l show ?thesis by (simp add: list_all2_conv_all_nth)
qed

lemma thread_run_inv:
  assumes "queue_ok qo" "thread_inv qo io payload s" "list_all (event_fits io env_ok) evs"
  shows "thread_inv qo io payload (run_events (thread_step qo io send flush) s evs)"
  using assms(2,3) by (induction evs arbitrary: s) (auto intro: thread_step_inv assms(1))

end

section \<open>A schedule that empties the sender\<close>

lemma pack_message_frame:
  "th_pc (pack_message io send n msg s) = th_pc s" "th_run (pack_message io send n msg s) = th_run s"
  "th_queue (pack_message io send n msg s) = th_queue s" "th_accepted (pack_message io send n msg s) = th_accepted s"
  by (simp_all add: pack_message_def send_now_def Let_def split: prod.split)

lemma pops_drain:
  assumes "queue_ok qo" "th_pc s = Draining"
    "s' = run_events (thread_step qo io send flush) s (replicate (Suc (length (q_items qo (th_queue s)))) (Pop_next n))"
  shows "th_pc s' = AtTop \<and> q_items qo (th_queue s') = [] \<and> th_run s' = th_run s \<and> th_accepted s' = th_accepted s"
  unfolding assms(3) using assms(2)
proof (induction "q_items qo (th_queue s)" arbitrary: s)
  case Nil
  then have "q_pop qo (th_queue s) = None" using assms(1) by (simp add: queue_ok_def)
  with Nil show ?case by simp
next
  case (Cons m ms)
  then have "q_pop qo (th_queue s) \<noteq> None" using assms(1) by (auto simp: queue_ok_def)
  then obtain msg q where q: "q_pop qo (th_queue s) = Some (msg, q)" by auto
  then have i: "q_items qo (th_queue s) = msg # q_items qo q" using assms(1) by (simp add: queue_ok_def)
  let ?t = "pack_message io send n msg (s\<lparr>th_queue := q\<rparr>)"
  have t: "q_items qo (th_queue ?t) = q_items qo q" "th_pc ?t = Draining" "th_run ?t = th_run s" "th_accepted ?t = th_accepted s"
    using Cons.prems by (simp_all add: pack_message_frame)
  have "ms = q_items qo (th_queue ?t)" using Cons.hyps(2) i t(1) by simp
  from Cons.hyps(1)[OF this t(2)] show ?case using Cons.prems q t i by simp
qed

definition drain_schedule :: "nat \<Rightarrow> 'n \<Rightarrow> 'n sender_event list" where
  "drain_schedule k n = [Test_run n, Wait_returns True n] @ replicate (Suc k) (Pop_next n) @ [Test_run n, Wait_returns False n]"

lemma drain_schedule_fits: "env_ok n \<Longrightarrow> list_all (event_fits io env_ok) (drain_schedule k n)"
  by (simp add: drain_schedule_def event_fits_def list_all_iff)

context packet_sender begin

text \<open>After the schedule nothing is left to be sent.\<close>

lemma drain_empties:
  assumes qo: "queue_ok qo" and inv: "thread_inv qo io payload s" and s: "th_pc s = AtTop" "th_run s" and n: "env_ok n"
    and io: "io_ok io" "\<forall>m\<in>set (th_accepted s). message_ok m"
    and s': "s' = run_events (thread_step qo io send flush) s (drain_schedule (length (q_items qo (th_queue s))) n)"
  obtains gs where "packed qo io payload s' gs []" "th_accepted s' = th_accepted s" "concat gs = th_accepted s"
proof -
  let ?s1 = "s\<lparr>th_pc := Draining\<rparr>"
  define s2 where "s2 = run_events (thread_step qo io send flush) ?s1 (replicate (Suc (length (q_items qo (th_queue s)))) (Pop_next n))"
  have p: "th_pc s2 = AtTop" "q_items qo (th_queue s2) = []" "th_run s2" "th_accepted s2 = th_accepted s"
    using pops_drain[OF qo, of ?s1 s2 io send flush n] s by (simp_all add: s2_def)
  have i2: "thread_inv qo io payload s2"
    unfolding s2_def by (rule thread_run_inv[OF qo]) (use inv n in \<open>simp_all add: list_all_iff event_fits_def\<close>)
  have e: "s' = (if HasPayload (th_pkt s2) then send_now send n (s2\<lparr>th_pc := Waiting\<rparr>) else s2\<lparr>th_pc := Waiting\<rparr>)\<lparr>th_pc := AtTop\<rparr>"
    using s p(1,3) by (simp add: s' drain_schedule_def run_events_append s2_def del: replicate.simps)
  obtain gs g where g: "packet_wf (th_pkt s2)" "packed qo io payload s2 gs g" and l: "pk_len (th_pkt s2) = 1160"
    using i2 by (rule thread_invE)
  show thesis
  proof (cases "HasPayload (th_pkt s2)")
    case True
    let ?w = "s2\<lparr>th_pc := Waiting\<rparr>"
    have "packet_wf (th_pkt ?w)" using g(1) by simp
    from send_now_spec[OF this n] obtain d pk' where d: "send_now send n ?w = ?w\<lparr>th_pkt := pk', th_sent := th_sent ?w @ [d]\<rparr>"
      "payload d = payload_bytes (th_pkt ?w)" "payload_bytes pk' = []" by metis
    have "g \<noteq> []" using True g HasPayload_iff[OF g(1)] by (auto simp: packed_def)
    then have pk: "packed qo io payload s' (gs @ [g]) []"
      using g(2) d True payload_bound[OF g(1) l] unfolding e by (simp add: packed_def)
    have "th_accepted s' = th_accepted s" "q_items qo (th_queue s') = []" using p(2,4) d(1) True by (simp_all add: e)
    then show thesis using that[OF pk] pk by (simp add: packed_def)
  next
    case False
    then have "payload_bytes (th_pkt s2) = []" using HasPayload_iff[OF g(1)] by simp
    then have "concat (map (Message_enc io) g) = []" using g(2) by (simp add: packed_def)
    moreover have "\<forall>m\<in>set g. Message_enc io m \<noteq> []"
      using message_codec.wr_nonempty[OF io(1)] io(2) g(2) p(4) by (auto simp: packed_def)
    ultimately have "g = []" by (cases g) auto
    then have pk: "packed qo io payload s2 gs []" using g(2) by simp
    then have "concat gs = th_accepted s" using p(2,4) by (simp add: packed_def)
    then show thesis by (intro that[of gs]) (use False pk p(4) in \<open>simp_all add: e\<close>)
  qed
qed

end

end
