(* ===== verification/FileLogger.thy ===== *)
theory FileLogger
  imports LogFiles PacketSender
begin

text \<open>
  \<open>DwmMclogFileLogger.{hh,cc}\<close>: the sink of \<open>mclogd\<close> that writes messages to files. \<open>Process\<close>
  puts a message into a queue; a thread waits, takes all that is queued at once and hands
  each message to \<open>LogFiles\<close>. The thread is a machine with one step per event. The queue of
  libDwm is a parameter with the law \<open>swap_ok\<close>. What the class itself logs by \<open>MCLOG\<close> is left
  out. The lemmas: the thread implements \<open>LogFiles\<close> on the accepted messages in their order;
  what is still queued when it is stopped; and what happens without any configured file.
\<close>

section \<open>State\<close>

record 'q swap_ops =
  sw_queue :: "(Message, 'q) queue_ops"
  sw_swap :: "Message list \<Rightarrow> 'q \<Rightarrow> Message list \<times> 'q"

abbreviation sw_items :: "'q swap_ops \<Rightarrow> 'q \<Rightarrow> Message list" where
  "sw_items so \<equiv> q_items (sw_queue so)"

definition swap_ok :: "'q swap_ops \<Rightarrow> bool" where
  "swap_ok so \<longleftrightarrow> queue_ok (sw_queue so) \<and>
     (\<forall>ms q. fst (sw_swap so ms q) = sw_items so q \<and> sw_items so (snd (sw_swap so ms q)) = ms)"

definition sample_swap :: "(nat \<times> Message list) swap_ops" where
  "sample_swap = \<lparr>sw_queue = sample_queue, sw_swap = (\<lambda>ms (n, q). (q, (n, ms)))\<rparr>"

lemma sample_swap_ok: "swap_ok sample_swap"
  by (simp add: swap_ok_def sample_swap_def sample_queue_ok) (simp add: sample_queue_def)

text \<open>
  The unchanging parts: regular expressions, accounts, queue, and the message a filter is
  first tried on.
\<close>

record 'q file_ctx =
  fx_rx :: rx_ops
  fx_replace :: "string \<Rightarrow> string \<Rightarrow> string"
  fx_accounts :: accounts
  fx_msg :: Message
  fx_queue :: "'q swap_ops"

text \<open>
  Where the thread is: at the test of \<open>_run\<close>, in \<open>ConditionWait\<close>, in the loop over what it has
  taken (with what is left of it), past the end, or ended by an exception, and the process with it.
\<close>

datatype file_pc = At_test | In_wait | Handling "Message list" | Done | Thrown exn

text \<open>The last two members record what happened: the messages accepted, and those handled.\<close>

record 'q FileLogger =
  fl_thread :: bool
  fl_inQueue :: 'q
  fl_run :: bool
  fl_logFiles :: LogFiles
  fl_pc :: file_pc
  fl_accepted :: "Message list"
  fl_handled :: "(lf_env \<times> Message) list"

definition FileLogger_new :: "'q file_ctx \<Rightarrow> 'q FileLogger" where
  "FileLogger_new c =
     \<lparr>fl_thread = False, fl_inQueue = q_max_length (sw_queue (fx_queue c)) 1000 (q_empty (sw_queue (fx_queue c))),
      fl_run = False, fl_logFiles = LogFiles_new, fl_pc = Done, fl_accepted = [], fl_handled = []\<rparr>"

section \<open>Operations\<close>

text \<open>A thread assigned over one that was not joined terminates the process.\<close>

definition FileLogger_Start :: "'q file_ctx \<Rightarrow> FilesConfig \<Rightarrow> 'q FileLogger \<Rightarrow> (bool \<times> 'q FileLogger) result" where
  "FileLogger_Start c filescfg s =
     (if fc_logs filescfg = [] then Inr (True, s)
      else
        let s1 = s\<lparr>fl_logFiles := Configure (fx_rx c) (fx_msg c) filescfg (fl_logFiles s), fl_run := True\<rparr>
        in if fl_thread s1 then Inl Terminated else Inr (True, s1\<lparr>fl_thread := True, fl_pc := At_test\<rparr>))"

definition FileLogger_Process :: "'q file_ctx \<Rightarrow> Message \<Rightarrow> 'q FileLogger \<Rightarrow> bool \<times> 'q FileLogger" where
  "FileLogger_Process c msg s =
     (let (ok, q) = q_push (sw_queue (fx_queue c)) msg (fl_inQueue s)
      in (ok, s\<lparr>fl_inQueue := q, fl_accepted := fl_accepted s @ (if ok then [msg] else [])\<rparr>))"

datatype file_event = Log_call Message | Test_run | Wait_over | Handle_next lf_env

text \<open>\<open>Run\<close>, one event at a time; the exception of a handled message leaves it.\<close>

fun FileLogger_Run :: "'q file_ctx \<Rightarrow> 'q FileLogger \<times> disk \<Rightarrow> file_event \<Rightarrow> 'q FileLogger \<times> disk" where
  "FileLogger_Run c (s, dk) (Log_call msg) = (snd (FileLogger_Process c msg s), dk)"
| "FileLogger_Run c (s, dk) Test_run =
     (if fl_pc s = At_test then (s\<lparr>fl_pc := (if fl_run s then In_wait else Done)\<rparr>, dk) else (s, dk))"
| "FileLogger_Run c (s, dk) Wait_over =
     (if fl_pc s = In_wait then
        let (msgs, q) = sw_swap (fx_queue c) [] (fl_inQueue s) in (s\<lparr>fl_inQueue := q, fl_pc := Handling msgs\<rparr>, dk)
      else (s, dk))"
| "FileLogger_Run c (s, dk) (Handle_next e) =
     (case fl_pc s of
        Handling [] \<Rightarrow> (s\<lparr>fl_pc := At_test\<rparr>, dk)
      | Handling (msg # msgs) \<Rightarrow>
          let (r, ls, dk') = LogFiles_Process (fx_rx c) (fx_replace c) e (fx_accounts c) msg (fl_logFiles s, dk);
              s' = s\<lparr>fl_logFiles := ls, fl_handled := fl_handled s @ [(e, msg)]\<rparr>
          in (s'\<lparr>fl_pc := (case r of Inl ex \<Rightarrow> Thrown ex | Inr _ \<Rightarrow> Handling msgs)\<rparr>, dk')
      | _ \<Rightarrow> (s, dk))"

text \<open>
  \<open>Stop\<close> signals the thread and joins it: \<open>evs\<close> are the steps it still makes, and \<open>None\<close> says
  that it has not ended after them.
\<close>

definition FileLogger_Stop ::
    "'q file_ctx \<Rightarrow> file_event list \<Rightarrow> 'q FileLogger \<times> disk \<Rightarrow> (bool \<times> 'q FileLogger \<times> disk) option" where
  "FileLogger_Stop c evs sd =
     (case sd of (s, dk) \<Rightarrow>
        let s1 = s\<lparr>fl_run := False\<rparr>
        in if fl_thread s1 then
             case run_events (FileLogger_Run c) (s1, dk) evs of (s2, dk2) \<Rightarrow>
               if fl_pc s2 = Done then Some (True, s2\<lparr>fl_thread := False, fl_logFiles := LogFiles_Close (fl_logFiles s2)\<rparr>, dk2)
               else None
           else Some (False, s1\<lparr>fl_logFiles := LogFiles_Close (fl_logFiles s1)\<rparr>, dk))"

definition FileLogger_Restart ::
    "'q file_ctx \<Rightarrow> file_event list \<Rightarrow> FilesConfig \<Rightarrow> 'q FileLogger \<times> disk \<Rightarrow> ((bool \<times> 'q FileLogger) result \<times> disk) option" where
  "FileLogger_Restart c evs filescfg sd =
     map_option (\<lambda>(_, s, dk). (FileLogger_Start c filescfg s, dk)) (FileLogger_Stop c evs sd)"

section \<open>The thread implements the log files\<close>

definition pending :: "'q FileLogger \<Rightarrow> Message list" where
  "pending s = (case fl_pc s of Handling msgs \<Rightarrow> msgs | _ \<Rightarrow> [])"

text \<open>
  \<open>st0\<close> is the state of files and disk when the thread was started, \<open>n\<close> the number of messages
  handled before.
\<close>

definition file_inv :: "'q file_ctx \<Rightarrow> LogFiles \<times> disk \<Rightarrow> nat \<Rightarrow> 'q FileLogger \<times> disk \<Rightarrow> bool" where
  "file_inv c st0 n = (\<lambda>(s, dk). swap_ok (fx_queue c) \<and> n \<le> length (fl_handled s)
     \<and> (fl_logFiles s, dk) = run_events (process_event (fx_rx c) (fx_replace c) (fx_accounts c)) st0 (drop n (fl_handled s))
     \<and> (\<exists>rest. fl_accepted s = map snd (fl_handled s) @ rest
          \<and> ((\<forall>ex. fl_pc s \<noteq> Thrown ex) \<longrightarrow> rest = pending s @ sw_items (fx_queue c) (fl_inQueue s))))"

lemma file_inv_cong:
  assumes "fl_logFiles s' = fl_logFiles s" "fl_handled s' = fl_handled s" "fl_accepted s' = fl_accepted s"
    "\<forall>ex. fl_pc s \<noteq> Thrown ex" "pending s' @ sw_items (fx_queue c) (fl_inQueue s') = pending s @ sw_items (fx_queue c) (fl_inQueue s)"
  shows "file_inv c st0 n (s, dk) \<Longrightarrow> file_inv c st0 n (s', dk)"
  using assms by (simp add: file_inv_def)

lemma file_step_inv:
  assumes i: "file_inv c st0 n sd"
  shows "file_inv c st0 n (FileLogger_Run c sd ev)"
proof -
  obtain s dk where sd: "sd = (s, dk)" by fastforce
  have so: "swap_ok (fx_queue c)" "queue_ok (sw_queue (fx_queue c))" using i by (auto simp: file_inv_def sd swap_ok_def)
  show ?thesis
  proof (cases ev)
    case (Log_call m)
    obtain ok q where q: "q_push (sw_queue (fx_queue c)) m (fl_inQueue s) = (ok, q)" by fastforce
    then have "sw_items (fx_queue c) q = sw_items (fx_queue c) (fl_inQueue s) @ (if ok then [m] else [])"
      using so(2) by (auto simp: queue_ok_def)
    with i show ?thesis by (auto simp: Log_call sd FileLogger_Process_def q file_inv_def pending_def)
  next
    case Test_run
    show ?thesis
    proof (cases "fl_pc s = At_test")
      case True
      with i show ?thesis unfolding Test_run sd by (auto simp: pending_def intro: file_inv_cong[of _ s])
    qed (use i in \<open>simp add: Test_run sd\<close>)
  next
    case Wait_over
    show ?thesis
    proof (cases "fl_pc s = In_wait")
      case True
      obtain ms q where q: "sw_swap (fx_queue c) [] (fl_inQueue s) = (ms, q)" by fastforce
      with so(1) have "ms = sw_items (fx_queue c) (fl_inQueue s)" "sw_items (fx_queue c) q = []"
        unfolding swap_ok_def by (metis fst_conv, metis snd_conv)
      with True q i show ?thesis unfolding Wait_over sd by (auto simp: pending_def intro: file_inv_cong[of _ s])
    qed (use i in \<open>simp add: Wait_over sd\<close>)
  next
    case (Handle_next e)
    show ?thesis
    proof (cases "pending s")
      case Nil
      with i show ?thesis unfolding Handle_next sd
        by (cases "fl_pc s") (auto simp: pending_def intro: file_inv_cong[of _ s])
    next
      case (Cons m ms)
      then have pc: "fl_pc s = Handling (m # ms)" by (auto simp: pending_def split: file_pc.splits)
      obtain r ls dk' where r: "LogFiles_Process (fx_rx c) (fx_replace c) e (fx_accounts c) m (fl_logFiles s, dk) = (r, ls, dk')"
        by (cases "LogFiles_Process (fx_rx c) (fx_replace c) e (fx_accounts c) m (fl_logFiles s, dk)")
      then have p: "process_event (fx_rx c) (fx_replace c) (fx_accounts c) (fl_logFiles s, dk) (e, m) = (ls, dk')"
        by (simp add: process_event_def)
      show ?thesis using i pc r p
        by (cases r) (auto simp: Handle_next sd file_inv_def run_events_append pending_def)
    qed
  qed
qed

interpretation file_logger: event_machine "FileLogger_Run c" "file_inv c st0 n" "\<lambda>_. True" for c st0 n
  by unfold_locales (rule file_step_inv)

lemma Start_inv:
  assumes "swap_ok (fx_queue c)" "fl_accepted s = map snd (fl_handled s) @ sw_items (fx_queue c) (fl_inQueue s)"
    "FileLogger_Start c fc s = Inr (rc, s')" "fc_logs fc \<noteq> []"
  shows "file_inv c (Configure (fx_rx c) (fx_msg c) fc (fl_logFiles s), dk) (length (fl_handled s)) (s', dk)"
  using assms by (auto simp: FileLogger_Start_def file_inv_def pending_def Let_def split: if_splits)

section \<open>Properties\<close>

text \<open>
  The file logger implements \<open>LogFiles\<close>: from its start on, whatever the interleaving of
  callers and thread, the state of the log files and of the disk is the one that
  \<open>LogFiles\<close> reaches, from the configuration, on the messages handled so far one after the other, and
  these are the first of the accepted messages in their order; unless an exception has ended the
  process, all others are still in the thread's hands or queued.
\<close>

theorem file_logger_refines_log_files:
  assumes "swap_ok (fx_queue c)" "fc_logs fc \<noteq> []" "FileLogger_Start c fc (FileLogger_new c) = Inr (True, s0)"
    "(s, dk) = run_events (FileLogger_Run c) (s0, dk0) evs"
  shows "(fl_logFiles s, dk) = run_events (process_event (fx_rx c) (fx_replace c) (fx_accounts c))
      (Configure (fx_rx c) (fx_msg c) fc LogFiles_new, dk0) (fl_handled s)
    \<and> (\<exists>rest. fl_accepted s = map snd (fl_handled s) @ rest)
    \<and> ((\<forall>ex. fl_pc s \<noteq> Thrown ex) \<longrightarrow>
         fl_accepted s = map snd (fl_handled s) @ pending s @ sw_items (fx_queue c) (fl_inQueue s))"
proof -
  have "file_inv c (Configure (fx_rx c) (fx_msg c) fc LogFiles_new, dk0) 0 (s0, dk0)"
    using Start_inv[OF assms(1) _ assms(3,2), of dk0] assms(1) by (simp add: FileLogger_new_def swap_ok_def queue_ok_def)
  from file_logger.inv_run[OF this, of evs] have "file_inv c (Configure (fx_rx c) (fx_msg c) fc LogFiles_new, dk0) 0 (s, dk)"
    by (simp add: assms(4) list_all_iff)
  then show ?thesis by (auto simp: file_inv_def)
qed

text \<open>
  Without a configured file nothing is logged and nothing is said: \<open>Start\<close> reports success but
  runs no thread, \<open>Process\<close> accepts messages until the queue is full, and a later start with
  files finds them all still queued, before any new message.
\<close>

theorem file_logger_without_files:
  assumes "swap_ok (fx_queue c)" "fc_logs fc = []" "FileLogger_Start c fc (FileLogger_new c) = Inr (rc, s0)"
    "(s, dk) = run_events (FileLogger_Run c) (s0, dk0) evs" "fc_logs fc' \<noteq> []"
  shows "rc \<and> \<not> fl_thread s \<and> dk = dk0 \<and> fl_handled s = [] \<and> sw_items (fx_queue c) (fl_inQueue s) = fl_accepted s
    \<and> (\<exists>s'. FileLogger_Start c fc' s = Inr (True, s') \<and> fl_inQueue s' = fl_inQueue s \<and> fl_pc s' = At_test)"
proof -
  have s0: "rc" "s0 = FileLogger_new c" using assms(2,3) by (auto simp: FileLogger_Start_def)
  have run: "\<not> fl_thread (fst p) \<and> snd p = dk0 \<and> fl_handled (fst p) = []
      \<and> sw_items (fx_queue c) (fl_inQueue (fst p)) = fl_accepted (fst p) \<and> fl_pc (fst p) = Done"
    if "p = run_events (FileLogger_Run c) sd evs" "\<not> fl_thread (fst sd) \<and> snd sd = dk0 \<and> fl_handled (fst sd) = []
      \<and> sw_items (fx_queue c) (fl_inQueue (fst sd)) = fl_accepted (fst sd) \<and> fl_pc (fst sd) = Done" for p sd
    using that
  proof (induction evs arbitrary: sd)
    case (Cons ev evs)
    obtain s dk where sd: "sd = (s, dk)" by fastforce
    obtain ok q where q: "q_push (sw_queue (fx_queue c)) m (fl_inQueue s) = (ok m, q m)" for m
      by (rule that[of "\<lambda>m. fst (q_push (sw_queue (fx_queue c)) m (fl_inQueue s))" "\<lambda>m. snd (q_push (sw_queue (fx_queue c)) m (fl_inQueue s))"]) simp
    have "sw_items (fx_queue c) (q m) = sw_items (fx_queue c) (fl_inQueue s) @ (if ok m then [m] else [])" for m
      using assms(1) q unfolding swap_ok_def queue_ok_def by metis
    then show ?case using Cons.prems sd q
      by (intro Cons.IH[of "FileLogger_Run c sd ev"]) (cases ev; simp add: FileLogger_Process_def)+
  qed simp
  have "\<not> fl_thread s0 \<and> fl_handled s0 = [] \<and> sw_items (fx_queue c) (fl_inQueue s0) = fl_accepted s0 \<and> fl_pc s0 = Done"
    using assms(1) by (simp add: s0(2) FileLogger_new_def swap_ok_def queue_ok_def)
  with run[OF assms(4)]
  have "\<not> fl_thread s \<and> dk = dk0 \<and> fl_handled s = [] \<and> sw_items (fx_queue c) (fl_inQueue s) = fl_accepted s" by simp
  then show ?thesis using s0(1) assms(5) by (simp add: FileLogger_Start_def)
qed

text \<open>
  C35. \<open>Stop\<close> does not wait for the queue: if it comes while the thread is about to test
  whether it should run, it reports success, and a message accepted just before is still in
  the queue, unwritten (it is lost when the process then exits, as \<open>mclogd\<close> does).
\<close>

theorem file_logger_stop_leaves_messages:
  assumes "swap_ok (fx_queue c)" "fl_thread s" "fl_pc s = At_test" "FileLogger_Process c m s = (True, s1)"
  shows "\<exists>s2. FileLogger_Stop c [Test_run] (s1, dk) = Some (True, s2, dk) \<and> fl_handled s2 = fl_handled s
    \<and> sw_items (fx_queue c) (fl_inQueue s2) = sw_items (fx_queue c) (fl_inQueue s) @ [m]
    \<and> fl_accepted s2 = fl_accepted s @ [m]"
proof -
  obtain q where q: "q_push (sw_queue (fx_queue c)) m (fl_inQueue s) = (True, q)"
    "s1 = s\<lparr>fl_inQueue := q, fl_accepted := fl_accepted s @ [m]\<rparr>"
    using assms(4) by (cases "q_push (sw_queue (fx_queue c)) m (fl_inQueue s)") (auto simp: FileLogger_Process_def)
  have "sw_items (fx_queue c) q = sw_items (fx_queue c) (fl_inQueue s) @ [m]"
    using assms(1) q(1) unfolding swap_ok_def queue_ok_def by fastforce
  then show ?thesis using assms(2,3) q(2) by (simp add: FileLogger_Stop_def)
qed

section \<open>Witnesses\<close>

definition sample_file_ctx :: "(nat \<times> Message list) file_ctx" where
  "sample_file_ctx = \<lparr>fx_rx = sample_rx, fx_replace = sample_replace, fx_accounts = sample_accounts, fx_msg = sample_message,
     fx_queue = sample_swap\<rparr>"

definition sample_file_logger :: "(nat \<times> Message list) FileLogger" where
  "sample_file_logger = snd (projr (FileLogger_Start sample_file_ctx sample_files (FileLogger_new sample_file_ctx)))"

lemma sample_file_start:
  "FileLogger_Start sample_file_ctx sample_files (FileLogger_new sample_file_ctx) = Inr (True, sample_file_logger)"
  by (simp add: sample_file_logger_def FileLogger_Start_def FileLogger_new_def Let_def)

lemma sample_file_ctx_ok: "swap_ok (fx_queue sample_file_ctx)" "fc_logs sample_files \<noteq> []"
  by (simp_all add: sample_file_ctx_def sample_swap_ok sample_files_def)

lemma sample_file_state:
  "fl_thread sample_file_logger" "fl_pc sample_file_logger = At_test" "fl_inQueue sample_file_logger = (1000, [])"
  "fl_accepted sample_file_logger = []" "fl_handled sample_file_logger = []" "fl_run sample_file_logger"
  by (simp_all add: sample_file_logger_def FileLogger_Start_def FileLogger_new_def sample_file_ctx_def sample_swap_def
      sample_queue_def sample_files_def Let_def)

lemma sample_file_sel:
  "fx_rx sample_file_ctx = sample_rx" "fx_replace sample_file_ctx = sample_replace" "fx_accounts sample_file_ctx = sample_accounts"
  "fx_msg sample_file_ctx = sample_message" "fx_queue sample_file_ctx = sample_swap"
  by (simp_all add: sample_file_ctx_def)

definition sample_disk :: disk where
  "sample_disk p = \<lparr>w_parent = NoDir, w_cmds = []\<rparr>"

lemma file_logger_refines_log_files_witness:
  "let s = run_events (FileLogger_Run sample_file_ctx) (sample_file_logger, sample_disk)
       [Log_call sample_message, Test_run, Wait_over, Handle_next sample_env]
   in (fl_logFiles (fst s), snd s) = run_events (process_event sample_rx sample_replace sample_accounts)
      (Configure sample_rx sample_message sample_files LogFiles_new, sample_disk) [(sample_env, sample_message)]"
proof -
  let ?p = "run_events (FileLogger_Run sample_file_ctx) (sample_file_logger, sample_disk)
       [Log_call sample_message, Test_run, Wait_over, Handle_next sample_env]"
  have "(fst ?p, snd ?p) = ?p" by simp
  from file_logger_refines_log_files[OF sample_file_ctx_ok sample_file_start this]
  have r: "(fl_logFiles (fst ?p), snd ?p) = run_events (process_event sample_rx sample_replace sample_accounts)
      (Configure sample_rx sample_message sample_files LogFiles_new, sample_disk) (fl_handled (fst ?p))"
    unfolding sample_file_sel by blast
  have h: "fl_handled (fst ?p) = [(sample_env, sample_message)]"
    by (simp add: FileLogger_Process_def sample_file_state sample_file_ctx_def sample_swap_def sample_queue_def case_prod_beta Let_def)
  show ?thesis unfolding Let_def r h ..
qed

lemma file_logger_without_files_witness:
  "sw_items sample_swap (fl_inQueue (fst (run_events (FileLogger_Run sample_file_ctx) (FileLogger_new sample_file_ctx, sample_disk)
      [Log_call sample_message, Test_run]))) = [sample_message]"
proof -
  let ?p = "run_events (FileLogger_Run sample_file_ctx) (FileLogger_new sample_file_ctx, sample_disk) [Log_call sample_message, Test_run]"
  have st: "FileLogger_Start sample_file_ctx \<lparr>fc_logDirectory = ''/logs'', fc_logs = []\<rparr> (FileLogger_new sample_file_ctx)
      = Inr (True, FileLogger_new sample_file_ctx)" by (simp add: FileLogger_Start_def)
  have e: "fc_logs \<lparr>fc_logDirectory = ''/logs'', fc_logs = []\<rparr> = []" by simp
  have "(fst ?p, snd ?p) = ?p" by simp
  from file_logger_without_files[OF sample_file_ctx_ok(1) e st this sample_file_ctx_ok(2)]
  have "sw_items sample_swap (fl_inQueue (fst ?p)) = fl_accepted (fst ?p)" unfolding sample_file_sel by blast
  moreover have "fl_accepted (fst ?p) = [sample_message]"
    by (simp add: FileLogger_Process_def FileLogger_new_def sample_file_ctx_def sample_swap_def sample_queue_def)
  ultimately show ?thesis by simp
qed

lemma file_logger_stop_leaves_messages_witness:
  "\<exists>s2. FileLogger_Stop sample_file_ctx [Test_run] (snd (FileLogger_Process sample_file_ctx sample_message sample_file_logger), sample_disk)
      = Some (True, s2, sample_disk) \<and> fl_handled s2 = [] \<and> fl_accepted s2 = [sample_message]"
proof -
  have "FileLogger_Process sample_file_ctx sample_message sample_file_logger =
      (True, snd (FileLogger_Process sample_file_ctx sample_message sample_file_logger))"
    by (simp add: FileLogger_Process_def sample_file_state sample_file_sel sample_swap_def sample_queue_def)
  from file_logger_stop_leaves_messages[OF sample_file_ctx_ok(1) sample_file_state(1,2) this, of sample_disk]
  show ?thesis unfolding sample_file_state by auto
qed

end
