(* ===== verification/LogContents.thy ===== *)
theory LogContents
  imports FileLogger
begin

text \<open>
  What \<open>LogFiles\<close> and \<open>FileLogger\<close> are for, as a specification: a map from paths to formats and
  contents, which a message extends at every path that an accepting entry names. The state of the
  classes with the disk below them refines it while no file is due to be rolled: the code opens each file
  once, in its directory with other logs beside it, and appends to it. Rolling is \<open>LogFile\<close>'s.
\<close>

section \<open>The specification\<close>

type_synonym contents = "string \<Rightarrow> (FileFormat \<times> bytes) option"

definition entry_bytes :: "timezone \<Rightarrow> dwm_io \<Rightarrow> FileFormat \<Rightarrow> Message \<Rightarrow> bytes" where
  "entry_bytes z io fmt msg = (case fmt of Format_binary \<Rightarrow> Message_enc io msg | Format_text \<Rightarrow> message_put z msg)"

text \<open>The entry that opens a file says what format it has from then on.\<close>

definition add_entry :: "timezone \<Rightarrow> dwm_io \<Rightarrow> Message \<Rightarrow> LogFileConfig \<Rightarrow> (FileFormat \<times> bytes) option \<Rightarrow> (FileFormat \<times> bytes) option" where
  "add_entry z io msg cfg c =
     (let (fmt, d) = (case c of None \<Rightarrow> (lc_format cfg, []) | Some x \<Rightarrow> x) in Some (fmt, d @ entry_bytes z io fmt msg))"

definition log_spec :: "timezone \<Rightarrow> dwm_io \<Rightarrow> (Message \<Rightarrow> (string \<times> LogFileConfig) list) \<Rightarrow> contents \<Rightarrow> Message \<Rightarrow> contents" where
  "log_spec z io paths F msg = (\<lambda>p. case map_of (paths msg) p of None \<Rightarrow> F p | Some cfg \<Rightarrow> add_entry z io msg cfg (F p))"

text \<open>The paths of a message under a configuration.\<close>

definition config_paths :: "rx_ops \<Rightarrow> (string \<Rightarrow> string \<Rightarrow> string) \<Rightarrow> Message \<Rightarrow> FilesConfig \<Rightarrow> Message \<Rightarrow> (string \<times> LogFileConfig) list" where
  "config_paths rx rr msg0 fc msg =
     first_by_key (accepted_paths rx rr (fc_logDirectory fc) msg (filtered_configs rx msg0 (fc_logs fc)))"

section \<open>The state that implements it\<close>

definition file_of :: "LogFiles \<times> disk \<Rightarrow> contents" where
  "file_of = (\<lambda>(ls, dk) p.
     case ls_logFiles ls p of
       None \<Rightarrow> None
     | Some lf \<Rightarrow> (case w_parent (dk (parent_path p)) of
                    Dir dir \<Rightarrow> map_option (\<lambda>f. (lf_format lf, f_data f)) (map_of dir p)
                  | _ \<Rightarrow> None))"

text \<open>
  An open file is there and is not due to be rolled before \<open>t\<close>; a path without an open file has no file.
\<close>

definition open_at :: "int \<Rightarrow> string \<Rightarrow> LogFile \<Rightarrow> parent \<Rightarrow> bool" where
  "open_at t p lf par \<longleftrightarrow> lf_path lf = p \<and> lf_open lf \<and> \<not> lf_fail lf \<and> lf_rollSize lf \<le> 0 \<and> t \<le> EndTime (lf_rollInterval lf)
     \<and> (\<exists>dir f. par = Dir dir \<and> map_of dir p = Some f)"

definition absent :: "string \<Rightarrow> parent \<Rightarrow> bool" where
  "absent p par \<longleftrightarrow> par = NoDir \<or> (\<exists>dir. par = Dir dir \<and> map_of dir p = None)"

definition writing_inv :: "int \<Rightarrow> LogFiles \<times> disk \<Rightarrow> bool" where
  "writing_inv t = (\<lambda>(ls, dk). \<forall>p.
     case ls_logFiles ls p of
       Some lf \<Rightarrow> open_at t p lf (w_parent (dk (parent_path p)))
     | None \<Rightarrow> absent p (w_parent (dk (parent_path p))))"

text \<open>Surroundings in which files can be opened and written and no interval begun ends before \<open>t\<close>, which is to come.\<close>

definition quiet_env :: "int \<Rightarrow> timezone \<Rightarrow> dwm_io \<Rightarrow> LogFileConfig list \<Rightarrow> lf_env \<Rightarrow> bool" where
  "quiet_env t z io logs e \<longleftrightarrow> env_permits e \<and> e_can_create e \<and> e_zone e = z \<and> e_io e = io \<and> e_now e < t
     \<and> (\<forall>cfg\<in>set logs. lc_size cfg \<le> 0 \<and> t \<le> EndTime (RollInterval_new z (e_now e) (lc_period cfg)))"

lemma log_entry_bytes: "log_entry e lf msg = entry_bytes (e_zone e) (e_io e) (lf_format lf) msg"
  by (simp add: log_entry_def entry_bytes_def)

section \<open>One file\<close>

text \<open>Opening a file that is not there makes it, empty, and changes no other.\<close>

definition dir_of :: "parent \<Rightarrow> directory" where
  "dir_of par = (case par of Dir dir \<Rightarrow> dir | _ \<Rightarrow> [])"

lemma Open_absent:
  assumes "\<not> lf_open lf" "env_permits e" "e_can_create e" "absent (lf_path lf) (w_parent w)"
  shows "\<exists>f d. LogFile_Open e lf w =
      (Inr True, lf\<lparr>lf_open := True, lf_fail := False, lf_pos := e_append_pos e 0\<rparr>, w\<lparr>w_parent := Dir d\<rparr>)
    \<and> f_data f = [] \<and> (\<forall>x. map_of d x = (if x = lf_path lf then Some f else map_of (dir_of (w_parent w)) x))"
proof -
  let ?w = "w\<lparr>w_parent := Dir (dir_of (w_parent w))\<rparr>"
  have m: "map_of (dir_of (w_parent w)) (lf_path lf) = None" using assms(4) by (auto simp: absent_def dir_of_def)
  have w: "w_parent w = NoDir \<or> w_parent w = Dir (dir_of (w_parent w))" using assms(4) by (auto simp: absent_def dir_of_def)
  have "\<not> NeedRollBeforeOpen lf w" "\<not> NeedRollBeforeOpen lf ?w"
    using w m by (auto simp: NeedRollBeforeOpen_def split: parent.splits)
  moreover have "EnsureParentDirectory e w = (Inr True, ?w)"
    using w assms(3) by (cases "w_parent w") (simp_all add: EnsureParentDirectory_def dir_of_def)
  moreover have "EnsureParentDirectory e ?w = (Inr True, ?w)" by (simp add: EnsureParentDirectory_def)
  ultimately have "OpenNoLock e lf w = OpenNoLock e lf ?w" using assms(1) by (simp add: OpenNoLock_def)
  moreover obtain f d where "OpenNoLock e lf ?w =
      (Inr True, lf\<lparr>lf_open := True, lf_fail := False, lf_pos := e_append_pos e 0\<rparr>, w\<lparr>w_parent := Dir d\<rparr>)"
    "f_data f = []" "\<forall>x. map_of d x = (if x = lf_path lf then Some f else map_of (dir_of (w_parent w)) x)"
    using OpenNoLock_missing[of lf e ?w, OF assms(1) _ _ m] assms(2) by (auto simp: env_permits_def)
  ultimately show ?thesis unfolding LogFile_Open_def by metis
qed

text \<open>Writing to an open file that is not due to be rolled extends it, and changes no other.\<close>

lemma no_roll: "open_at t p lf par \<Longrightarrow> e_now e < t \<Longrightarrow> \<not> RollCriteriaMet e lf msg"
  by (auto simp: RollCriteriaMet_def open_at_def)

lemma Process_open:
  assumes "open_at t p lf (w_parent w)" "env_permits e" "e_now e < t"
  shows "\<exists>lf' d' f. LogFile_Process e msg lf w = (Inr True, lf', w\<lparr>w_parent := Dir d'\<rparr>) \<and> open_at t p lf' (Dir d')
    \<and> lf_format lf' = lf_format lf \<and> map_of (dir_of (w_parent w)) p = Some f
    \<and> (\<exists>g. f_data g = f_data f @ entry_bytes (e_zone e) (e_io e) (lf_format lf) msg
         \<and> (\<forall>x. map_of d' x = (if x = p then Some g else map_of (dir_of (w_parent w)) x)))"
proof -
  obtain dir f where d: "w_parent w = Dir dir" "map_of dir p = Some f" "lf_path lf = p" "lf_open lf" "\<not> lf_fail lf"
    using assms(1) by (auto simp: open_at_def)
  let ?g = "f\<lparr>f_data := f_data f @ log_entry e lf msg, f_mtime := e_now e\<rparr>"
  let ?lf = "lf\<lparr>lf_pos := int (length (f_data f) + length (log_entry e lf msg))\<rparr>"
  have "LogFile_Process e msg lf w = (Inr True, ?lf, w\<lparr>w_parent := Dir (fs_update p ?g dir)\<rparr>)"
    using append_entry_ok[OF d(4,5) _ d(1), of e f msg] no_roll[OF assms(1,3)] assms(2) d
    by (simp add: LogFile_Process_def env_permits_def)
  moreover have "open_at t p ?lf (Dir (fs_update p ?g dir))" using assms(1) by (simp add: open_at_def)
  moreover have "\<forall>x. map_of (fs_update p ?g dir) x = (if x = p then Some ?g else map_of (dir_of (w_parent w)) x)"
    by (simp add: d(1) dir_of_def)
  ultimately show ?thesis
    by (intro exI[of _ ?lf] exI[of _ "fs_update p ?g dir"] exI[of _ f] conjI exI[of _ ?g]) (simp_all add: d(1,2) dir_of_def log_entry_bytes)
qed

section \<open>All files\<close>

text \<open>A file put in its place: the others, in the same directory or elsewhere, stay as they are.\<close>

lemma put_file:
  assumes inv: "writing_inv t (ls, dk)" and lf: "open_at t p lf (w_parent w)"
    and w: "w_parent w = Dir d" "\<forall>x. map_of d x = (if x = p then Some g else map_of (dir_of (w_parent (dk (parent_path p)))) x)"
  shows "writing_inv t (ls\<lparr>ls_logFiles := (ls_logFiles ls)(p \<mapsto> lf)\<rparr>, dk(parent_path p := w))
    \<and> file_of (ls\<lparr>ls_logFiles := (ls_logFiles ls)(p \<mapsto> lf)\<rparr>, dk(parent_path p := w))
        = (file_of (ls, dk))(p \<mapsto> (lf_format lf, f_data g))"
proof (intro conjI)
  let ?dk = "dk(parent_path p := w)"
  have other: "open_at t q l (w_parent (dk (parent_path q))) \<longrightarrow> open_at t q l (w_parent (?dk (parent_path q)))"
    "absent q (w_parent (dk (parent_path q))) \<longrightarrow> absent q (w_parent (?dk (parent_path q)))" if "q \<noteq> p" for q l
    using that w by (auto simp: open_at_def absent_def dir_of_def)
  show "writing_inv t (ls\<lparr>ls_logFiles := (ls_logFiles ls)(p \<mapsto> lf)\<rparr>, ?dk)"
    unfolding writing_inv_def prod.case
  proof
    fix q
    show "case ls_logFiles (ls\<lparr>ls_logFiles := (ls_logFiles ls)(p \<mapsto> lf)\<rparr>) q of
        Some l \<Rightarrow> open_at t q l (w_parent (?dk (parent_path q))) | None \<Rightarrow> absent q (w_parent (?dk (parent_path q)))"
    proof (cases "q = p")
      case False
      have "case ls_logFiles ls q of Some l \<Rightarrow> open_at t q l (w_parent (dk (parent_path q))) | None \<Rightarrow> absent q (w_parent (dk (parent_path q)))"
        using inv by (simp add: writing_inv_def)
      with other[OF False] False show ?thesis by (cases "ls_logFiles ls q") simp_all
    qed (use lf in simp)
  qed
  show "file_of (ls\<lparr>ls_logFiles := (ls_logFiles ls)(p \<mapsto> lf)\<rparr>, ?dk) = (file_of (ls, dk))(p \<mapsto> (lf_format lf, f_data g))"
  proof
    fix q
    show "file_of (ls\<lparr>ls_logFiles := (ls_logFiles ls)(p \<mapsto> lf)\<rparr>, ?dk) q = ((file_of (ls, dk))(p \<mapsto> (lf_format lf, f_data g))) q"
    proof (cases "q = p")
      case False
      have "open_at t q l (w_parent (dk (parent_path q)))" if "ls_logFiles ls q = Some l" for l
        using inv that by (auto simp: writing_inv_def split: option.splits)
      with False w show ?thesis
        by (cases "ls_logFiles ls q") (auto simp: file_of_def open_at_def dir_of_def)
    qed (use w in \<open>simp add: file_of_def\<close>)
  qed
qed

lemma configured_file_sel:
  "lf_path (configured_file e ac p cfg) = p" "\<not> lf_open (configured_file e ac p cfg)"
  "lf_rollSize (configured_file e ac p cfg) = lc_size cfg" "lf_format (configured_file e ac p cfg) = lc_format cfg"
  "lf_rollInterval (configured_file e ac p cfg) = RollInterval_new (e_zone e) (e_now e) (lc_period cfg)"
  by (simp_all add: configured_file_def LogFile_Compression_def LogFile_Group_def LogFile_User_def LogFile_new_def Let_def split: option.splits)

text \<open>The first half of a turn of the loop in \<open>Process\<close>: the file is found open or is opened.\<close>

definition found_or_opened :: "lf_env \<Rightarrow> accounts \<Rightarrow> string \<Rightarrow> LogFileConfig \<Rightarrow> LogFiles \<times> disk \<Rightarrow> bool result \<times> LogFile \<times> disk" where
  "found_or_opened e ac p cfg = (\<lambda>(ls, dk).
     case ls_logFiles ls p of
       Some lf \<Rightarrow> (Inr True, lf, dk)
     | None \<Rightarrow> on_dir p (LogFile_Open e (LogFile_move (configured_file e ac p cfg))) dk)"

lemma file_of_open:
  "writing_inv t (ls, dk) \<Longrightarrow> ls_logFiles ls p = Some lf \<Longrightarrow>
   \<exists>dir f. w_parent (dk (parent_path p)) = Dir dir \<and> map_of dir p = Some f \<and> file_of (ls, dk) p = Some (lf_format lf, f_data f)"
  unfolding writing_inv_def prod.case by (drule spec[of _ p]) (auto simp: file_of_def open_at_def)

lemma found_or_opened_ok:
  assumes "writing_inv t (ls, dk)" "quiet_env t z io logs e" "cfg \<in> set logs"
  shows "\<exists>lf dk0. found_or_opened e ac p cfg (ls, dk) = (Inr True, lf, dk0)
    \<and> writing_inv t (ls\<lparr>ls_logFiles := (ls_logFiles ls)(p \<mapsto> lf)\<rparr>, dk0)
    \<and> file_of (ls\<lparr>ls_logFiles := (ls_logFiles ls)(p \<mapsto> lf)\<rparr>, dk0)
        = (file_of (ls, dk))(p \<mapsto> (case file_of (ls, dk) p of None \<Rightarrow> (lc_format cfg, []) | Some x \<Rightarrow> x))"
proof (cases "ls_logFiles ls p")
  case (Some lf)
  have "ls\<lparr>ls_logFiles := (ls_logFiles ls)(p \<mapsto> lf)\<rparr> = ls" using Some by (simp add: fun_upd_idem)
  then show ?thesis using Some assms(1) file_of_open[OF assms(1) Some] by (auto simp: found_or_opened_def fun_upd_idem)
next
  case None
  let ?c = "configured_file e ac p cfg" and ?w = "dk (parent_path p)"
  let ?lf = "?c\<lparr>lf_open := True, lf_fail := False, lf_pos := e_append_pos e 0\<rparr>"
  have "absent p (w_parent ?w)" using assms(1) None by (auto simp: writing_inv_def dest!: spec[of _ p])
  then obtain f d where o: "LogFile_Open e ?c ?w = (Inr True, ?lf, ?w\<lparr>w_parent := Dir d\<rparr>)"
    "f_data f = []" "\<forall>x. map_of d x = (if x = p then Some f else map_of (dir_of (w_parent ?w)) x)"
    using Open_absent[of ?c e ?w] assms(2) by (auto simp: quiet_env_def configured_file_sel)
  have "open_at t p ?lf (Dir d)"
    using assms(2,3) o(3) by (auto simp: open_at_def configured_file_sel quiet_env_def)
  from put_file[OF assms(1), of p ?lf "?w\<lparr>w_parent := Dir d\<rparr>" d f] this o(2,3)
  have "writing_inv t (ls\<lparr>ls_logFiles := (ls_logFiles ls)(p \<mapsto> ?lf)\<rparr>, dk(parent_path p := ?w\<lparr>w_parent := Dir d\<rparr>))"
    "file_of (ls\<lparr>ls_logFiles := (ls_logFiles ls)(p \<mapsto> ?lf)\<rparr>, dk(parent_path p := ?w\<lparr>w_parent := Dir d\<rparr>))
        = (file_of (ls, dk))(p \<mapsto> (lc_format cfg, []))" by (simp_all add: configured_file_sel)
  moreover have "file_of (ls, dk) p = None" using None by (simp add: file_of_def)
  ultimately show ?thesis using None o(1)
    by (intro exI[of _ ?lf] exI[of _ "dk(parent_path p := ?w\<lparr>w_parent := Dir d\<rparr>)"]) (simp add: found_or_opened_def on_dir_def)
qed

text \<open>The second half: the message goes to the end of the file.\<close>

lemma written_ok:
  assumes "writing_inv t (ls, dk)" "ls_logFiles ls p = Some lf" "quiet_env t z io logs e"
  shows "\<exists>lf' dk'. on_dir p (LogFile_Process e msg lf) dk = (Inr True, lf', dk')
    \<and> writing_inv t (ls\<lparr>ls_logFiles := (ls_logFiles ls)(p \<mapsto> lf')\<rparr>, dk')
    \<and> file_of (ls\<lparr>ls_logFiles := (ls_logFiles ls)(p \<mapsto> lf')\<rparr>, dk') = (file_of (ls, dk))(p := add_entry z io msg cfg (file_of (ls, dk) p))"
proof -
  let ?w = "dk (parent_path p)"
  have op: "open_at t p lf (w_parent ?w)" using assms(1,2) by (auto simp: writing_inv_def dest!: spec[of _ p])
  have e: "env_permits e" "e_now e < t" "e_zone e = z" "e_io e = io" using assms(3) by (simp_all add: quiet_env_def)
  obtain lf' d' f g where p: "LogFile_Process e msg lf ?w = (Inr True, lf', ?w\<lparr>w_parent := Dir d'\<rparr>)"
    "open_at t p lf' (Dir d')" "lf_format lf' = lf_format lf" "map_of (dir_of (w_parent ?w)) p = Some f"
    "f_data g = f_data f @ entry_bytes z io (lf_format lf) msg"
    "\<forall>x. map_of d' x = (if x = p then Some g else map_of (dir_of (w_parent ?w)) x)"
    using Process_open[OF op e(1,2), of msg] unfolding e(3,4) by metis
  have "file_of (ls, dk) p = Some (lf_format lf, f_data f)"
    using file_of_open[OF assms(1,2)] p(4) by (auto simp: dir_of_def)
  moreover note put_file[OF assms(1), of p lf' "?w\<lparr>w_parent := Dir d'\<rparr>" d' g]
  ultimately show ?thesis using p
    by (intro exI[of _ lf'] exI[of _ "dk(parent_path p := ?w\<lparr>w_parent := Dir d'\<rparr>)"]) (simp add: on_dir_def add_entry_def)
qed

lemma process_paths_turn:
  "process_paths e ac msg ((p, cfg) # ps) rc (ls, dk) =
     (case found_or_opened e ac p cfg (ls, dk) of (opened, lf0, dk0) \<Rightarrow>
        let ls0 = ls\<lparr>ls_logFiles := (ls_logFiles ls)(p \<mapsto> lf0)\<rparr>
        in case opened of
             Inl ex \<Rightarrow> (Inl ex, ls0, dk0)
           | Inr _ \<Rightarrow>
               (let (r, lf1, dk1) = on_dir p (LogFile_Process e msg lf0) dk0;
                    ls1 = ls0\<lparr>ls_logFiles := (ls_logFiles ls0)(p \<mapsto> lf1)\<rparr>
                in case r of
                     Inl ex \<Rightarrow> (Inl ex, ls1, dk1)
                   | Inr ok \<Rightarrow> process_paths e ac msg ps (rc \<and> ok) (ls1, dk1)))"
  by (simp add: found_or_opened_def Let_def)

lemma add_entry_opened:
  "add_entry z io msg cfg (Some (case c of None \<Rightarrow> (lc_format cfg, []) | Some x \<Rightarrow> x)) = add_entry z io msg cfg c"
  by (simp add: add_entry_def split: option.splits)

lemma process_paths_ok:
  assumes "writing_inv t (ls, dk)" "quiet_env t z io logs e" "set (map snd ps) \<subseteq> set logs" "distinct (map fst ps)"
  shows "\<exists>m dk'. process_paths e ac msg ps rc (ls, dk) = (Inr rc, ls\<lparr>ls_logFiles := m\<rparr>, dk')
    \<and> writing_inv t (ls\<lparr>ls_logFiles := m\<rparr>, dk')
    \<and> file_of (ls\<lparr>ls_logFiles := m\<rparr>, dk') =
        (\<lambda>p. case map_of ps p of None \<Rightarrow> file_of (ls, dk) p | Some cfg \<Rightarrow> add_entry z io msg cfg (file_of (ls, dk) p))"
  using assms
proof (induction ps arbitrary: ls dk rc)
  case Nil
  then show ?case by (intro exI[of _ "ls_logFiles ls"] exI[of _ dk]) simp
next
  case (Cons x ps)
  obtain p cfg where x: "x = (p, cfg)" by fastforce
  have cfg: "cfg \<in> set logs" "set (map snd ps) \<subseteq> set logs" "distinct (map fst ps)" "map_of ps p = None"
    using Cons.prems(3,4) by (auto simp: x map_of_eq_None_iff)
  obtain lf dk0 where f: "found_or_opened e ac p cfg (ls, dk) = (Inr True, lf, dk0)"
    "writing_inv t (ls\<lparr>ls_logFiles := (ls_logFiles ls)(p \<mapsto> lf)\<rparr>, dk0)"
    "file_of (ls\<lparr>ls_logFiles := (ls_logFiles ls)(p \<mapsto> lf)\<rparr>, dk0)
        = (file_of (ls, dk))(p \<mapsto> (case file_of (ls, dk) p of None \<Rightarrow> (lc_format cfg, []) | Some x \<Rightarrow> x))"
    using found_or_opened_ok[OF Cons.prems(1,2) cfg(1)] by blast
  obtain lf' dk' where g: "on_dir p (LogFile_Process e msg lf) dk0 = (Inr True, lf', dk')"
    "writing_inv t (ls\<lparr>ls_logFiles := (ls_logFiles ls)(p \<mapsto> lf')\<rparr>, dk')"
    "file_of (ls\<lparr>ls_logFiles := (ls_logFiles ls)(p \<mapsto> lf')\<rparr>, dk') = (file_of (ls, dk))(p := add_entry z io msg cfg (file_of (ls, dk) p))"
    using written_ok[OF f(2) _ Cons.prems(2), of p lf msg cfg] by (auto simp: f(3) add_entry_opened)
  have "process_paths e ac msg (x # ps) rc (ls, dk) = process_paths e ac msg ps rc (ls\<lparr>ls_logFiles := (ls_logFiles ls)(p \<mapsto> lf')\<rparr>, dk')"
    by (simp add: x process_paths_turn f(1) g(1) del: process_paths.simps)
  moreover obtain m dk'' where h: "process_paths e ac msg ps rc (ls\<lparr>ls_logFiles := (ls_logFiles ls)(p \<mapsto> lf')\<rparr>, dk') =
      (Inr rc, ls\<lparr>ls_logFiles := m\<rparr>, dk'')" "writing_inv t (ls\<lparr>ls_logFiles := m\<rparr>, dk'')"
    "file_of (ls\<lparr>ls_logFiles := m\<rparr>, dk'') = (\<lambda>q. case map_of ps q of None \<Rightarrow> ((file_of (ls, dk))(p := add_entry z io msg cfg (file_of (ls, dk) p))) q
        | Some cfg' \<Rightarrow> add_entry z io msg cfg' (((file_of (ls, dk))(p := add_entry z io msg cfg (file_of (ls, dk) p))) q))"
    using Cons.IH[OF g(2) Cons.prems(2) cfg(2,3), of rc] unfolding g(3) by auto
  moreover have "file_of (ls\<lparr>ls_logFiles := m\<rparr>, dk'') =
      (\<lambda>q. case map_of (x # ps) q of None \<Rightarrow> file_of (ls, dk) q | Some cfg \<Rightarrow> add_entry z io msg cfg (file_of (ls, dk) q))"
    unfolding h(3) x using cfg(4) by (auto simp: fun_eq_iff split: option.splits)
  ultimately show ?case by metis
qed

section \<open>A run of messages\<close>

lemma accepted_paths_configs: "set (map snd (first_by_key (accepted_paths rx rr dir msg (filtered_configs rx msg0 logs)))) \<subseteq> set logs"
proof -
  have "set (first_by_key xs) \<subseteq> set xs" for xs :: "('k \<times> 'v) list" by (induction xs rule: first_by_key.induct) auto
  moreover have "set (map snd (filtered_configs rx msg0 logs)) \<subseteq> set logs"
    by (induction logs) (auto split: sum.splits)
  ultimately show ?thesis by (fastforce simp: accepted_paths_def)
qed

lemma process_event_ok:
  assumes "logfiles_inv rx rr msg0 fc s" "writing_inv t s" "quiet_env t z io (fc_logs fc) e" "valid_header msg"
  shows "fst (LogFiles_Process rx rr e ac msg s) = Inr True \<and> writing_inv t (process_event rx rr ac s (e, msg))
    \<and> file_of (process_event rx rr ac s (e, msg)) = log_spec z io (config_paths rx rr msg0 fc) (file_of s) msg"
proof -
  obtain ls dk where s: "s = (ls, dk)" by fastforce
  have i: "ls_filesConfig ls = fc" "ls_filtered ls = filtered_configs rx msg0 (fc_logs fc)" "cache_ok rr ls"
    using assms(1) by (auto simp: s logfiles_inv_def)
  have "scanned rx (ls_filtered ls)" by (simp add: i(2) scanned_configs)
  from LogPathConfigs_spec[OF i(3) assms(4) this] obtain c where
    c: "LogPathConfigs rx rr msg ls = (config_paths rx rr msg0 fc msg, ls\<lparr>ls_cache := c\<rparr>)"
    by (auto simp: i(1,2) config_paths_def)
  have w: "writing_inv t (ls\<lparr>ls_cache := c\<rparr>, dk)" using assms(2) by (simp add: s writing_inv_def)
  have same: "file_of (ls\<lparr>ls_cache := c\<rparr>, dk) = file_of (ls, dk)" by (simp add: file_of_def fun_eq_iff)
  obtain m dk' where p: "process_paths e ac msg (config_paths rx rr msg0 fc msg) True (ls\<lparr>ls_cache := c\<rparr>, dk) =
      (Inr True, ls\<lparr>ls_cache := c, ls_logFiles := m\<rparr>, dk')" "writing_inv t (ls\<lparr>ls_cache := c, ls_logFiles := m\<rparr>, dk')"
    "file_of (ls\<lparr>ls_cache := c, ls_logFiles := m\<rparr>, dk') = (\<lambda>p. case map_of (config_paths rx rr msg0 fc msg) p of
        None \<Rightarrow> file_of (ls\<lparr>ls_cache := c\<rparr>, dk) p | Some cfg \<Rightarrow> add_entry z io msg cfg (file_of (ls\<lparr>ls_cache := c\<rparr>, dk) p))"
    using process_paths_ok[OF w assms(3), of "config_paths rx rr msg0 fc msg" ac msg True]
    by (auto simp: config_paths_def accepted_paths_configs first_by_key_distinct simp del: set_map)
  have "LogFiles_Process rx rr e ac msg s = (Inr True, ls\<lparr>ls_cache := c, ls_logFiles := m\<rparr>, dk')"
    by (simp add: LogFiles_Process_def s c p(1))
  with p(2,3)[unfolded same] show ?thesis by (simp add: process_event_def s log_spec_def)
qed

text \<open>A disk on which no log directory holds a file yet.\<close>

definition fresh_disk :: "disk \<Rightarrow> bool" where
  "fresh_disk dk \<longleftrightarrow> (\<forall>x. w_parent (dk x) \<in> {NoDir, Dir []})"

lemma Configure_writing:
  "fresh_disk dk \<Longrightarrow> writing_inv t (Configure rx msg0 fc ls, dk) \<and> file_of (Configure rx msg0 fc ls, dk) = Map.empty"
  by (auto simp: fresh_disk_def writing_inv_def file_of_def Configure_def absent_def)

definition quiet_event :: "int \<Rightarrow> timezone \<Rightarrow> dwm_io \<Rightarrow> LogFileConfig list \<Rightarrow> lf_env \<times> Message \<Rightarrow> bool" where
  "quiet_event t z io logs = (\<lambda>(e, msg). quiet_env t z io logs e \<and> valid_header msg)"

interpretation writing: event_machine "process_event rx rr ac"
  "\<lambda>s. logfiles_inv rx rr msg0 fc s \<and> writing_inv t s" "quiet_event t z io (fc_logs fc)" for rx rr ac msg0 fc t z io
proof
  fix s ev
  assume "logfiles_inv rx rr msg0 fc s \<and> writing_inv t s" "quiet_event t z io (fc_logs fc) ev"
  then show "logfiles_inv rx rr msg0 fc (process_event rx rr ac s ev) \<and> writing_inv t (process_event rx rr ac s ev)"
    using process_event_inv[of rx rr msg0 fc s ev ac] process_event_ok[of rx rr msg0 fc s t z io "fst ev" "snd ev" ac]
    by (cases ev) (simp add: quiet_event_def)
qed

lemma log_files_run:
  assumes "logfiles_inv rx rr msg0 fc s \<and> writing_inv t s" "list_all (quiet_event t z io (fc_logs fc)) evs"
  shows "file_of (run_events (process_event rx rr ac) s evs) =
    foldl (log_spec z io (config_paths rx rr msg0 fc)) (file_of s) (map snd evs)"
  using assms
proof (induction evs arbitrary: s)
  case (Cons ev evs)
  have ev: "quiet_event t z io (fc_logs fc) ev" using Cons.prems(2) by simp
  with process_event_ok[of rx rr msg0 fc s t z io "fst ev" "snd ev" ac] Cons.prems(1)
  have "file_of (process_event rx rr ac s ev) = log_spec z io (config_paths rx rr msg0 fc) (file_of s) (snd ev)"
    by (cases ev) (simp add: quiet_event_def)
  with Cons.IH[OF writing.inv_step[OF Cons.prems(1) ev, of ac]] Cons.prems(2) show ?case by simp
qed simp

section \<open>The file logger\<close>

text \<open>The events of the thread in such surroundings; what callers log comes from enumerators.\<close>

fun quiet_file_event :: "int \<Rightarrow> timezone \<Rightarrow> dwm_io \<Rightarrow> LogFileConfig list \<Rightarrow> file_event \<Rightarrow> bool" where
  "quiet_file_event t z io logs (Log_call msg) \<longleftrightarrow> valid_header msg"
| "quiet_file_event t z io logs (Handle_next e) \<longleftrightarrow> quiet_env t z io logs e"
| "quiet_file_event t z io logs _ \<longleftrightarrow> True"

definition writer_inv ::
    "'q file_ctx \<Rightarrow> FilesConfig \<Rightarrow> disk \<Rightarrow> int \<Rightarrow> timezone \<Rightarrow> dwm_io \<Rightarrow> 'q FileLogger \<times> disk \<Rightarrow> bool" where
  "writer_inv c fc dk0 t z io = (\<lambda>(s, dk).
     file_inv c (Configure (fx_rx c) (fx_msg c) fc LogFiles_new, dk0) 0 (s, dk) \<and> (\<forall>ex. fl_pc s \<noteq> Thrown ex)
     \<and> (\<forall>m\<in>set (fl_accepted s). valid_header m) \<and> list_all (quiet_event t z io (fc_logs fc)) (fl_handled s))"

lemma handled_ok:
  assumes "writer_inv c fc dk0 t z io (s, dk)" "fresh_disk dk0"
  shows "logfiles_inv (fx_rx c) (fx_replace c) (fx_msg c) fc (fl_logFiles s, dk) \<and> writing_inv t (fl_logFiles s, dk)
    \<and> file_of (fl_logFiles s, dk) =
        foldl (log_spec z io (config_paths (fx_rx c) (fx_replace c) (fx_msg c) fc)) Map.empty (map snd (fl_handled s))"
proof -
  let ?s0 = "(Configure (fx_rx c) (fx_msg c) fc LogFiles_new, dk0)"
  have h: "(fl_logFiles s, dk) = run_events (process_event (fx_rx c) (fx_replace c) (fx_accounts c)) ?s0 (fl_handled s)"
    "list_all (quiet_event t z io (fc_logs fc)) (fl_handled s)"
    using assms(1) by (simp_all add: writer_inv_def file_inv_def)
  have i: "logfiles_inv (fx_rx c) (fx_replace c) (fx_msg c) fc ?s0 \<and> writing_inv t ?s0" "file_of ?s0 = Map.empty"
    using Configure_inv Configure_writing[OF assms(2)] by blast+
  from writing.inv_run[OF i(1) h(2)] log_files_run[OF i(1) h(2)] show ?thesis unfolding h(1) i(2) by blast
qed

lemma handle_quiet:
  assumes i: "writer_inv c fc dk0 t z io (s, dk)" and d: "fresh_disk dk0" and e: "quiet_env t z io (fc_logs fc) e"
    and pc: "fl_pc s = Handling (m # ms)"
  shows "\<exists>s' dk'. FileLogger_Run c (s, dk) (Handle_next e) = (s', dk') \<and> fl_pc s' = Handling ms
    \<and> fl_handled s' = fl_handled s @ [(e, m)] \<and> fl_accepted s' = fl_accepted s \<and> fl_inQueue s' = fl_inQueue s
    \<and> valid_header m"
proof -
  have "fl_accepted s = map snd (fl_handled s) @ pending s @ sw_items (fx_queue c) (fl_inQueue s)"
    using i by (auto simp: writer_inv_def file_inv_def)
  then have v: "valid_header m" using i pc by (simp add: writer_inv_def pending_def)
  obtain r ls dk' where r: "LogFiles_Process (fx_rx c) (fx_replace c) e (fx_accounts c) m (fl_logFiles s, dk) = (r, ls, dk')"
    by (cases "LogFiles_Process (fx_rx c) (fx_replace c) e (fx_accounts c) m (fl_logFiles s, dk)")
  have "r = Inr True"
    using handled_ok[OF i d] process_event_ok[of "fx_rx c" "fx_replace c" "fx_msg c" fc "(fl_logFiles s, dk)" t z io e m "fx_accounts c"] e v r
    by simp
  with v r pc show ?thesis by simp
qed

lemma writer_step:
  assumes i: "writer_inv c fc dk0 t z io sd" and d: "fresh_disk dk0" and ev: "quiet_file_event t z io (fc_logs fc) ev"
  shows "writer_inv c fc dk0 t z io (FileLogger_Run c sd ev)"
proof -
  obtain s dk where sd: "sd = (s, dk)" by fastforce
  obtain s' dk' where n: "FileLogger_Run c (s, dk) ev = (s', dk')" by fastforce
  have f: "file_inv c (Configure (fx_rx c) (fx_msg c) fc LogFiles_new, dk0) 0 (s', dk')"
    using file_step_inv[of c _ 0 "(s, dk)" ev] i n by (simp add: writer_inv_def sd)
  have "(\<forall>ex. fl_pc s' \<noteq> Thrown ex) \<and> (\<forall>m\<in>set (fl_accepted s'). valid_header m) \<and> list_all (quiet_event t z io (fc_logs fc)) (fl_handled s')"
  proof (cases "\<exists>e m ms. ev = Handle_next e \<and> fl_pc s = Handling (m # ms)")
    case True
    then obtain e m ms where h: "ev = Handle_next e" "fl_pc s = Handling (m # ms)" by blast
    with ev have q: "quiet_env t z io (fc_logs fc) e" by simp
    from handle_quiet[OF i[unfolded sd] d q h(2)] n i q show ?thesis
      by (auto simp: h(1) sd writer_inv_def quiet_event_def)
  next
    case False
    then have "fl_handled s' = fl_handled s \<and> (\<forall>ex. fl_pc s' \<noteq> Thrown ex)
        \<and> (fl_accepted s' = fl_accepted s \<or> (\<exists>m. ev = Log_call m \<and> set (fl_accepted s') \<subseteq> set (fl_accepted s) \<union> {m}))"
      using n i by (cases ev) (auto simp: sd writer_inv_def FileLogger_Process_def split: prod.splits if_splits file_pc.splits list.splits)
    then show ?thesis using i ev by (auto simp: sd writer_inv_def)
  qed
  with f show ?thesis by (simp add: writer_inv_def sd n)
qed

interpretation writer: event_machine "FileLogger_Run c" "\<lambda>sd. writer_inv c fc dk0 t z io sd \<and> fresh_disk dk0"
  "quiet_file_event t z io (fc_logs fc)" for c fc dk0 t z io
  by unfold_locales (blast intro: writer_step)

lemma Start_writer:
  assumes "swap_ok (fx_queue c)" "fc_logs fc \<noteq> []" "FileLogger_Start c fc (FileLogger_new c) = Inr (True, s0)"
  shows "writer_inv c fc dk0 t z io (s0, dk0)"
proof -
  have "file_inv c (Configure (fx_rx c) (fx_msg c) fc LogFiles_new, dk0) 0 (s0, dk0)"
    using Start_inv[OF assms(1) _ assms(3,2), of dk0] assms(1) by (simp add: FileLogger_new_def swap_ok_def queue_ok_def)
  then show ?thesis
    using assms(2,3) by (auto simp: writer_inv_def FileLogger_Start_def FileLogger_new_def Let_def split: if_splits)
qed


text \<open>The content of one file: the entries of the messages that have it among their paths.\<close>

lemma log_spec_content:
  assumes "\<forall>m\<in>set ms. \<forall>cfg. map_of (paths m) p = Some cfg \<longrightarrow> lc_format cfg = fmt"
  shows "foldl (log_spec z io paths) Map.empty ms p =
    (let hits = filter (\<lambda>m. map_of (paths m) p \<noteq> None) ms
     in if hits = [] then None else Some (fmt, concat (map (entry_bytes z io fmt) hits)))"
  using assms
proof (induction ms rule: rev_induct)
  case (snoc m ms)
  then show ?case by (cases "map_of (paths m) p") (auto simp: log_spec_def add_entry_def Let_def)
qed simp

section \<open>Draining the queue\<close>

definition file_drain :: "nat \<Rightarrow> lf_env \<Rightarrow> file_event list" where
  "file_drain n e = Test_run # Wait_over # replicate n (Handle_next e)"

lemma handle_all:
  assumes "writer_inv c fc dk0 t z io (s, dk)" "fresh_disk dk0" "quiet_env t z io (fc_logs fc) e"
    "fl_pc s = Handling ms"
  shows "fl_pc (fst (run_events (FileLogger_Run c) (s, dk) (replicate (length ms) (Handle_next e)))) = Handling []
    \<and> fl_accepted (fst (run_events (FileLogger_Run c) (s, dk) (replicate (length ms) (Handle_next e)))) = fl_accepted s
    \<and> fl_inQueue (fst (run_events (FileLogger_Run c) (s, dk) (replicate (length ms) (Handle_next e)))) = fl_inQueue s"
  using assms
proof (induction ms arbitrary: s dk)
  case (Cons m ms)
  obtain s' dk' where h: "FileLogger_Run c (s, dk) (Handle_next e) = (s', dk')" "fl_pc s' = Handling ms"
    "fl_accepted s' = fl_accepted s" "fl_inQueue s' = fl_inQueue s"
    using handle_quiet[OF Cons.prems] by blast
  have "writer_inv c fc dk0 t z io (s', dk')"
    using writer_step[OF Cons.prems(1,2), of "Handle_next e"] Cons.prems(3) h(1) by simp
  from Cons.IH[OF this Cons.prems(2,3) h(2)] h(1,3,4) show ?case by simp
qed simp

lemma file_drain_handles:
  assumes i: "writer_inv c fc dk0 t z io (s, dk)" and d: "fresh_disk dk0" and e: "quiet_env t z io (fc_logs fc) e"
    and pc: "fl_pc s = At_test" "fl_run s" "n = length (sw_items (fx_queue c) (fl_inQueue s))"
    and r: "(s', dk') = run_events (FileLogger_Run c) (s, dk) (file_drain n e)"
  shows "writer_inv c fc dk0 t z io (s', dk') \<and> map snd (fl_handled s') = fl_accepted s"
proof -
  have so: "swap_ok (fx_queue c)" using i by (simp add: writer_inv_def file_inv_def)
  obtain ms q where q: "sw_swap (fx_queue c) [] (fl_inQueue s) = (ms, q)" by fastforce
  have m: "ms = sw_items (fx_queue c) (fl_inQueue s)" "sw_items (fx_queue c) q = []"
    using so q unfolding swap_ok_def by (metis fst_conv, metis snd_conv)
  let ?s2 = "s\<lparr>fl_inQueue := q, fl_pc := Handling ms\<rparr>"
  have two: "FileLogger_Run c (FileLogger_Run c (s, dk) Test_run) Wait_over = (?s2, dk)" using pc(1,2) q by simp
  have i2: "writer_inv c fc dk0 t z io (?s2, dk)"
    using writer_step[OF writer_step[OF i d, of Test_run] d, of Wait_over] by (simp only: two quiet_file_event.simps)
  have "(s', dk') = run_events (FileLogger_Run c) (?s2, dk) (replicate (length ms) (Handle_next e))"
    by (simp add: r file_drain_def pc(3) m(1)[symmetric] del: FileLogger_Run.simps) (simp only: two)
  with handle_all[OF i2 d e, of ms] have a: "fl_pc s' = Handling []" "fl_accepted s' = fl_accepted s" "fl_inQueue s' = q"
    by (simp_all add: prod_eq_iff)
  have "list_all (quiet_file_event t z io (fc_logs fc)) (file_drain n e)" using e by (simp add: file_drain_def list_all_iff)
  from writer.inv_run[OF conjI[OF i d] this] have w: "writer_inv c fc dk0 t z io (s', dk')" by (simp add: r)
  then have "fl_accepted s' = map snd (fl_handled s') @ pending s' @ sw_items (fx_queue c) (fl_inQueue s')"
    by (auto simp: writer_inv_def file_inv_def)
  with w a m(2) show ?thesis by (simp add: pending_def)
qed

section \<open>Witness\<close>

definition sample_path :: string where
  "sample_path = compute_path sample_replace ''/logs'' sample_message ''%H/%I''"

lemma sample_quiet: "quiet_env (e_now sample_env + 1) sample_zone sample_io (fc_logs sample_files) sample_env"
proof -
  have "e_now sample_env + 1 \<le> EndTime (RollInterval_new sample_zone (e_now sample_env) rp)" for rp
    using NextMark_bounds[of "e_now sample_env" sample_zone rp] by (simp add: EndTime_def RollInterval_new_def)
  then show ?thesis
    by (simp add: quiet_env_def sample_files_def LogFileConfig_Init_def) (simp add: sample_env_def)
qed

lemma sample_config_paths:
  "config_paths sample_rx sample_replace sample_message sample_files sample_message = [(sample_path, hd (fc_logs sample_files))]"
  using sample_accepted by (simp add: config_paths_def sample_path_def)


end
