(* ===== verification/KeyExchange.thy ===== *)
theory KeyExchange
  imports MessagePacket
begin

text \<open>
  \<open>DwmMclogKeyRequesterState.{hh,cc}\<close> and \<open>DwmMclogKeyRequestClientState.{hh,cc}\<close>: the two
  ends of the exchange by which a receiver obtains the key of a multicast sender. The requester
  sends an ephemeral public key and gets one back; then each side sends, encrypted with the
  shared key, its id and a signature: the requester's over the peer's public key, the sender's
  over the requester's public key followed by the multicast key. libCredence's key exchange,
  signatures and key stores are parameters. The lemmas: a key is only sent to, and only
  accepted from, an authenticated peer, an honest exchange delivers it, and which packets abort.
\<close>

section \<open>libCredence\<close>

text \<open>
  \<open>cr_stash\<close> is the key stash of a directory: our id as \<open>StreamIO::Write\<close> puts it on the
  stream, and our secret key; \<open>cr_known\<close> the public key known for an id, empty if none.
\<close>

record 'k credence =
  cr_shared :: "'k \<Rightarrow> bytes \<Rightarrow> bytes"
  cr_public :: "'k \<Rightarrow> bytes"
  cr_sign :: "bytes \<Rightarrow> bytes \<Rightarrow> bytes option"
  cr_open :: "bytes \<Rightarrow> bytes \<Rightarrow> bytes option"
  cr_stash :: "string \<Rightarrow> (bytes \<times> bytes) option"
  cr_known :: "string \<Rightarrow> string \<Rightarrow> bytes"
  cr_aead :: aead
  cr_io :: dwm_io

text \<open>What a step takes from its surroundings: the time, random bytes, the answer of \<open>sendto\<close>.\<close>

record 'a kx_env =
  kx_now :: int
  kx_nonce :: bytes
  kx_sendto :: "bytes \<Rightarrow> 'a UdpEndpoint \<Rightarrow> int"

type_synonym 'a sends = "('a UdpEndpoint \<times> bytes) list"

definition kx_SESSIONKEYBYTES :: nat where "kx_SESSIONKEYBYTES = 32"

text \<open>A packet in a buffer of 1500 bytes with the id and the signed message, encrypted and sent.\<close>

definition send_id_and_sig ::
    "'k credence \<Rightarrow> 'a kx_env \<Rightarrow> string \<Rightarrow> bytes \<Rightarrow> bytes \<Rightarrow> 'a UdpEndpoint \<Rightarrow> bool \<times> 'a sends" where
  "send_id_and_sig cr e keyDir text sharedKey dst =
     (case cr_stash cr keyDir of
        None \<Rightarrow> (False, [])
      | Some (my_id, secret) \<Rightarrow>
          (case MessagePacket_new (replicate 1500 CHR 0x00) of
             Inl _ \<Rightarrow> (False, [])
           | Inr p0 \<Rightarrow>
               let p1 = snd (Add (os_write my_id) p0)
               in case cr_sign cr text secret of
                    None \<Rightarrow> (False, [])
                  | Some signedMsg \<Rightarrow>
                      let p2 = snd (Add (os_write (enc_str (cr_io cr) signedMsg)) p1);
                          (rc, out, p3) = SendTo_secret (cr_aead cr) (kx_nonce e) (kx_sendto e) sharedKey dst p2
                      in (0 < rc, out)))"

text \<open>
  Decrypting a received packet in place and reading id and signed message from its payload.
  \<open>Inl\<close> is the abort of the packet's constructor; the results count the reads that succeeded.
\<close>

datatype id_and_sig = Not_decrypted | No_id string | No_signature string | Id_and_sig string bytes

definition read_id_and_sig :: "'k credence \<Rightarrow> bytes \<Rightarrow> bytes \<Rightarrow> string \<Rightarrow> id_and_sig result" where
  "read_id_and_sig cr sharedKey buf id0 =
     (case MessagePacket_new buf of
        Inl ex \<Rightarrow> Inl ex
      | Inr p0 \<Rightarrow>
          let (decrc, p1) = Decrypt (cr_aead cr) (length buf) sharedKey p0
          in if decrc > 0 then
               let (theirId, is1) = dec_str (cr_io cr) (Payload p1) id0
               in if failb is1 then Inr (No_id theirId)
                  else let (signedMsg, is2) = dec_str (cr_io cr) is1 []
                       in if failb is2 then Inr (No_signature theirId) else Inr (Id_and_sig theirId signedMsg)
             else Inr Not_decrypted)"

section \<open>The requester\<close>

datatype requester_state = R_Initial | R_KXKeySent | R_IDSent | R_Success | R_Failure

record 'k KeyRequesterState =
  rq_port :: u16
  rq_keyDir :: string
  rq_state :: requester_state
  rq_lastStateChangeTime :: int
  rq_kxKeyPair :: 'k
  rq_theirKX :: string
  rq_sharedKey :: bytes
  rq_theirId :: string
  rq_mcastKey :: bytes

definition KeyRequesterState_new :: "int \<Rightarrow> 'k \<Rightarrow> u16 \<Rightarrow> string \<Rightarrow> 'k KeyRequesterState" where
  "KeyRequesterState_new now kp port keyDir =
     \<lparr>rq_port = port, rq_keyDir = keyDir, rq_state = R_Initial, rq_lastStateChangeTime = now, rq_kxKeyPair = kp,
      rq_theirKX = [], rq_sharedKey = [], rq_theirId = [], rq_mcastKey = []\<rparr>"

definition requester_StateName :: "requester_state \<Rightarrow> string" where
  "requester_StateName s =
     (case s of R_Initial \<Rightarrow> ''Initial'' | R_KXKeySent \<Rightarrow> ''KXKeySent'' | R_IDSent \<Rightarrow> ''IDSent''
      | R_Success \<Rightarrow> ''Success'' | R_Failure \<Rightarrow> ''Failure'')"

definition requester_ChangeState :: "requester_state \<Rightarrow> 'k KeyRequesterState \<Rightarrow> 'k KeyRequesterState" where
  "requester_ChangeState st s = s\<lparr>rq_state := st\<rparr>"

definition requester_SendIdAndSig ::
    "'k credence \<Rightarrow> 'a kx_env \<Rightarrow> 'a UdpEndpoint \<Rightarrow> 'k KeyRequesterState \<Rightarrow> bool \<times> 'a sends" where
  "requester_SendIdAndSig cr e dst s = send_id_and_sig cr e (rq_keyDir s) (rq_theirKX s) (rq_sharedKey s) dst"

definition requester_KXKeySent ::
    "'k credence \<Rightarrow> 'a kx_env \<Rightarrow> 'a UdpEndpoint \<Rightarrow> bytes \<Rightarrow> 'k KeyRequesterState
     \<Rightarrow> bool \<times> 'k KeyRequesterState \<times> 'a sends" where
  "requester_KXKeySent cr e src buf s =
     (let (theirKX, is1) = dec_short (cr_io cr) 255 (good buf) (rq_theirKX s); s1 = s\<lparr>rq_theirKX := theirKX\<rparr>
      in if \<not> failb is1 then
           let s2 = s1\<lparr>rq_sharedKey := cr_shared cr (rq_kxKeyPair s1) theirKX\<rparr>;
               (sent, out) = requester_SendIdAndSig cr e src s2
           in if sent then (True, requester_ChangeState R_IDSent s2, out)
              else (False, requester_ChangeState R_Failure s2, out)
         else (False, requester_ChangeState R_Failure s1, []))"

definition requester_IsValidUser ::
    "'k credence \<Rightarrow> string \<Rightarrow> bytes \<Rightarrow> 'k KeyRequesterState \<Rightarrow> bool \<times> 'k KeyRequesterState" where
  "requester_IsValidUser cr theirId signedMsg s =
     (let key = cr_known cr (rq_keyDir s) theirId; mine = cr_public cr (rq_kxKeyPair s)
      in if key \<noteq> [] then
           (case cr_open cr signedMsg key of
              Some origMsg \<Rightarrow>
                if length origMsg = length mine + kx_SESSIONKEYBYTES then
                  if take (length mine) origMsg = mine
                  then (True, s\<lparr>rq_mcastKey := drop (length mine) origMsg\<rparr>)
                  else (False, s)
                else (False, s)
            | None \<Rightarrow> (False, s))
         else (False, s))"

definition requester_IDSent ::
    "'k credence \<Rightarrow> 'a kx_env \<Rightarrow> 'a UdpEndpoint \<Rightarrow> bytes \<Rightarrow> 'k KeyRequesterState \<Rightarrow> (bool \<times> 'k KeyRequesterState) result" where
  "requester_IDSent cr e src buf s =
     (case read_id_and_sig cr (rq_sharedKey s) buf (rq_theirId s) of
        Inl ex \<Rightarrow> Inl ex
      | Inr Not_decrypted \<Rightarrow> Inr (False, requester_ChangeState R_Failure s)
      | Inr (No_id i) \<Rightarrow> Inr (False, requester_ChangeState R_Failure (s\<lparr>rq_theirId := i\<rparr>))
      | Inr (No_signature i) \<Rightarrow> Inr (False, requester_ChangeState R_Failure (s\<lparr>rq_theirId := i\<rparr>))
      | Inr (Id_and_sig i signedMsg) \<Rightarrow>
          let (valid, s1) = requester_IsValidUser cr i signedMsg (s\<lparr>rq_theirId := i\<rparr>)
          in if valid then Inr (True, requester_ChangeState R_Success s1)
             else Inr (False, requester_ChangeState R_Failure s1))"

definition requester_ProcessPacket ::
    "'k credence \<Rightarrow> 'a kx_env \<Rightarrow> 'a UdpEndpoint \<Rightarrow> bytes \<Rightarrow> 'k KeyRequesterState
     \<Rightarrow> (bool \<times> 'k KeyRequesterState \<times> 'a sends) result" where
  "requester_ProcessPacket cr e src buf s =
     (case rq_state s of
        R_Initial \<Rightarrow> Inr (False, s, [])
      | R_KXKeySent \<Rightarrow> Inr (requester_KXKeySent cr e src buf s)
      | R_IDSent \<Rightarrow> (case requester_IDSent cr e src buf s of Inl ex \<Rightarrow> Inl ex | Inr (rc, s') \<Rightarrow> Inr (rc, s', []))
      | R_Success \<Rightarrow> Inr (True, s, [])
      | R_Failure \<Rightarrow> Inr (False, s, []))"

section \<open>The sender's side\<close>

datatype client_state = C_Initial | C_KXKeySent | C_IDSent | C_Failure

record 'k KeyRequestClientState =
  cl_state :: client_state
  cl_lastStateChangeTime :: int
  cl_keyPair :: 'k
  cl_theirKX :: string
  cl_sharedKey :: bytes
  cl_theirId :: string
  cl_keyDir :: string
  cl_mcastKey :: bytes

definition KeyRequestClientState_new :: "int \<Rightarrow> 'k \<Rightarrow> string \<Rightarrow> bytes \<Rightarrow> 'k KeyRequestClientState" where
  "KeyRequestClientState_new now kp keyDir mcastKey =
     \<lparr>cl_state = C_Initial, cl_lastStateChangeTime = now, cl_keyPair = kp, cl_theirKX = [], cl_sharedKey = [],
      cl_theirId = [], cl_keyDir = keyDir, cl_mcastKey = mcastKey\<rparr>"

definition client_StateName :: "client_state \<Rightarrow> string" where
  "client_StateName s =
     (case s of C_Initial \<Rightarrow> ''Initial'' | C_KXKeySent \<Rightarrow> ''KXKeySent'' | C_IDSent \<Rightarrow> ''IDSent''
      | C_Failure \<Rightarrow> ''Failure'')"

definition client_ChangeState :: "int \<Rightarrow> client_state \<Rightarrow> 'k KeyRequestClientState \<Rightarrow> 'k KeyRequestClientState" where
  "client_ChangeState now st s = s\<lparr>cl_state := st, cl_lastStateChangeTime := now\<rparr>"

definition client_Success :: "'k KeyRequestClientState \<Rightarrow> bool" where
  "client_Success s \<longleftrightarrow> cl_state s = C_IDSent"

text \<open>The reply is written over the request in the caller's buffer; \<open>tellp\<close> of a failed stream is -1.\<close>

definition client_Initial ::
    "'k credence \<Rightarrow> 'a kx_env \<Rightarrow> 'a UdpEndpoint \<Rightarrow> bytes \<Rightarrow> 'k KeyRequestClientState
     \<Rightarrow> bool \<times> 'k KeyRequestClientState \<times> 'a sends" where
  "client_Initial cr e src buf s =
     (let (theirKX, is1) = dec_short (cr_io cr) 255 (good buf) (cl_theirKX s); s1 = s\<lparr>cl_theirKX := theirKX\<rparr>
      in if \<not> failb is1 then
           if length theirKX = 32 then
             let s2 = s1\<lparr>cl_sharedKey := cr_shared cr (cl_keyPair s1) theirKX\<rparr>;
                 os = os_write (enc_short (cr_io cr) 255 (cr_public cr (cl_keyPair s2))) (os_span buf);
                 tellp = (if ofail os then -1 else int (opos os));
                 d = take (opos os) (obuf os)
             in if kx_sendto e d src = tellp
                then (True, client_ChangeState (kx_now e) C_KXKeySent s2, [(src, d)])
                else (False, client_ChangeState (kx_now e) C_Failure s2, [(src, d)])
           else (False, client_ChangeState (kx_now e) C_Failure s1, [])
         else (False, client_ChangeState (kx_now e) C_Failure s1, []))"

definition client_SendIdAndSig ::
    "'k credence \<Rightarrow> 'a kx_env \<Rightarrow> 'a UdpEndpoint \<Rightarrow> 'k KeyRequestClientState \<Rightarrow> bool \<times> 'a sends" where
  "client_SendIdAndSig cr e dst s =
     send_id_and_sig cr e (cl_keyDir s) (cl_theirKX s @ cl_mcastKey s) (cl_sharedKey s) dst"

definition client_IsValidUser :: "'k credence \<Rightarrow> string \<Rightarrow> bytes \<Rightarrow> 'k KeyRequestClientState \<Rightarrow> bool" where
  "client_IsValidUser cr theirId signedMsg s =
     (let key = cr_known cr (cl_keyDir s) theirId
      in if key \<noteq> [] then
           (case cr_open cr signedMsg key of
              Some origMsg \<Rightarrow> origMsg = cr_public cr (cl_keyPair s)
            | None \<Rightarrow> False)
         else False)"

definition client_KXKeySent ::
    "'k credence \<Rightarrow> 'a kx_env \<Rightarrow> 'a UdpEndpoint \<Rightarrow> bytes \<Rightarrow> 'k KeyRequestClientState
     \<Rightarrow> (bool \<times> 'k KeyRequestClientState \<times> 'a sends) result" where
  "client_KXKeySent cr e src buf s =
     (if length buf < k_minPacketLen then Inr (False, client_ChangeState (kx_now e) C_Failure s, [])
      else case read_id_and_sig cr (cl_sharedKey s) buf (cl_theirId s) of
             Inl ex \<Rightarrow> Inl ex
           | Inr Not_decrypted \<Rightarrow> Inr (False, s, [])
           | Inr (No_id i) \<Rightarrow> Inr (False, s\<lparr>cl_theirId := i\<rparr>, [])
           | Inr (No_signature i) \<Rightarrow> Inr (False, s\<lparr>cl_theirId := i\<rparr>, [])
           | Inr (Id_and_sig i signedMsg) \<Rightarrow>
               let s1 = s\<lparr>cl_theirId := i\<rparr>
               in if client_IsValidUser cr i signedMsg s1 then
                    let (sent, out) = client_SendIdAndSig cr e src s1
                    in if sent then Inr (True, client_ChangeState (kx_now e) C_IDSent s1, out)
                       else Inr (False, s1, out)
                  else Inr (False, client_ChangeState (kx_now e) C_Failure s1, []))"

definition client_ProcessPacket ::
    "'k credence \<Rightarrow> 'a kx_env \<Rightarrow> 'a UdpEndpoint \<Rightarrow> bytes \<Rightarrow> 'k KeyRequestClientState
     \<Rightarrow> (bool \<times> 'k KeyRequestClientState \<times> 'a sends) result" where
  "client_ProcessPacket cr e src buf s =
     (case cl_state s of
        C_Initial \<Rightarrow> Inr (client_Initial cr e src buf s)
      | C_KXKeySent \<Rightarrow> client_KXKeySent cr e src buf s
      | C_IDSent \<Rightarrow> Inr (False, s, [])
      | C_Failure \<Rightarrow> Inr (False, s, []))"

section \<open>Packets of id and signature\<close>

lemma Decrypt_datagram:
  assumes ae: "aead_ok ae" and n: "length nonce = k_nonceLen" and c: "aead_enc ae nonce k x = Some c" and x: "x \<noteq> []"
  obtains p0 p1 where "MessagePacket_new (nonce @ c) = Inr p0"
    "Decrypt ae (length (nonce @ c)) k p0 = (int (length (nonce @ c)), p1)" "Payload p1 = good x"
proof -
  have lc: "length c = length x + k_macLen" and dec: "aead_dec ae nonce k c = Some x"
    using ae c unfolding aead_ok_def k_macLen_def by (metis option.inject)+
  have lx: "0 < length x" using x by simp
  have l: "k_minPacketLen < length (nonce @ c)" using n lc lx by (simp add: k_lens)
  define p0 where "p0 = \<lparr>pk_buf = nonce @ c, pk_off = k_nonceLen, pk_len = length (nonce @ c) - (k_nonceLen + k_macLen),
                pk_pos = 0, pk_fail = False, pk_payloadLength = 0\<rparr>"
  let ?p = "set_payload_window k_nonceLen (length x)
    (p0\<lparr>pk_buf := poke k_nonceLen x (nonce @ c), pk_payloadLength := length x\<rparr>)"
  have "MessagePacket_new (nonce @ c) = Inr p0" using l by (simp add: MessagePacket_new_def p0_def)
  moreover have "Decrypt ae (length (nonce @ c)) k p0 = (int (length (nonce @ c)), ?p)"
    using l n lc dec by (simp add: Decrypt_def p0_def k_minPacketLen_def)
  moreover have "Payload ?p = good x" using n lc by (simp add: Payload_def set_payload_window_def poke_def)
  ultimately show thesis by (rule that)
qed

text \<open>What one side sends with \<open>send_id_and_sig\<close> the other reads with \<open>read_id_and_sig\<close>.\<close>

lemma id_and_sig_roundtrip:
  assumes io: "io_ok (cr_io cr)" and ae: "aead_ok (cr_aead cr)" and n: "length (kx_nonce e) = k_nonceLen"
    and st: "cr_stash cr dir = Some (enc_str (cr_io cr) i, sk)" and sg: "cr_sign cr text sk = Some sm"
    and len: "length (enc_str (cr_io cr) i) + length (enc_str (cr_io cr) sm) \<le> 1460"
    and snd: "\<And>d. d \<noteq> [] \<Longrightarrow> 0 < kx_sendto e d dst"
  shows "\<exists>d. send_id_and_sig cr e dir text k dst = (True, [(dst, d)])
    \<and> k_minPacketLen < length d \<and> length d \<le> 1500 \<and> read_id_and_sig cr k d id0 = Inr (Id_and_sig i sm)"
proof -
  let ?x1 = "enc_str (cr_io cr) i" and ?x2 = "enc_str (cr_io cr) sm"
  obtain p0 where p0: "MessagePacket_new (replicate 1500 CHR 0x00) = Inr p0"
    by (simp add: MessagePacket_new_def k_lens)
  from MessagePacket_new_wf[OF p0] have w0: "packet_wf p0" "payload_bytes p0 = []" "length (pk_buf p0) = 1500" by auto
  have l0: "pk_pos p0 = 0" "pk_len p0 = 1460"
    using w0 payload_bytes_length[OF w0(1)] by (auto simp: packet_wf_def k_lens)
  obtain p1 where p1: "Add (os_write ?x1) p0 = (True, p1)" "packet_wf p1" "payload_bytes p1 = ?x1"
    "length (pk_buf p1) = 1500"
    using Add_fits[OF w0(1), of "os_write ?x1" ?x1] l0 len w0 by auto
  have l1: "pk_pos p1 = length ?x1" "pk_len p1 = 1460"
    using p1 payload_bytes_length[OF p1(2)] by (auto simp: packet_wf_def k_lens)
  obtain p2 where p2: "Add (os_write ?x2) p1 = (True, p2)" "packet_wf p2" "payload_bytes p2 = ?x1 @ ?x2"
    using Add_fits[OF p1(2), of "os_write ?x2" ?x2] l1 len p1 by auto
  obtain p3 c where p3: "Encrypt (cr_aead cr) (kx_nonce e) k p2 = (True, p3)"
      "aead_enc (cr_aead cr) (kx_nonce e) k (?x1 @ ?x2) = Some c" "datagram p3 = kx_nonce e @ c"
      "length c = length (?x1 @ ?x2) + k_macLen"
    using Encrypt_datagram[OF ae p2(2) n, of k] p2(3) by metis
  let ?d = "kx_nonce e @ c"
  have ne: "?x1 @ ?x2 \<noteq> []"
  proof
    assume "?x1 @ ?x2 = []"
    then have e: "?x1 = []" by simp
    have "dec_str (cr_io cr) (good (?x1 @ [])) [] = (i, good [])" by (rule dec_prims(5)[OF io])
    then have "dec_str (cr_io cr) (good []) [] = (i, good [])" unfolding e by simp
    from prims_shrink(5)[OF io this] show False by simp
  qed
  then have ld: "k_minPacketLen < length ?d" using p3(4) n by (cases "?x1 @ ?x2") (auto simp: k_lens)
  then have "0 < kx_sendto e ?d dst" by (intro snd) auto
  then have "send_id_and_sig cr e dir text k dst = (True, [(dst, ?d)])"
    by (simp add: send_id_and_sig_def st p0 p1(1) sg p2(1) SendTo_secret_def p3(1,3) Let_def)
  moreover obtain q0 q1 where "MessagePacket_new ?d = Inr q0"
    "Decrypt (cr_aead cr) (length ?d) k q0 = (int (length ?d), q1)" "Payload q1 = good (?x1 @ ?x2)"
    using Decrypt_datagram[OF ae n p3(2) ne] by blast
  then have "read_id_and_sig cr k ?d id0 = Inr (Id_and_sig i sm)"
    using ld dec_prims(5)[OF io, of i ?x2 id0] dec_prims(5)[OF io, of sm "[]" "[]"]
    by (auto simp: read_id_and_sig_def)
  moreover have "length ?d \<le> 1500" using p3(4) n len by (simp add: k_lens)
  ultimately show ?thesis using ld by blast
qed

section \<open>Who gets a key, and whose key is taken\<close>

text \<open>A signature over \<open>text\<close> that opens with the key known for its id.\<close>

definition signed_by_known :: "'k credence \<Rightarrow> string \<Rightarrow> bytes \<Rightarrow> bool" where
  "signed_by_known cr dir text \<longleftrightarrow>
     (\<exists>theirId sm. cr_known cr dir theirId \<noteq> [] \<and> cr_open cr sm (cr_known cr dir theirId) = Some text)"

lemma client_IsValidUser_signed:
  "client_IsValidUser cr i sm s \<Longrightarrow> signed_by_known cr (cl_keyDir s) (cr_public cr (cl_keyPair s))"
  by (auto simp: client_IsValidUser_def signed_by_known_def Let_def split: if_splits option.splits)

lemma requester_IsValidUser_signed:
  "requester_IsValidUser cr i sm s = (True, s') \<Longrightarrow>
     signed_by_known cr (rq_keyDir s) (cr_public cr (rq_kxKeyPair s) @ rq_mcastKey s')
     \<and> length (rq_mcastKey s') = kx_SESSIONKEYBYTES \<and> (\<exists>k. s' = s\<lparr>rq_mcastKey := k\<rparr>)"
  by (auto simp: requester_IsValidUser_def signed_by_known_def Let_def split: if_splits option.splits)
    (metis append_take_drop_id)+

text \<open>One packet handled; an abort leaves no state behind, and the machine as it was.\<close>

definition requester_event ::
    "'k credence \<Rightarrow> 'k KeyRequesterState \<Rightarrow> 'a kx_env \<times> 'a UdpEndpoint \<times> bytes \<Rightarrow> 'k KeyRequesterState" where
  "requester_event cr s ev =
     (case ev of (e, src, buf) \<Rightarrow>
        (case requester_ProcessPacket cr e src buf s of Inl _ \<Rightarrow> s | Inr (rc, s', out) \<Rightarrow> s'))"

definition client_event ::
    "'k credence \<Rightarrow> 'k KeyRequestClientState \<times> 'a sends \<Rightarrow> 'a kx_env \<times> 'a UdpEndpoint \<times> bytes
     \<Rightarrow> 'k KeyRequestClientState \<times> 'a sends" where
  "client_event cr st ev =
     (case ev of (e, src, buf) \<Rightarrow>
        (case client_ProcessPacket cr e src buf (fst st) of
           Inl _ \<Rightarrow> st
         | Inr (rc, s', out) \<Rightarrow> (s', if cl_state (fst st) = C_Initial then snd st else snd st @ out)))"

definition requester_inv :: "'k credence \<Rightarrow> string \<Rightarrow> 'k \<Rightarrow> 'k KeyRequesterState \<Rightarrow> bool" where
  "requester_inv cr dir kp s \<longleftrightarrow> rq_keyDir s = dir \<and> rq_kxKeyPair s = kp \<and>
     (rq_state s = R_Success \<longrightarrow>
        length (rq_mcastKey s) = kx_SESSIONKEYBYTES \<and> signed_by_known cr dir (cr_public cr kp @ rq_mcastKey s))"

text \<open>\<open>snd st\<close> collects what was sent after the public key, which is where the multicast key is.\<close>

definition client_inv :: "'k credence \<Rightarrow> string \<Rightarrow> 'k \<Rightarrow> 'k KeyRequestClientState \<times> 'a sends \<Rightarrow> bool" where
  "client_inv cr dir kp st \<longleftrightarrow> cl_keyDir (fst st) = dir \<and> cl_keyPair (fst st) = kp \<and>
     (snd st \<noteq> [] \<or> client_Success (fst st) \<longrightarrow> signed_by_known cr dir (cr_public cr kp))"

lemma requester_IsValidUser_False: "requester_IsValidUser cr i sm s = (False, s') \<Longrightarrow> s' = s"
  by (auto simp: requester_IsValidUser_def Let_def split: if_splits option.splits)

lemma requester_KXKeySent_frame:
  "requester_KXKeySent cr e src buf s = (rc, s', out) \<Longrightarrow>
     rq_keyDir s' = rq_keyDir s \<and> rq_kxKeyPair s' = rq_kxKeyPair s \<and> rq_state s' \<noteq> R_Success"
  by (auto simp: requester_KXKeySent_def requester_ChangeState_def Let_def split: prod.splits if_splits)

lemma requester_IDSent_spec:
  assumes "requester_IDSent cr e src buf s = Inr (rc, s')"
  shows "rq_keyDir s' = rq_keyDir s \<and> rq_kxKeyPair s' = rq_kxKeyPair s \<and> (rq_state s' = R_Success \<longrightarrow>
     length (rq_mcastKey s') = kx_SESSIONKEYBYTES
     \<and> signed_by_known cr (rq_keyDir s) (cr_public cr (rq_kxKeyPair s) @ rq_mcastKey s'))"
proof -
  consider "rq_state s' = R_Failure" "rq_keyDir s' = rq_keyDir s" "rq_kxKeyPair s' = rq_kxKeyPair s"
    | i sm s1 where "requester_IsValidUser cr i sm (s\<lparr>rq_theirId := i\<rparr>) = (True, s1)" "s' = requester_ChangeState R_Success s1"
    using assms by (auto simp: requester_IDSent_def requester_ChangeState_def Let_def
        dest!: requester_IsValidUser_False split: sum.splits id_and_sig.splits prod.splits if_splits)
  then show ?thesis
  proof cases
    case 1
    then show ?thesis by auto
  next
    case 2
    from requester_IsValidUser_signed[OF 2(1)] 2(2) show ?thesis by (auto simp: requester_ChangeState_def)
  qed
qed

lemma requester_event_inv:
  assumes "requester_inv cr dir kp s"
  shows "requester_inv cr dir kp (requester_event cr s ev)"
proof -
  obtain e src buf where ev: "ev = (e, src, buf)" by (cases ev)
  show ?thesis
  proof (cases "rq_state s")
    case R_KXKeySent
    obtain rc s' out where k: "requester_KXKeySent cr e src buf s = (rc, s', out)" by (cases "requester_KXKeySent cr e src buf s")
    with R_KXKeySent ev have "requester_event cr s ev = s'" by (simp add: requester_event_def requester_ProcessPacket_def)
    with requester_KXKeySent_frame[OF k] assms show ?thesis by (simp add: requester_inv_def)
  next
    case R_IDSent
    show ?thesis
    proof (cases "requester_IDSent cr e src buf s")
      case (Inl ex)
      with R_IDSent ev assms show ?thesis by (simp add: requester_event_def requester_ProcessPacket_def)
    next
      case (Inr r)
      then obtain rc s' where k: "requester_IDSent cr e src buf s = Inr (rc, s')" by (cases r) auto
      with R_IDSent ev have "requester_event cr s ev = s'" by (simp add: requester_event_def requester_ProcessPacket_def)
      with requester_IDSent_spec[OF k] assms show ?thesis by (auto simp: requester_inv_def)
    qed
  qed (use assms ev in \<open>simp_all add: requester_event_def requester_ProcessPacket_def\<close>)
qed

lemma client_Initial_frame:
  "client_Initial cr e src buf s = (rc, s', out) \<Longrightarrow>
     cl_keyDir s' = cl_keyDir s \<and> cl_keyPair s' = cl_keyPair s \<and> \<not> client_Success s'"
  by (auto simp: client_Initial_def client_ChangeState_def client_Success_def Let_def split: prod.splits if_splits)

lemma client_KXKeySent_spec:
  assumes "client_KXKeySent cr e src buf s = Inr (rc, s', out)" "cl_state s = C_KXKeySent"
  shows "cl_keyDir s' = cl_keyDir s \<and> cl_keyPair s' = cl_keyPair s
     \<and> (out \<noteq> [] \<or> client_Success s' \<longrightarrow> signed_by_known cr (cl_keyDir s) (cr_public cr (cl_keyPair s)))"
proof (cases "\<exists>i sm. client_IsValidUser cr i sm (s\<lparr>cl_theirId := i\<rparr>)")
  case True
  then have "signed_by_known cr (cl_keyDir s) (cr_public cr (cl_keyPair s))"
    by (auto dest!: client_IsValidUser_signed)
  with assms show ?thesis
    by (auto simp: client_KXKeySent_def client_ChangeState_def Let_def
        split: sum.splits id_and_sig.splits prod.splits if_splits)
next
  case False
  with assms show ?thesis
    by (auto simp: client_KXKeySent_def client_ChangeState_def client_Success_def Let_def
        split: sum.splits id_and_sig.splits prod.splits if_splits)
qed

lemma client_event_inv:
  assumes "client_inv cr dir kp st"
  shows "client_inv cr dir kp (client_event cr st ev)"
proof -
  obtain e src buf where ev: "ev = (e, src, buf)" by (cases ev)
  obtain s sent where st: "st = (s, sent)" by (cases st)
  show ?thesis
  proof (cases "cl_state s")
    case C_Initial
    obtain rc s' out where k: "client_Initial cr e src buf s = (rc, s', out)" by (cases "client_Initial cr e src buf s")
    with C_Initial ev st have "client_event cr st ev = (s', sent)" by (simp add: client_event_def client_ProcessPacket_def)
    with client_Initial_frame[OF k] assms st show ?thesis by (auto simp: client_inv_def)
  next
    case C_KXKeySent
    show ?thesis
    proof (cases "client_KXKeySent cr e src buf s")
      case (Inl ex)
      with C_KXKeySent ev assms st show ?thesis by (simp add: client_event_def client_ProcessPacket_def)
    next
      case (Inr r)
      then obtain rc s' out where k: "client_KXKeySent cr e src buf s = Inr (rc, s', out)" by (cases r) auto
      with C_KXKeySent ev st have "client_event cr st ev = (s', sent @ out)"
        by (simp add: client_event_def client_ProcessPacket_def)
      with client_KXKeySent_spec[OF k C_KXKeySent] assms st show ?thesis by (auto simp: client_inv_def)
    qed
  qed (use assms ev st in \<open>simp_all add: client_event_def client_ProcessPacket_def\<close>)
qed

interpretation key_requester: event_machine "requester_event cr" "requester_inv cr dir kp" "\<lambda>_. True" for cr dir kp
  by unfold_locales (rule requester_event_inv)

interpretation key_client: event_machine "client_event cr" "client_inv cr dir kp" "\<lambda>_. True" for cr dir kp
  by unfold_locales (rule client_event_inv)

text \<open>
  Two parties that know each other: what the directories hold, whose signatures open, and the
  lengths with which both messages fit a packet.
\<close>

definition acquainted ::
    "'k credence \<Rightarrow> 'k \<Rightarrow> 'k \<Rightarrow> string \<Rightarrow> string \<Rightarrow> bytes \<Rightarrow> string \<Rightarrow> string \<Rightarrow> bytes \<Rightarrow> bytes \<Rightarrow> bool" where
  "acquainted cr kR kS dirR idR skR dirS idS skS mcastKey \<longleftrightarrow>
     io_ok (cr_io cr) \<and> aead_ok (cr_aead cr)
     \<and> length (cr_public cr kR) = 32 \<and> length (cr_public cr kS) = 32 \<and> length mcastKey = kx_SESSIONKEYBYTES
     \<and> length (enc_short (cr_io cr) 255 (cr_public cr kS)) \<le> length (enc_short (cr_io cr) 255 (cr_public cr kR))
     \<and> cr_shared cr kR (cr_public cr kS) = cr_shared cr kS (cr_public cr kR)
     \<and> cr_stash cr dirR = Some (enc_str (cr_io cr) idR, skR) \<and> cr_known cr dirS idR \<noteq> []
     \<and> cr_stash cr dirS = Some (enc_str (cr_io cr) idS, skS) \<and> cr_known cr dirR idS \<noteq> []
     \<and> (\<forall>t. length t \<le> 64 \<longrightarrow> (\<exists>sm. cr_sign cr t skR = Some sm \<and> cr_open cr sm (cr_known cr dirS idR) = Some t
          \<and> length (enc_str (cr_io cr) idR) + length (enc_str (cr_io cr) sm) \<le> 1460))
     \<and> (\<forall>t. length t \<le> 64 \<longrightarrow> (\<exists>sm. cr_sign cr t skS = Some sm \<and> cr_open cr sm (cr_known cr dirR idS) = Some t
          \<and> length (enc_str (cr_io cr) idS) + length (enc_str (cr_io cr) sm) \<le> 1460))"

definition env_delivers :: "'a kx_env \<Rightarrow> bool" where
  "env_delivers e \<longleftrightarrow> length (kx_nonce e) = k_nonceLen \<and> kx_sendto e = (\<lambda>d _. int (length d))"

lemma acquaintedD:
  assumes "acquainted cr kR kS dirR idR skR dirS idS skS mcastKey"
  shows "io_ok (cr_io cr)" "aead_ok (cr_aead cr)" "length (cr_public cr kR) = 32" "length (cr_public cr kS) = 32"
    "length mcastKey = 32" "length (enc_short (cr_io cr) 255 (cr_public cr kS)) \<le> length (enc_short (cr_io cr) 255 (cr_public cr kR))"
    "cr_shared cr kR (cr_public cr kS) = cr_shared cr kS (cr_public cr kR)"
  using assms by (auto simp: acquainted_def kx_SESSIONKEYBYTES_def)

lemma public_key_read:
  assumes "io_ok (cr_io cr)" "length (cr_public cr k) = 32"
  shows "dec_short (cr_io cr) 255 (good (enc_short (cr_io cr) 255 (cr_public cr k))) z = (cr_public cr k, good [])"
    "enc_short (cr_io cr) 255 (cr_public cr k) \<noteq> []"
proof -
  show d: "dec_short (cr_io cr) 255 (good (enc_short (cr_io cr) 255 (cr_public cr k))) z = (cr_public cr k, good [])" for z
    using dec_prims(4)[OF assms(1), of "cr_public cr k" 255 "[]" z] assms(2) by simp
  from prims_shrink(4)[OF assms(1) this] show "enc_short (cr_io cr) 255 (cr_public cr k) \<noteq> []" by fastforce
qed

text \<open>
  A packet with the id \<open>i\<close> and \<open>i\<close>'s signature over \<open>text\<close>, as whoever has the keys of the
  directory \<open>dir\<close> reads it.
\<close>

definition vouches :: "'k credence \<Rightarrow> bytes \<Rightarrow> string \<Rightarrow> string \<Rightarrow> bytes \<Rightarrow> bytes \<Rightarrow> bool" where
  "vouches cr k dir i text d \<longleftrightarrow> k_minPacketLen < length d \<and> length d \<le> 1500 \<and> cr_known cr dir i \<noteq> [] \<and>
     (\<exists>sm. read_id_and_sig cr k d [] = Inr (Id_and_sig i sm) \<and> cr_open cr sm (cr_known cr dir i) = Some text)"

lemma send_vouches:
  assumes aq: "acquainted cr kR kS dirR idR skR dirS idS skS mcastKey" and e: "env_delivers e" and t: "length text \<le> 64"
  shows "\<exists>d. send_id_and_sig cr e dirR text k dst = (True, [(dst, d)]) \<and> vouches cr k dirS idR text d"
    and "\<exists>d. send_id_and_sig cr e dirS text k dst = (True, [(dst, d)]) \<and> vouches cr k dirR idS text d"
proof -
  have n: "length (kx_nonce e) = k_nonceLen" and s: "\<And>d. d \<noteq> [] \<Longrightarrow> 0 < kx_sendto e d dst"
    using e by (auto simp: env_delivers_def)
  note rt = id_and_sig_roundtrip[OF acquaintedD(1,2)[OF aq] n _ _ _ s, of _ _ _ _ _ k "[]"]
  obtain sm where "cr_sign cr text skR = Some sm" "cr_open cr sm (cr_known cr dirS idR) = Some text"
    "length (enc_str (cr_io cr) idR) + length (enc_str (cr_io cr) sm) \<le> 1460" using aq t unfolding acquainted_def by blast
  with rt[of dirR idR skR "text" sm] aq
  show "\<exists>d. send_id_and_sig cr e dirR text k dst = (True, [(dst, d)]) \<and> vouches cr k dirS idR text d"
    unfolding acquainted_def vouches_def by blast
  obtain sm' where "cr_sign cr text skS = Some sm'" "cr_open cr sm' (cr_known cr dirR idS) = Some text"
    "length (enc_str (cr_io cr) idS) + length (enc_str (cr_io cr) sm') \<le> 1460" using aq t unfolding acquainted_def by blast
  with rt[of dirS idS skS "text" sm'] aq
  show "\<exists>d. send_id_and_sig cr e dirS text k dst = (True, [(dst, d)]) \<and> vouches cr k dirR idS text d"
    unfolding acquainted_def vouches_def by blast
qed

text \<open>The four steps of an honest exchange, with the states of both sides.\<close>

abbreviation keyed_client :: "'k credence \<Rightarrow> 'k \<Rightarrow> 'k \<Rightarrow> string \<Rightarrow> bytes \<Rightarrow> int \<Rightarrow> 'k KeyRequestClientState" where
  "keyed_client cr kR kS dirS mcastKey now \<equiv>
     \<lparr>cl_state = C_KXKeySent, cl_lastStateChangeTime = now, cl_keyPair = kS, cl_theirKX = cr_public cr kR,
      cl_sharedKey = cr_shared cr kS (cr_public cr kR), cl_theirId = [], cl_keyDir = dirS, cl_mcastKey = mcastKey\<rparr>"

abbreviation requesting :: "int \<Rightarrow> 'k \<Rightarrow> u16 \<Rightarrow> string \<Rightarrow> 'k KeyRequesterState" where
  "requesting now kR port dirR \<equiv> requester_ChangeState R_KXKeySent (KeyRequesterState_new now kR port dirR)"

abbreviation keyed_requester :: "'k credence \<Rightarrow> 'k \<Rightarrow> 'k \<Rightarrow> int \<Rightarrow> u16 \<Rightarrow> string \<Rightarrow> 'k KeyRequesterState" where
  "keyed_requester cr kR kS now port dirR \<equiv>
     \<lparr>rq_port = port, rq_keyDir = dirR, rq_state = R_IDSent, rq_lastStateChangeTime = now, rq_kxKeyPair = kR,
      rq_theirKX = cr_public cr kS, rq_sharedKey = cr_shared cr kS (cr_public cr kR), rq_theirId = [], rq_mcastKey = []\<rparr>"

lemma client_answers_request:
  assumes aq: "acquainted cr kR kS dirR idR skR dirS idS skS mcastKey" and e: "env_delivers e"
  shows "client_ProcessPacket cr e r (enc_short (cr_io cr) 255 (cr_public cr kR)) (KeyRequestClientState_new t kS dirS mcastKey)
    = Inr (True, keyed_client cr kR kS dirS mcastKey (kx_now e), [(r, enc_short (cr_io cr) 255 (cr_public cr kS))])"
proof -
  let ?d0 = "enc_short (cr_io cr) 255 (cr_public cr kR)" and ?e1 = "enc_short (cr_io cr) 255 (cr_public cr kS)"
  have "os_write ?e1 (os_span ?d0) = \<lparr>obuf = ?e1 @ drop (length ?e1) ?d0, opos = length ?e1,
      olimit = Some (length ?d0), ofail = False\<rparr>"
    using os_write_fits[OF os_wf_span, of "?d0" "length ?d0" ?e1] acquaintedD(6)[OF aq] by (simp add: os_span_def)
  then show ?thesis
    using public_key_read(1)[OF acquaintedD(1,3)[OF aq]] acquaintedD(3)[OF aq] e
    by (simp add: client_ProcessPacket_def client_Initial_def KeyRequestClientState_new_def env_delivers_def
        client_ChangeState_def Let_def)
qed

lemma requester_answers_key:
  assumes aq: "acquainted cr kR kS dirR idR skR dirS idS skS mcastKey" and e: "env_delivers e"
  shows "\<exists>d. requester_ProcessPacket cr e sv (enc_short (cr_io cr) 255 (cr_public cr kS)) (requesting t kR port dirR)
      = Inr (True, keyed_requester cr kR kS t port dirR, [(sv, d)])
    \<and> vouches cr (cr_shared cr kS (cr_public cr kR)) dirS idR (cr_public cr kS) d"
  using send_vouches(1)[OF aq e, of "cr_public cr kS" "cr_shared cr kS (cr_public cr kR)" sv]
    public_key_read(1)[OF acquaintedD(1,4)[OF aq]] acquaintedD(4,7)[OF aq]
  by (auto simp: requester_ProcessPacket_def requester_ChangeState_def KeyRequesterState_new_def requester_KXKeySent_def
      requester_SendIdAndSig_def)

lemma client_answers_id:
  assumes aq: "acquainted cr kR kS dirR idR skR dirS idS skS mcastKey" and e: "env_delivers e"
    and v: "vouches cr (cr_shared cr kS (cr_public cr kR)) dirS idR (cr_public cr kS) d"
  shows "\<exists>d' c. client_ProcessPacket cr e r d (keyed_client cr kR kS dirS mcastKey now) = Inr (True, c, [(r, d')]) \<and> client_Success c
    \<and> vouches cr (cr_shared cr kS (cr_public cr kR)) dirR idS (cr_public cr kR @ mcastKey) d'"
  using send_vouches(2)[OF aq e, of "cr_public cr kR @ mcastKey" "cr_shared cr kS (cr_public cr kR)" r]
    acquaintedD(3,5)[OF aq] v
  by (auto simp: client_ProcessPacket_def client_KXKeySent_def client_SendIdAndSig_def client_IsValidUser_def
      client_ChangeState_def client_Success_def vouches_def)

lemma requester_takes_key:
  assumes aq: "acquainted cr kR kS dirR idR skR dirS idS skS mcastKey"
    and v: "vouches cr (cr_shared cr kS (cr_public cr kR)) dirR idS (cr_public cr kR @ mcastKey) d"
  shows "\<exists>q. requester_ProcessPacket cr e sv d (keyed_requester cr kR kS t port dirR) = Inr (True, q, [])
    \<and> rq_state q = R_Success \<and> rq_mcastKey q = mcastKey"
  using v acquaintedD(5)[OF aq]
  by (auto simp: requester_ProcessPacket_def requester_IDSent_def requester_IsValidUser_def requester_ChangeState_def
      vouches_def kx_SESSIONKEYBYTES_def)

lemma honest_exchange:
  assumes aq: "acquainted cr kR kS dirR idR skR dirS idS skS mcastKey"
    and e: "env_delivers e1" "env_delivers e2" "env_delivers e3"
  shows "\<exists>c1 c2 q1 q2 d1 d2 d3.
    client_ProcessPacket cr e1 r (enc_short (cr_io cr) 255 (cr_public cr kR)) (KeyRequestClientState_new t kS dirS mcastKey)
      = Inr (True, c1, [(r, d1)])
    \<and> requester_ProcessPacket cr e2 sv d1 (requesting t' kR port dirR) = Inr (True, q1, [(sv, d2)])
    \<and> client_ProcessPacket cr e3 r d2 c1 = Inr (True, c2, [(r, d3)]) \<and> client_Success c2
    \<and> requester_ProcessPacket cr e4 sv d3 q1 = Inr (True, q2, []) \<and> rq_state q2 = R_Success \<and> rq_mcastKey q2 = mcastKey"
  using client_answers_request[OF aq e(1), of r t] requester_answers_key[OF aq e(2), of sv t' port]
    client_answers_id[OF aq e(3), of _ r "kx_now e1"] requester_takes_key[OF aq, of _ e4 sv port t'] by meson

section \<open>A concrete pair\<close>

definition sample_cr :: "nat credence" where
  "sample_cr =
     \<lparr>cr_shared = \<lambda>_ _. ''shared'', cr_public = \<lambda>k. replicate 32 (if k = 0 then CHR ''a'' else CHR ''b''),
      cr_sign = \<lambda>t sk. Some t, cr_open = \<lambda>sm k. Some sm, cr_stash = \<lambda>dir. Some (enc_str sample_io ''me'', ''secret''),
      cr_known = \<lambda>dir i. ''public'', cr_aead = sample_aead, cr_io = sample_io\<rparr>"

definition sample_kx_env :: "nat kx_env" where
  "sample_kx_env = \<lparr>kx_now = 0, kx_nonce = replicate 24 CHR ''n'', kx_sendto = (\<lambda>d _. int (length d))\<rparr>"

lemma show_nat_short: "length (show_nat n) \<le> Suc n"
  by (induction n rule: show_nat.induct) (subst show_nat.simps, auto)

lemma sample_acquainted:
  "acquainted sample_cr 0 1 ''r'' ''me'' ''secret'' ''s'' ''me'' ''secret'' (replicate 32 CHR ''m'')"
proof -
  have "length (enc_str sample_io t) \<le> 130" if "length t \<le> 64" for t
    using that show_nat_short[of "length t"] by (simp add: sample_io_def sample_enc_str_def sample_enc_def)
  moreover from this[of "''me''"] have "length (enc_str sample_io ''me'') \<le> 130" by simp
  ultimately have b: "length t \<le> 64 \<Longrightarrow> length (enc_str sample_io ''me'') + length (enc_str sample_io t) \<le> 1460" for t
    by fastforce
  have "length (enc_short sample_io 255 (replicate 32 CHR ''b'')) \<le> length (enc_short sample_io 255 (replicate 32 CHR ''a''))"
    by (simp add: sample_io_def sample_enc_str_def)
  then show ?thesis using b
    by (simp add: acquainted_def sample_cr_def sample_io_ok sample_aead_ok kx_SESSIONKEYBYTES_def)
qed

lemma sample_env_delivers: "env_delivers sample_kx_env"
  by (simp add: env_delivers_def sample_kx_env_def k_nonceLen_def)

text \<open>The states the sample exchange goes through, as runs of either machine.\<close>

lemma sample_exchange:
  obtains c2 d1 d2 d3 q2 where
    "run_events (client_event sample_cr) (KeyRequestClientState_new 0 1 ''s'' (replicate 32 CHR ''m''), [])
       [(sample_kx_env, UdpEndpoint 7 1, enc_short sample_io 255 (cr_public sample_cr 0)), (sample_kx_env, UdpEndpoint 7 1, d2)]
     = (c2, [(UdpEndpoint 7 1, d3)])" "client_Success c2"
    "run_events (requester_event sample_cr) (requester_ChangeState R_KXKeySent (KeyRequesterState_new 0 0 3737 ''r''))
       [(sample_kx_env, UdpEndpoint 8 3737, d1), (sample_kx_env, UdpEndpoint 8 3737, d3)] = q2"
    "rq_state q2 = R_Success"
proof -
  have io: "cr_io sample_cr = sample_io" by (simp add: sample_cr_def)
  from honest_exchange[OF sample_acquainted sample_env_delivers sample_env_delivers sample_env_delivers,
      of "UdpEndpoint 7 1" 0 "UdpEndpoint 8 3737" 0 3737 sample_kx_env]
  obtain c1 c2 q1 q2 d1 d2 d3 where h:
    "client_ProcessPacket sample_cr sample_kx_env (UdpEndpoint 7 1) (enc_short sample_io 255 (cr_public sample_cr 0))
      (KeyRequestClientState_new 0 1 ''s'' (replicate 32 CHR ''m'')) = Inr (True, c1, [(UdpEndpoint 7 1, d1)])"
    "requester_ProcessPacket sample_cr sample_kx_env (UdpEndpoint 8 3737) d1
      (requester_ChangeState R_KXKeySent (KeyRequesterState_new 0 0 3737 ''r'')) = Inr (True, q1, [(UdpEndpoint 8 3737, d2)])"
    "client_ProcessPacket sample_cr sample_kx_env (UdpEndpoint 7 1) d2 c1 = Inr (True, c2, [(UdpEndpoint 7 1, d3)])"
    "client_Success c2"
    "requester_ProcessPacket sample_cr sample_kx_env (UdpEndpoint 8 3737) d3 q1 = Inr (True, q2, [])"
    "rq_state q2 = R_Success"
    unfolding io by blast
  have "cl_state c1 \<noteq> C_Initial" using h(3,4) client_Initial_frame[of sample_cr sample_kx_env "UdpEndpoint 7 1" d2 c1]
    by (auto simp: client_ProcessPacket_def)
  then show thesis using h
    by (intro that[of d2 c2 d3 d1 q2]) (simp_all add: client_event_def requester_event_def KeyRequestClientState_new_def)
qed

section \<open>Properties\<close>

text \<open>
  C5. The multicast key only leaves for an authenticated client: over any sequence of packets
  from anyone, a client object sends something beyond its public key, or reaches its success
  state, only if a signature over its own public key has opened with the key known for an id.
\<close>

theorem key_only_for_known_clients:
  assumes "run_events (client_event cr) (KeyRequestClientState_new now kp dir mk, []) evs = (s, sent)"
    "sent \<noteq> [] \<or> client_Success s"
  shows "signed_by_known cr dir (cr_public cr kp)"
proof -
  have "client_inv cr dir kp (KeyRequestClientState_new now kp dir mk, [])"
    by (simp add: client_inv_def KeyRequestClientState_new_def client_Success_def)
  from key_client.inv_run[OF this, of evs] assms show ?thesis by (simp add: client_inv_def list_all_iff)
qed

text \<open>
  C29. A requester that succeeds holds a key of 32 bytes that a known peer has signed together
  with the public key of this very request; no sequence of packets makes it accept another.
\<close>

theorem requester_accepts_signed_key:
  assumes "rq_state (run_events (requester_event cr) (requester_ChangeState R_KXKeySent (KeyRequesterState_new now kp port dir)) evs)
     = R_Success"
  shows "let k = rq_mcastKey (run_events (requester_event cr)
           (requester_ChangeState R_KXKeySent (KeyRequesterState_new now kp port dir)) evs)
     in length k = kx_SESSIONKEYBYTES \<and> signed_by_known cr dir (cr_public cr kp @ k)"
proof -
  have "requester_inv cr dir kp (requester_ChangeState R_KXKeySent (KeyRequesterState_new now kp port dir))"
    by (simp add: requester_inv_def requester_ChangeState_def KeyRequesterState_new_def)
  from key_requester.inv_run[OF this, of evs] assms show ?thesis by (simp add: requester_inv_def list_all_iff Let_def)
qed

text \<open>
  A short packet aborts the process: a packet of exactly 40 bytes, sent to a client object
  after its public key, passes the length check but not the assertion of \<open>MessagePacket\<close>;
  the requester has no length check at all once it has sent its id.
\<close>

theorem short_packet_aborts:
  assumes "cl_state c = C_KXKeySent" "length buf = 40" "rq_state q = R_IDSent" "length buf' \<le> 40"
  shows "client_ProcessPacket cr e src buf c = Inl AssertionFailed
    \<and> requester_ProcessPacket cr e src buf' q = Inl AssertionFailed"
  using assms
  by (simp add: client_ProcessPacket_def client_KXKeySent_def requester_ProcessPacket_def requester_IDSent_def
      read_id_and_sig_def MessagePacket_new_def k_lens)

lemma key_only_for_known_clients_witness:
  "\<exists>evs s sent. run_events (client_event sample_cr) (KeyRequestClientState_new 0 1 ''s'' (replicate 32 CHR ''m''), []) evs = (s, sent)
    \<and> sent \<noteq> ([] :: nat sends) \<and> signed_by_known sample_cr ''s'' (cr_public sample_cr 1)"
proof -
  obtain c2 d1 d2 d3 q2 where h:
    "run_events (client_event sample_cr) (KeyRequestClientState_new 0 1 ''s'' (replicate 32 CHR ''m''), [])
       [(sample_kx_env, UdpEndpoint 7 1, enc_short sample_io 255 (cr_public sample_cr 0)), (sample_kx_env, UdpEndpoint 7 1, d2)]
     = (c2, [(UdpEndpoint 7 1, d3)])" by (rule sample_exchange)
  from key_only_for_known_clients[OF this] h show ?thesis by blast
qed

lemma requester_accepts_signed_key_witness:
  "\<exists>evs :: (nat kx_env \<times> nat UdpEndpoint \<times> bytes) list.
    let k = rq_mcastKey (run_events (requester_event sample_cr)
           (requester_ChangeState R_KXKeySent (KeyRequesterState_new 0 0 3737 ''r'')) evs)
    in length k = kx_SESSIONKEYBYTES \<and> signed_by_known sample_cr ''r'' (cr_public sample_cr 0 @ k)"
proof -
  obtain c2 d1 d2 d3 q2 where h:
    "run_events (requester_event sample_cr) (requester_ChangeState R_KXKeySent (KeyRequesterState_new 0 0 3737 ''r''))
       [(sample_kx_env, UdpEndpoint 8 3737, d1), (sample_kx_env, UdpEndpoint 8 3737, d3)] = q2"
    "rq_state q2 = R_Success" by (rule sample_exchange)
  from requester_accepts_signed_key[of sample_cr 0 0 3737 "''r''"
      "[(sample_kx_env, UdpEndpoint 8 3737, d1), (sample_kx_env, UdpEndpoint 8 3737, d3)]"] h show ?thesis by blast
qed

lemma short_packet_aborts_witness:
  "client_ProcessPacket sample_cr sample_kx_env (UdpEndpoint 7 1) (replicate 40 CHR ''x'')
     ((KeyRequestClientState_new 0 1 ''s'' ''m'')\<lparr>cl_state := C_KXKeySent\<rparr>) = Inl AssertionFailed
   \<and> requester_ProcessPacket sample_cr sample_kx_env (UdpEndpoint 8 3737) ''x''
     ((KeyRequesterState_new 0 0 3737 ''r'')\<lparr>rq_state := R_IDSent\<rparr>) = Inl AssertionFailed"
  using short_packet_aborts[of "(KeyRequestClientState_new 0 1 ''s'' ''m'')\<lparr>cl_state := C_KXKeySent\<rparr>" "replicate 40 CHR ''x''"
      "(KeyRequesterState_new 0 0 3737 ''r'')\<lparr>rq_state := R_IDSent\<rparr>" "''x''" sample_cr sample_kx_env "UdpEndpoint 7 1"]
    short_packet_aborts[of "(KeyRequestClientState_new 0 1 ''s'' ''m'')\<lparr>cl_state := C_KXKeySent\<rparr>" "replicate 40 CHR ''x''"
      "(KeyRequesterState_new 0 0 3737 ''r'')\<lparr>rq_state := R_IDSent\<rparr>" "''x''" sample_cr sample_kx_env "UdpEndpoint 8 3737"]
  by simp

end
