(* ===== verification/MulticastSource.thy ===== *)
theory MulticastSource
  imports KeyRequester PacketSender
begin

text \<open>
  \<open>DwmMclogMulticastSource.{hh,cc}\<close> and \<open>DwmMclogMulticastSources.{hh,cc}\<close>: what a receiver
  keeps for each sender it hears: the key, and a backlog of packets that wait for it. A packet
  that arrives without a key, or cannot be decrypted, is kept and a query for the key starts in
  its own thread; its answer is a step of its own. The pointers to the receiver's key directory
  and sinks are arguments. The queue of libDwm is a parameter with the law \<open>backlog_ok\<close>. The
  lemmas: processing ends, the backlog is bounded and reaches the sinks in order once the key
  is there, and what a bad datagram does.
\<close>

section \<open>Backlog entries\<close>

record BacklogEntry =
  be_receiveTime :: time_point
  be_data :: bytes

definition BacklogEntry_default :: "time_point \<Rightarrow> BacklogEntry" where
  "BacklogEntry_default t = \<lparr>be_receiveTime = t, be_data = []\<rparr>"

text \<open>\<open>m\<close>: whether \<open>malloc\<close> delivers. An entry without memory has no data and length 0.\<close>

definition BacklogEntry_new :: "time_point \<Rightarrow> bool \<Rightarrow> bytes \<Rightarrow> BacklogEntry" where
  "BacklogEntry_new now m d = \<lparr>be_receiveTime = now, be_data = (if d \<noteq> [] \<and> m then d else [])\<rparr>"

definition BacklogEntry_copy :: "bool \<Rightarrow> BacklogEntry \<Rightarrow> BacklogEntry" where
  "BacklogEntry_copy m ble =
     \<lparr>be_receiveTime = be_receiveTime ble, be_data = (if be_data ble \<noteq> [] \<and> m then be_data ble else [])\<rparr>"

text \<open>The object made, and what is left of the one moved from.\<close>

definition BacklogEntry_move :: "BacklogEntry \<Rightarrow> BacklogEntry \<times> BacklogEntry" where
  "BacklogEntry_move ble = (ble, ble\<lparr>be_data := []\<rparr>)"

text \<open>The assignments; \<open>same\<close> says that both sides are the same object.\<close>

definition BacklogEntry_move_assign ::
    "bool \<Rightarrow> BacklogEntry \<Rightarrow> BacklogEntry \<Rightarrow> BacklogEntry \<times> BacklogEntry" where
  "BacklogEntry_move_assign same this ble = (if same then (this, ble) else (ble, ble\<lparr>be_data := []\<rparr>))"

definition BacklogEntry_copy_assign :: "bool \<Rightarrow> bool \<Rightarrow> BacklogEntry \<Rightarrow> BacklogEntry \<Rightarrow> BacklogEntry" where
  "BacklogEntry_copy_assign m same this ble =
     (if same then this
      else let t1 = this\<lparr>be_data := []\<rparr>;
               t2 = (if be_data ble \<noteq> [] \<and> m then t1\<lparr>be_data := be_data ble\<rparr> else t1)
           in t2\<lparr>be_receiveTime := be_receiveTime ble\<rparr>)"

section \<open>The backlog queue\<close>

text \<open>\<open>bl_limit\<close> is only there for the law: no operation of the model reads it.\<close>

record 'q backlog_ops =
  bl_queue :: "(BacklogEntry, 'q) queue_ops"
  bl_push_front :: "BacklogEntry \<Rightarrow> 'q \<Rightarrow> bool \<times> 'q"
  bl_limit :: "'q \<Rightarrow> nat"

abbreviation bl_items :: "'q backlog_ops \<Rightarrow> 'q \<Rightarrow> BacklogEntry list" where
  "bl_items bo \<equiv> q_items (bl_queue bo)"

definition has_room :: "'q backlog_ops \<Rightarrow> 'q \<Rightarrow> bool" where
  "has_room bo q \<longleftrightarrow> bl_limit bo q = 0 \<or> length (bl_items bo q) < bl_limit bo q"

definition backlog_ok :: "'q backlog_ops \<Rightarrow> bool" where
  "backlog_ok bo \<longleftrightarrow> queue_ok (bl_queue bo) \<and>
     (\<forall>n q. bl_limit bo (q_max_length (bl_queue bo) n q) = n) \<and>
     (\<forall>e q. fst (q_push (bl_queue bo) e q) = has_room bo q
        \<and> bl_limit bo (snd (q_push (bl_queue bo) e q)) = bl_limit bo q) \<and>
     (\<forall>q e q'. q_pop (bl_queue bo) q = Some (e, q') \<longrightarrow> bl_limit bo q' = bl_limit bo q) \<and>
     (\<forall>e q. fst (bl_push_front bo e q) = has_room bo q
        \<and> bl_items bo (snd (bl_push_front bo e q)) = (if has_room bo q then [e] else []) @ bl_items bo q
        \<and> bl_limit bo (snd (bl_push_front bo e q)) = bl_limit bo q)"

definition sample_backlog :: "(nat \<times> BacklogEntry list) backlog_ops" where
  "sample_backlog =
     \<lparr>bl_queue = sample_queue,
      bl_push_front = (\<lambda>e (n, es). if n = 0 \<or> length es < n then (True, (n, e # es)) else (False, (n, es))),
      bl_limit = fst\<rparr>"

lemma sample_backlog_ok: "backlog_ok sample_backlog"
  by (auto simp: backlog_ok_def sample_backlog_def sample_queue_ok has_room_def)
     (auto simp: sample_queue_def split: list.splits if_splits)

section \<open>Packets\<close>

text \<open>
  The messages of a packet: \<open>None\<close> when the read loop does not end, \<open>Inl\<close> the abort of the
  packet's constructor, \<open>Inr None\<close> when it cannot be decrypted.
\<close>

definition packet_messages :: "aead \<Rightarrow> dwm_io \<Rightarrow> Message \<Rightarrow> bytes \<Rightarrow> bytes \<Rightarrow> Message list option result option" where
  "packet_messages ae io msg0 mcastKey data =
     (case MessagePacket_new data of
        Inl ex \<Rightarrow> Some (Inl ex)
      | Inr p0 \<Rightarrow>
          let (decrc, p1) = Decrypt ae (length data) mcastKey p0
          in if decrc > 0 then map_option (\<lambda>r. Inr (Some (fst r))) (read_loop (Message_Read io) (Payload p1) msg0)
             else Some (Inr None))"

text \<open>Every message to every sink, in order; \<open>None\<close> is the null pointer.\<close>

definition deliver :: "'s list option \<Rightarrow> Message list \<Rightarrow> ('s \<times> Message) list" where
  "deliver sinks ms = (case sinks of None \<Rightarrow> [] | Some ss \<Rightarrow> concat (map (\<lambda>m. map (\<lambda>s. (s, m)) ss) ms))"

text \<open>The state that does not change in the receiver: cipher, primitives, the fresh \<open>Message\<close>.\<close>

record 'q source_ctx =
  sc_aead :: aead
  sc_io :: dwm_io
  sc_msg :: Message
  sc_backlog :: "'q backlog_ops"

partial_function (option) backlog_loop ::
    "'q source_ctx \<Rightarrow> 's list option \<Rightarrow> bytes \<Rightarrow> 'q \<Rightarrow> (('s \<times> Message) list \<times> 'q) result option" where
  "backlog_loop c sinks mcastKey q =
     (case q_pop (bl_queue (sc_backlog c)) q of
        None \<Rightarrow> Some (Inr ([], q))
      | Some (ble, q1) \<Rightarrow>
          Option.bind (packet_messages (sc_aead c) (sc_io c) (sc_msg c) mcastKey (be_data ble)) (\<lambda>r.
            case r of
              Inl ex \<Rightarrow> Some (Inl ex)
            | Inr ms \<Rightarrow>
                Option.bind (backlog_loop c sinks mcastKey q1) (\<lambda>r'.
                  Some (map_sum (\<lambda>x. x) (apfst ((@) (deliver sinks (case ms of None \<Rightarrow> [] | Some xs \<Rightarrow> xs)))) r'))))"

partial_function (option) clear_loop :: "'q backlog_ops \<Rightarrow> time_point \<Rightarrow> 'q \<Rightarrow> 'q option" where
  "clear_loop bo now q =
     (case q_pop (bl_queue bo) q of
        None \<Rightarrow> Some q
      | Some (ble, q1) \<Rightarrow>
          if now < be_receiveTime ble + seconds 5 then Some (snd (bl_push_front bo ble q1))
          else clear_loop bo now q1)"

section \<open>The source\<close>

record ('a, 'q) MulticastSource =
  ms_endpoint :: "'a UdpEndpoint"
  ms_key :: MulticastSourceKey
  ms_backlog :: 'q
  ms_queryDone :: bool
  ms_queryThread :: bool
  ms_lastReceiveTime :: time_point

definition MulticastSource_new :: "'q backlog_ops \<Rightarrow> 'a UdpEndpoint \<Rightarrow> ('a, 'q) MulticastSource" where
  "MulticastSource_new bo srcEndpoint =
     \<lparr>ms_endpoint = srcEndpoint, ms_key = MulticastSourceKey_default,
      ms_backlog = q_max_length (bl_queue bo) 100 (q_empty (bl_queue bo)),
      ms_queryDone = True, ms_queryThread = False, ms_lastReceiveTime = 0\<rparr>"

definition MulticastSource_copy :: "'q backlog_ops \<Rightarrow> ('a, 'q) MulticastSource \<Rightarrow> ('a, 'q) MulticastSource" where
  "MulticastSource_copy bo src =
     \<lparr>ms_endpoint = ms_endpoint src, ms_key = MulticastSourceKey_copy (ms_key src),
      ms_backlog = q_max_length (bl_queue bo) 100 (ms_backlog src),
      ms_queryDone = True, ms_queryThread = False, ms_lastReceiveTime = ms_lastReceiveTime src\<rparr>"

text \<open>Made by moving: the new object and the old one, whose backlog is now the empty one.\<close>

definition MulticastSource_move ::
    "'q backlog_ops \<Rightarrow> ('a, 'q) MulticastSource \<Rightarrow> ('a, 'q) MulticastSource \<times> ('a, 'q) MulticastSource" where
  "MulticastSource_move bo src =
     (\<lparr>ms_endpoint = ms_endpoint src, ms_key = MulticastSourceKey_copy (ms_key src),
       ms_backlog = q_max_length (bl_queue bo) 100 (ms_backlog src),
       ms_queryDone = True, ms_queryThread = False, ms_lastReceiveTime = ms_lastReceiveTime src\<rparr>,
      src\<lparr>ms_backlog := q_empty (bl_queue bo)\<rparr>)"

text \<open>The assignments wait for the queries: \<open>None\<close> while one runs.\<close>

definition MulticastSource_copy_assign ::
    "bool \<Rightarrow> ('a, 'q) MulticastSource \<Rightarrow> ('a, 'q) MulticastSource \<Rightarrow> ('a, 'q) MulticastSource option" where
  "MulticastSource_copy_assign same this src =
     (if same then Some this
      else let t = this\<lparr>ms_endpoint := ms_endpoint src, ms_key := MulticastSourceKey_assign (ms_key src) (ms_key this),
                        ms_backlog := ms_backlog src\<rparr>
           in if ms_queryDone t then Some (t\<lparr>ms_queryDone := True, ms_lastReceiveTime := ms_lastReceiveTime src\<rparr>) else None)"

definition MulticastSource_move_assign ::
    "'q backlog_ops \<Rightarrow> bool \<Rightarrow> ('a, 'q) MulticastSource \<Rightarrow> ('a, 'q) MulticastSource
     \<Rightarrow> (('a, 'q) MulticastSource \<times> ('a, 'q) MulticastSource) option" where
  "MulticastSource_move_assign bo same this src =
     (if same then Some (this, src)
      else if ms_queryDone src \<and> ms_queryDone this then
        Some (this\<lparr>ms_queryDone := True, ms_endpoint := ms_endpoint src,
                   ms_key := MulticastSourceKey_assign (ms_key src) (ms_key this), ms_backlog := ms_backlog src,
                   ms_lastReceiveTime := ms_lastReceiveTime src\<rparr>,
              src\<lparr>ms_backlog := q_empty (bl_queue bo)\<rparr>)
      else None)"

text \<open>\<open>Key()\<close> returns a copy, by the copy constructor; \<open>Key(key)\<close> assigns.\<close>

definition source_Key :: "('a, 'q) MulticastSource \<Rightarrow> MulticastSourceKey" where
  "source_Key s = MulticastSourceKey_copy (ms_key s)"

definition source_set_Key :: "MulticastSourceKey \<Rightarrow> ('a, 'q) MulticastSource \<Rightarrow> ('a, 'q) MulticastSource" where
  "source_set_Key k s = s\<lparr>ms_key := MulticastSourceKey_assign k (ms_key s)\<rparr>"

definition ProcessBacklog ::
    "'q source_ctx \<Rightarrow> 's list option \<Rightarrow> ('a, 'q) MulticastSource
     \<Rightarrow> (bool \<times> ('a, 'q) MulticastSource \<times> ('s \<times> Message) list) result option" where
  "ProcessBacklog c sinks s =
     (let mcastKey = sk_value (source_Key s);
          done = (\<lambda>q. q_pop (bl_queue (sc_backlog c)) q = None)
      in if mcastKey \<noteq> [] then
           map_option (map_sum (\<lambda>x. x) (\<lambda>(out, q). (done q, s\<lparr>ms_backlog := q\<rparr>, out)))
             (backlog_loop c sinks mcastKey (ms_backlog s))
         else Some (Inr (done (ms_backlog s), s, [])))"

definition ClearOldBacklog :: "'q backlog_ops \<Rightarrow> time_point \<Rightarrow> ('a, 'q) MulticastSource \<Rightarrow> ('a, 'q) MulticastSource option" where
  "ClearOldBacklog bo now s = map_option (\<lambda>q. s\<lparr>ms_backlog := q\<rparr>) (clear_loop bo now (ms_backlog s))"

definition StartQuery :: "('a, 'q) MulticastSource \<Rightarrow> ('a, 'q) MulticastSource" where
  "StartQuery s = (if ms_queryDone s then s\<lparr>ms_queryDone := False, ms_queryThread := True\<rparr> else s)"

text \<open>The body of the query thread.\<close>

definition QueryForKey ::
    "'a ip_ops \<Rightarrow> 'k credence \<Rightarrow> int \<Rightarrow> 'k \<Rightarrow> int \<Rightarrow> string \<Rightarrow> 'a request_env \<Rightarrow> 'a request_event list
     \<Rightarrow> ('a, 'q) MulticastSource \<Rightarrow> (('a, 'q) MulticastSource \<times> 'a sends) result option" where
  "QueryForKey ip cr now kp fd6 keyDir e evs s =
     map_option (map_sum (\<lambda>x. x) (\<lambda>(key, kq, out). ((source_set_Key key s)\<lparr>ms_queryDone := True\<rparr>, out)))
       (GetKey ip cr e evs (KeyRequester_new now kp fd6 (ms_endpoint s) keyDir))"

text \<open>
  The clock at its four readings, whether \<open>malloc\<close> delivers, and what a failed decryption in
  place leaves in the buffer.
\<close>

record source_env =
  se_received :: time_point
  se_queued :: time_point
  se_expire :: time_point
  se_clear :: time_point
  se_malloc :: bool
  se_left :: "bytes \<Rightarrow> bytes"

definition push_backlog :: "'q backlog_ops \<Rightarrow> BacklogEntry \<Rightarrow> ('a, 'q) MulticastSource \<Rightarrow> ('a, 'q) MulticastSource" where
  "push_backlog bo ble s = s\<lparr>ms_backlog := snd (q_push (bl_queue bo) ble (ms_backlog s))\<rparr>"

definition Source_ProcessPacket ::
    "'q source_ctx \<Rightarrow> 's list option \<Rightarrow> source_env \<Rightarrow> bytes \<Rightarrow> ('a, 'q) MulticastSource
     \<Rightarrow> (bool \<times> ('a, 'q) MulticastSource \<times> ('s \<times> Message) list) result option" where
  "Source_ProcessPacket c sinks e data s =
     (let bo = sc_backlog c;
          clear = (\<lambda>rc s out. map_option (\<lambda>s'. Inr (rc, s', out)) (ClearOldBacklog bo (se_clear e) s));
          s1 = s\<lparr>ms_lastReceiveTime := se_received e\<rparr>;
          mcastKey = sk_value (source_Key s1)
      in if mcastKey \<noteq> [] then
           Option.bind (ProcessBacklog c sinks s1) (\<lambda>r. case r of
             Inl ex \<Rightarrow> Some (Inl ex)
           | Inr (_, s2, out) \<Rightarrow>
               Option.bind (packet_messages (sc_aead c) (sc_io c) (sc_msg c) mcastKey data) (\<lambda>r. case r of
                 Inl ex \<Rightarrow> Some (Inl ex)
               | Inr (Some ms) \<Rightarrow> clear (ms \<noteq> []) s2 (out @ deliver sinks ms)
               | Inr None \<Rightarrow>
                   let s3 = source_set_Key (MulticastSourceKey_new []) s2;
                       s4 = push_backlog bo (BacklogEntry_new (se_queued e) (se_malloc e) (se_left e data)) s3;
                       s5 = (if sk_lastUpdated (source_Key s4) < se_expire e - seconds 5 then StartQuery s4 else s4)
                   in clear False s5 out))
         else
           let s2 = push_backlog bo (BacklogEntry_new (se_queued e) (se_malloc e) data) s1
           in clear True (StartQuery s2) [])"

section \<open>All sources\<close>

type_synonym ('a, 'q) MulticastSources = "'a UdpEndpoint \<rightharpoonup> ('a, 'q) MulticastSource"

definition ClearOld :: "time_point \<Rightarrow> ('a, 'q) MulticastSources \<Rightarrow> ('a, 'q) MulticastSources" where
  "ClearOld now m =
     (\<lambda>ep. case m ep of
             Some s \<Rightarrow> if ms_lastReceiveTime s < now - seconds 20 then None else Some s
           | None \<Rightarrow> None)"

definition Sources_ProcessPacket ::
    "'q source_ctx \<Rightarrow> 's list option \<Rightarrow> source_env \<Rightarrow> time_point \<Rightarrow> 'a UdpEndpoint \<Rightarrow> bytes \<Rightarrow> ('a, 'q) MulticastSources
     \<Rightarrow> (('a, 'q) MulticastSources \<times> ('s \<times> Message) list) result option" where
  "Sources_ProcessPacket c sinks e now srcEndpoint data m =
     (case m srcEndpoint of
        Some s \<Rightarrow>
          map_option (map_sum (\<lambda>x. x) (\<lambda>(rc, s', out). (m(srcEndpoint \<mapsto> s'), out)))
            (Source_ProcessPacket c sinks e data s)
      | None \<Rightarrow>
          let s = fst (MulticastSource_move (sc_backlog c) (MulticastSource_new (sc_backlog c) srcEndpoint))
          in map_option (map_sum (\<lambda>x. x) (\<lambda>(rc, s', out). (ClearOld now (m(srcEndpoint \<mapsto> s')), out)))
               (Source_ProcessPacket c sinks e data s))"

section \<open>Lemmas\<close>

lemma backlog_okD:
  assumes "backlog_ok bo"
  shows "queue_ok (bl_queue bo)" "bl_limit bo (q_max_length (bl_queue bo) n q) = n"
    "fst (q_push (bl_queue bo) e q) = has_room bo q"
    "bl_limit bo (snd (q_push (bl_queue bo) e q)) = bl_limit bo q"
    "q_pop (bl_queue bo) q = Some (e, q') \<Longrightarrow> bl_limit bo q' = bl_limit bo q"
    "fst (bl_push_front bo e q) = has_room bo q"
    "bl_items bo (snd (bl_push_front bo e q)) = (if has_room bo q then [e] else []) @ bl_items bo q"
    "bl_limit bo (snd (bl_push_front bo e q)) = bl_limit bo q"
  using assms unfolding backlog_ok_def by blast+

lemma queue_okD:
  assumes "queue_ok qo"
  shows "q_items qo (q_empty qo) = []" "q_items qo (q_max_length qo n q) = q_items qo q"
    "q_items qo (snd (q_push qo m q)) = q_items qo q @ (if fst (q_push qo m q) then [m] else [])"
    "q_pop qo q = None \<longleftrightarrow> q_items qo q = []"
    "q_pop qo q = Some (m, q') \<Longrightarrow> q_items qo q = m # q_items qo q'"
  using assms unfolding queue_ok_def by (metis prod.collapse)+

lemma queue_cases:
  assumes "queue_ok qo"
  obtains "q_items qo q = []" "q_pop qo q = None"
    | m q' where "q_pop qo q = Some (m, q')" "q_items qo q = m # q_items qo q'"
proof (cases "q_pop qo q")
  case None
  then show thesis using that(1) queue_okD(4)[OF assms] by blast
next
  case (Some x)
  then show thesis using that(2) queue_okD(5)[OF assms] by (cases x) blast
qed

lemma packet_messages_ends: "io_ok io \<Longrightarrow> \<exists>r. packet_messages ae io m0 k d = Some r"
  using message_codec.loop_total[of io]
  by (auto simp: packet_messages_def split: sum.split prod.split)

lemma backlog_loop_ends:
  assumes "io_ok (sc_io c)" "backlog_ok (sc_backlog c)"
  shows "\<exists>r. backlog_loop c sinks k q = Some r \<and>
     (\<forall>out q'. r = Inr (out, q') \<longrightarrow> bl_items (sc_backlog c) q' = [] \<and> bl_limit (sc_backlog c) q' = bl_limit (sc_backlog c) q)"
proof (induction "bl_items (sc_backlog c) q" arbitrary: q)
  case Nil
  then have "q_pop (bl_queue (sc_backlog c)) q = None" using queue_okD(4)[OF backlog_okD(1)[OF assms(2)]] by metis
  with Nil show ?case by (subst backlog_loop.simps) simp
next
  case (Cons e es)
  obtain q1 where q1: "q_pop (bl_queue (sc_backlog c)) q = Some (e, q1)" "bl_items (sc_backlog c) q1 = es"
    using queue_cases[OF backlog_okD(1)[OF assms(2)], of q] Cons.hyps(2) by (metis list.distinct(1) list.inject)
  obtain r where r: "packet_messages (sc_aead c) (sc_io c) (sc_msg c) k (be_data e) = Some r"
    using packet_messages_ends[OF assms(1)] by blast
  obtain r' where r': "backlog_loop c sinks k q1 = Some r'"
    "\<forall>out q'. r' = Inr (out, q') \<longrightarrow> bl_items (sc_backlog c) q' = [] \<and> bl_limit (sc_backlog c) q' = bl_limit (sc_backlog c) q1"
    using Cons.hyps(1)[of q1] q1(2) by blast
  have "bl_limit (sc_backlog c) q1 = bl_limit (sc_backlog c) q" using backlog_okD(5)[OF assms(2) q1(1)] .
  then show ?case using q1(1) r r'
    by (subst backlog_loop.simps) (cases r; cases r'; auto simp: apfst_def map_prod_def)
qed

lemma clear_loop_ends:
  assumes "backlog_ok bo"
  shows "\<exists>q'. clear_loop bo now q = Some q' \<and> length (bl_items bo q') \<le> length (bl_items bo q) \<and> bl_limit bo q' = bl_limit bo q"
proof (induction "bl_items bo q" arbitrary: q)
  case Nil
  then have "q_pop (bl_queue bo) q = None" using queue_okD(4)[OF backlog_okD(1)[OF assms]] by metis
  then show ?case by (subst clear_loop.simps) simp
next
  case (Cons e es)
  obtain q1 where q1: "q_pop (bl_queue bo) q = Some (e, q1)" "bl_items bo q1 = es"
    using queue_cases[OF backlog_okD(1)[OF assms], of q] Cons.hyps(2) by (metis list.distinct(1) list.inject)
  note l = backlog_okD(5)[OF assms q1(1)]
  have n: "length (bl_items bo q) = Suc (length es)" by (simp flip: Cons.hyps(2))
  show ?case
  proof (cases "now < be_receiveTime e + seconds 5")
    case True
    then show ?thesis using q1 l n backlog_okD(7,8)[OF assms, of e q1] by (subst clear_loop.simps) simp
  next
    case False
    obtain q' where "clear_loop bo now q1 = Some q'" "length (bl_items bo q') \<le> length (bl_items bo q1)"
      "bl_limit bo q' = bl_limit bo q1" using Cons.hyps(1)[of q1] q1(2) by blast
    with False q1 l n show ?thesis by (subst clear_loop.simps) auto
  qed
qed

text \<open>What holds of a source between packets: at most 100 packets wait.\<close>

definition source_inv :: "'q backlog_ops \<Rightarrow> ('a, 'q) MulticastSource \<Rightarrow> bool" where
  "source_inv bo s \<longleftrightarrow> bl_limit bo (ms_backlog s) = 100 \<and> length (bl_items bo (ms_backlog s)) \<le> 100"

definition source_ctx_ok :: "'q source_ctx \<Rightarrow> bool" where
  "source_ctx_ok c \<longleftrightarrow> io_ok (sc_io c) \<and> backlog_ok (sc_backlog c)"

lemma MulticastSource_new_inv: "backlog_ok bo \<Longrightarrow> source_inv bo (MulticastSource_new bo ep)"
  by (simp add: source_inv_def MulticastSource_new_def backlog_okD(2) queue_okD(1,2)[OF backlog_okD(1)])

lemma MulticastSource_move_inv:
  "backlog_ok bo \<Longrightarrow> source_inv bo s \<Longrightarrow> source_inv bo (fst (MulticastSource_move bo s))"
  by (simp add: source_inv_def MulticastSource_move_def backlog_okD(2) queue_okD(2)[OF backlog_okD(1)])

lemma push_backlog_inv:
  assumes "backlog_ok bo" "source_inv bo s"
  shows "source_inv bo (push_backlog bo ble s)"
  using assms queue_okD(3)[OF backlog_okD(1)[OF assms(1)], of ble "ms_backlog s"]
  by (auto simp: source_inv_def push_backlog_def backlog_okD(3,4) has_room_def)

lemma ProcessBacklog_ends:
  assumes "source_ctx_ok c" "source_inv (sc_backlog c) s"
  shows "\<exists>r. ProcessBacklog c sinks s = Some r \<and> (\<forall>b s' out. r = Inr (b, s', out) \<longrightarrow>
    source_inv (sc_backlog c) s' \<and> ms_endpoint s' = ms_endpoint s \<and> ms_lastReceiveTime s' = ms_lastReceiveTime s)"
proof -
  obtain r where r: "backlog_loop c sinks (sk_value (source_Key s)) (ms_backlog s) = Some r"
    "\<forall>out q'. r = Inr (out, q') \<longrightarrow> bl_items (sc_backlog c) q' = []
       \<and> bl_limit (sc_backlog c) q' = bl_limit (sc_backlog c) (ms_backlog s)"
    using backlog_loop_ends[of c sinks "sk_value (source_Key s)" "ms_backlog s"] assms(1) by (auto simp: source_ctx_ok_def)
  show ?thesis
  proof (cases "sk_value (source_Key s) = []")
    case True
    then show ?thesis using assms(2) by (simp add: ProcessBacklog_def Let_def)
  next
    case False
    with r assms(2) show ?thesis
      by (cases r) (auto simp: ProcessBacklog_def source_inv_def Let_def)
  qed
qed

lemma ClearOldBacklog_ends:
  assumes "backlog_ok bo" "source_inv bo s"
  shows "\<exists>s'. ClearOldBacklog bo now s = Some s' \<and> source_inv bo s' \<and> ms_endpoint s' = ms_endpoint s
     \<and> ms_lastReceiveTime s' = ms_lastReceiveTime s"
  using clear_loop_ends[OF assms(1), of now "ms_backlog s"] assms(2)
  by (auto simp: ClearOldBacklog_def source_inv_def)

lemma StartQuery_frame:
  "ms_backlog (StartQuery s) = ms_backlog s" "ms_endpoint (StartQuery s) = ms_endpoint s"
  "ms_key (StartQuery s) = ms_key s" "ms_lastReceiveTime (StartQuery s) = ms_lastReceiveTime s"
  "\<not> ms_queryDone (StartQuery s)"
  by (simp_all add: StartQuery_def)

text \<open>What a packet leaves of the source, for the invariants.\<close>

definition after_packet :: "'q backlog_ops \<Rightarrow> source_env \<Rightarrow> ('a, 'q) MulticastSource \<Rightarrow> ('a, 'q) MulticastSource \<Rightarrow> bool" where
  "after_packet bo e s s' \<longleftrightarrow>
     source_inv bo s' \<and> ms_endpoint s' = ms_endpoint s \<and> ms_lastReceiveTime s' = se_received e"

lemma Source_ProcessPacket_ends:
  assumes c: "source_ctx_ok c" and s: "source_inv (sc_backlog c) s"
  shows "\<exists>r. Source_ProcessPacket c sinks e d s = Some r
    \<and> (\<forall>rc s' out. r = Inr (rc, s', out) \<longrightarrow> after_packet (sc_backlog c) e s s')"
proof -
  let ?bo = "sc_backlog c" and ?s1 = "s\<lparr>ms_lastReceiveTime := se_received e\<rparr>"
  have bo: "backlog_ok ?bo" using c by (simp add: source_ctx_ok_def)
  have s1: "source_inv ?bo ?s1" using s by (simp add: source_inv_def)
  have clear: "\<exists>s'. ClearOldBacklog ?bo (se_clear e) t = Some s' \<and> after_packet ?bo e s s'"
    if "source_inv ?bo t" "ms_endpoint t = ms_endpoint s" "ms_lastReceiveTime t = se_received e" for t
    using ClearOldBacklog_ends[OF bo that(1), of "se_clear e"] that(2,3) by (auto simp: after_packet_def)
  show ?thesis
  proof (cases "sk_value (source_Key ?s1) = []")
    case True
    have "source_inv ?bo (StartQuery (push_backlog ?bo b ?s1))" for b
      using push_backlog_inv[OF bo s1, of b] by (simp add: source_inv_def StartQuery_frame)
    then show ?thesis using True clear[of "StartQuery (push_backlog ?bo (BacklogEntry_new (se_queued e) (se_malloc e) d) ?s1)"]
      by (auto simp: Source_ProcessPacket_def Let_def StartQuery_frame push_backlog_def)
  next
    case False
    obtain r1 where r1: "ProcessBacklog c sinks ?s1 = Some r1"
      "\<forall>b s' out. r1 = Inr (b, s', out) \<longrightarrow> source_inv ?bo s'
         \<and> ms_endpoint s' = ms_endpoint ?s1 \<and> ms_lastReceiveTime s' = ms_lastReceiveTime ?s1"
      using ProcessBacklog_ends[OF c s1] by blast
    obtain r2 where r2: "packet_messages (sc_aead c) (sc_io c) (sc_msg c) (sk_value (source_Key ?s1)) d = Some r2"
      using packet_messages_ends c by (metis source_ctx_ok_def)
    show ?thesis
    proof (cases r1)
      case (Inl ex)
      then show ?thesis using False r1 by (simp add: Source_ProcessPacket_def Let_def)
    next
      case (Inr x)
      then obtain b s2 out where x: "r1 = Inr (b, s2, out)" by (cases x) auto
      with r1(2) have s2: "source_inv ?bo s2" "ms_endpoint s2 = ms_endpoint s" "ms_lastReceiveTime s2 = se_received e" by auto
      let ?s4 = "push_backlog ?bo (BacklogEntry_new (se_queued e) (se_malloc e) (se_left e d))
          (source_set_Key (MulticastSourceKey_new []) s2)"
      have s4: "source_inv ?bo ?s4" "ms_endpoint ?s4 = ms_endpoint s" "ms_lastReceiveTime ?s4 = se_received e"
        using push_backlog_inv[OF bo, of "source_set_Key (MulticastSourceKey_new []) s2"] s2
        by (auto simp: source_inv_def source_set_Key_def push_backlog_def)
      then have s5: "source_inv ?bo (StartQuery ?s4)" by (simp add: source_inv_def StartQuery_frame)
      show ?thesis
        using False r1(1) r2 x clear[OF s2] clear[OF s4] clear[of "StartQuery ?s4"] s4 s5
        by (cases r2) (auto simp: Source_ProcessPacket_def Let_def StartQuery_frame split: option.split)
    qed
  qed
qed

section \<open>Runs of a source\<close>

text \<open>What happens to a source: a packet, or the answer of the query thread.\<close>

datatype source_event = Packet source_env bytes | Answer MulticastSourceKey

fun source_step :: "'q source_ctx \<Rightarrow> 's list option \<Rightarrow> ('a, 'q) MulticastSource \<Rightarrow> source_event \<Rightarrow> ('a, 'q) MulticastSource" where
  "source_step c sinks s (Packet e d) =
     (case Source_ProcessPacket c sinks e d s of Some (Inr (rc, s', out)) \<Rightarrow> s' | _ \<Rightarrow> s)"
| "source_step c sinks s (Answer key) = (source_set_Key key s)\<lparr>ms_queryDone := True\<rparr>"

definition source_run_inv :: "'q source_ctx \<Rightarrow> ('a, 'q) MulticastSource \<Rightarrow> bool" where
  "source_run_inv c s \<longleftrightarrow> source_ctx_ok c \<and> source_inv (sc_backlog c) s"

interpretation source_machine: event_machine "source_step c sinks" "source_run_inv c" "\<lambda>_. True" for c sinks
proof
  fix s ev
  assume "source_run_inv c s"
  then show "source_run_inv c (source_step c sinks s ev)"
  proof (cases ev)
    case (Packet e d)
    with Source_ProcessPacket_ends[of c s sinks e d] \<open>source_run_inv c s\<close> show ?thesis
      by (auto simp: source_run_inv_def after_packet_def split: sum.split)
  qed (simp_all add: source_run_inv_def source_inv_def source_set_Key_def)
qed


section \<open>Waiting packets reach the sinks\<close>

text \<open>A datagram of well-formed messages under a key.\<close>

definition carries :: "'q source_ctx \<Rightarrow> bytes \<Rightarrow> bytes \<Rightarrow> Message list \<Rightarrow> bool" where
  "carries c key d ms \<longleftrightarrow> ms \<noteq> [] \<and> (\<forall>m\<in>set ms. message_ok m) \<and>
     aead_dec (sc_aead c) (take k_nonceLen d) key (drop k_nonceLen d) = Some (concat (map (Message_enc (sc_io c)) ms))"

lemma carries_length:
  assumes "source_ctx_ok c" "aead_ok (sc_aead c)" "carries c key d ms"
  shows "k_minPacketLen < length d"
proof -
  let ?x = "concat (map (Message_enc (sc_io c)) ms)"
  have "?x \<noteq> []"
    using assms(1,3) message_codec.wr_nonempty[of "sc_io c"] by (cases ms) (auto simp: carries_def source_ctx_ok_def)
  moreover have "length (drop k_nonceLen d) = length ?x + 16"
    using assms(2,3) unfolding aead_ok_def carries_def by blast
  ultimately show ?thesis by (cases ?x) (auto simp: k_lens)
qed

lemma carries_messages:
  assumes "source_ctx_ok c" "aead_ok (sc_aead c)" "carries c key d ms"
  shows "packet_messages (sc_aead c) (sc_io c) (sc_msg c) key d = Some (Inr (Some ms))"
proof -
  have io: "io_ok (sc_io c)" using assms(1) by (simp add: source_ctx_ok_def)
  let ?x = "concat (map (Message_enc (sc_io c)) ms)"
  have n: "\<forall>m\<in>set ms. message_ok m" "aead_dec (sc_aead c) (take k_nonceLen d) key (drop k_nonceLen d) = Some ?x"
    using assms(3) by (auto simp: carries_def)
  have l: "k_minPacketLen < length d" using carries_length[OF assms] .
  have lx: "length (drop k_nonceLen d) = length ?x + 16"
    using assms(2) n(2) unfolding aead_ok_def by blast
  obtain p0 where p0: "MessagePacket_new d = Inr p0" "pk_buf p0 = d" using l by (simp add: MessagePacket_new_def)
  let ?p = "set_payload_window k_nonceLen (length ?x)
    (p0\<lparr>pk_buf := poke k_nonceLen ?x (pk_buf p0), pk_payloadLength := length ?x\<rparr>)"
  have "Decrypt (sc_aead c) (length d) key p0 = (int (length d), ?p)"
    using l n(2) p0(2) by (simp add: Decrypt_def k_minPacketLen_def)
  moreover have "Payload ?p = good ?x"
    using l lx p0(2) by (simp add: Payload_def set_payload_window_def poke_def k_lens)
  moreover obtain y where "read_loop (Message_Read (sc_io c)) (good ?x) (sc_msg c) = Some (ms, y)"
    using message_codec.loop_concat[OF io n(1)] by blast
  moreover have "length d > 0" using l by (cases d) auto
  ultimately show ?thesis using p0(1) by (simp add: packet_messages_def)
qed

lemma deliver_append: "deliver sinks (xs @ ys) = deliver sinks xs @ deliver sinks ys"
  by (simp add: deliver_def split: option.split)

lemma deliver_Nil [simp]: "deliver sinks [] = []"
  by (simp add: deliver_def split: option.split)

lemma backlog_loop_delivers:
  assumes c: "source_ctx_ok c" "aead_ok (sc_aead c)"
    and w: "list_all2 (\<lambda>e ms. carries c key (be_data e) ms) (bl_items (sc_backlog c) q) mss"
  shows "\<exists>q'. backlog_loop c sinks key q = Some (Inr (deliver sinks (concat mss), q')) \<and> bl_items (sc_backlog c) q' = []
    \<and> bl_limit (sc_backlog c) q' = bl_limit (sc_backlog c) q"
  using w
proof (induction mss arbitrary: q rule: list.induct)
  case Nil
  have bo: "backlog_ok (sc_backlog c)" using c by (simp add: source_ctx_ok_def)
  have i: "bl_items (sc_backlog c) q = []" using Nil.prems by simp
  with queue_okD(4)[OF backlog_okD(1)[OF bo]] have "q_pop (bl_queue (sc_backlog c)) q = None" by metis
  with i show ?case by (subst backlog_loop.simps) simp
next
  case (Cons ms mss)
  have bo: "backlog_ok (sc_backlog c)" using c by (simp add: source_ctx_ok_def)
  obtain e es where i: "bl_items (sc_backlog c) q = e # es" "carries c key (be_data e) ms"
    "list_all2 (\<lambda>e ms. carries c key (be_data e) ms) es mss"
    using Cons.prems by (auto simp: list_all2_Cons2)
  obtain q1 where q1: "q_pop (bl_queue (sc_backlog c)) q = Some (e, q1)" "bl_items (sc_backlog c) q1 = es"
    using queue_cases[OF backlog_okD(1)[OF bo], of q] i(1) by (metis list.distinct(1) list.inject)
  obtain q' where "backlog_loop c sinks key q1 = Some (Inr (deliver sinks (concat mss), q'))"
    "bl_items (sc_backlog c) q' = []" "bl_limit (sc_backlog c) q' = bl_limit (sc_backlog c) q1"
    using Cons.IH[of q1] i(3) q1(2) by auto
  then show ?case
    using q1(1) carries_messages[OF c i(2)] backlog_okD(5)[OF bo q1(1)]
    by (subst backlog_loop.simps) (simp add: deliver_append)
qed

text \<open>A packet that comes while there is no key waits; older ones stay as long as they are fresh.\<close>

lemma clear_loop_fresh:
  assumes bo: "backlog_ok bo" and f: "\<forall>b\<in>set (bl_items bo q). now < be_receiveTime b + seconds 5"
    and l: "bl_limit bo q = 100" "length (bl_items bo q) \<le> 100"
  shows "\<exists>q'. clear_loop bo now q = Some q' \<and> bl_items bo q' = bl_items bo q \<and> bl_limit bo q' = 100"
proof (cases rule: queue_cases[OF backlog_okD(1)[OF bo], of q])
  case 1
  then show ?thesis using l by (subst clear_loop.simps) simp
next
  case (2 e q1)
  have "has_room bo q1" using 2 l backlog_okD(5)[OF bo 2(1)] by (simp add: has_room_def)
  with 2 f l show ?thesis
    using backlog_okD(5)[OF bo 2(1)] backlog_okD(7,8)[OF bo, of e q1] by (subst clear_loop.simps) simp
qed

fun source_packets ::
    "'q source_ctx \<Rightarrow> 's list option \<Rightarrow> (source_env \<times> bytes) list \<Rightarrow> ('a, 'q) MulticastSource
     \<Rightarrow> (('a, 'q) MulticastSource \<times> ('s \<times> Message) list) result option" where
  "source_packets c sinks [] s = Some (Inr (s, []))"
| "source_packets c sinks ((e, d) # ps) s =
     Option.bind (Source_ProcessPacket c sinks e d s) (\<lambda>r. case r of
       Inl ex \<Rightarrow> Some (Inl ex)
     | Inr (rc, s', out) \<Rightarrow> map_option (map_sum (\<lambda>x. x) (apsnd ((@) out))) (source_packets c sinks ps s'))"

definition entry_of :: "source_env \<times> bytes \<Rightarrow> BacklogEntry" where
  "entry_of p = \<lparr>be_receiveTime = se_queued (fst p), be_data = snd p\<rparr>"

text \<open>The packets fit the backlog, and none waits for five seconds while they come in.\<close>

definition waits_for_key :: "(source_env \<times> bytes) list \<Rightarrow> bool" where
  "waits_for_key ps \<longleftrightarrow> length ps \<le> 100 \<and> (\<forall>p\<in>set ps. se_malloc (fst p)) \<and>
     (\<forall>p\<in>set ps. \<forall>p'\<in>set ps. se_clear (fst p) < se_queued (fst p') + seconds 5)"

lemma packet_waits:
  assumes bo: "backlog_ok (sc_backlog c)" and s: "sk_value (ms_key s) = []" "source_inv (sc_backlog c) s"
    and n: "length (bl_items (sc_backlog c) (ms_backlog s)) < 100" "se_malloc e" "d \<noteq> []"
    and f: "\<forall>b\<in>set (bl_items (sc_backlog c) (ms_backlog s) @ [entry_of (e, d)]). se_clear e < be_receiveTime b + seconds 5"
  shows "\<exists>s'. Source_ProcessPacket c sinks e d s = Some (Inr (True, s', [])) \<and> source_inv (sc_backlog c) s'
    \<and> sk_value (ms_key s') = [] \<and> ms_endpoint s' = ms_endpoint s \<and> \<not> ms_queryDone s'
    \<and> bl_items (sc_backlog c) (ms_backlog s') = bl_items (sc_backlog c) (ms_backlog s) @ [entry_of (e, d)]"
proof -
  let ?bo = "sc_backlog c" and ?s1 = "s\<lparr>ms_lastReceiveTime := se_received e\<rparr>"
  let ?s2 = "push_backlog ?bo (BacklogEntry_new (se_queued e) (se_malloc e) d) ?s1"
  have b: "BacklogEntry_new (se_queued e) (se_malloc e) d = entry_of (e, d)"
    using n(2,3) by (simp add: BacklogEntry_new_def entry_of_def)
  have room: "has_room ?bo (ms_backlog s)" using s(2) n(1) by (simp add: has_room_def source_inv_def)
  have i: "bl_items ?bo (ms_backlog ?s2) = bl_items ?bo (ms_backlog s) @ [entry_of (e, d)]"
    using queue_okD(3)[OF backlog_okD(1)[OF bo], of "entry_of (e, d)" "ms_backlog s"] room
    by (simp add: push_backlog_def b backlog_okD(3)[OF bo])
  have l: "bl_limit ?bo (ms_backlog ?s2) = 100" using s(2) backlog_okD(4)[OF bo] by (simp add: push_backlog_def source_inv_def)
  obtain q where q: "clear_loop ?bo (se_clear e) (ms_backlog ?s2) = Some q"
    "bl_items ?bo q = bl_items ?bo (ms_backlog ?s2)" "bl_limit ?bo q = 100"
    using clear_loop_fresh[OF bo, of "ms_backlog ?s2" "se_clear e"] i f n(1) l by auto
  let ?s' = "(StartQuery ?s2)\<lparr>ms_backlog := q\<rparr>"
  have "Source_ProcessPacket c sinks e d s = Some (Inr (True, ?s', []))"
    using s(1) q(1)
    by (simp add: Source_ProcessPacket_def source_Key_def MulticastSourceKey_copy_def ClearOldBacklog_def StartQuery_frame Let_def)
  moreover have "source_inv ?bo ?s'" using q(2,3) i n(1) by (simp add: source_inv_def)
  moreover have "sk_value (ms_key ?s') = []" "ms_endpoint ?s' = ms_endpoint s" "\<not> ms_queryDone ?s'"
    using s(1) by (simp_all add: StartQuery_frame push_backlog_def)
  ultimately show ?thesis using q(2) i by fastforce
qed

lemma packets_wait:
  assumes bo: "backlog_ok (sc_backlog c)" and s: "sk_value (ms_key s) = []" "source_inv (sc_backlog c) s"
    and b: "bl_items (sc_backlog c) (ms_backlog s) = map entry_of ps0"
    and w: "waits_for_key (ps0 @ ps)" "\<forall>p\<in>set ps. snd p \<noteq> []"
  shows "\<exists>s'. source_packets c sinks ps s = Some (Inr (s', [])) \<and> source_inv (sc_backlog c) s' \<and> sk_value (ms_key s') = []
    \<and> ms_endpoint s' = ms_endpoint s \<and> (ps \<noteq> [] \<longrightarrow> \<not> ms_queryDone s')
    \<and> bl_items (sc_backlog c) (ms_backlog s') = map entry_of (ps0 @ ps)"
  using s b w
proof (induction ps arbitrary: s ps0)
  case Nil
  then show ?case by simp
next
  case (Cons p ps)
  obtain e d where p: "p = (e, d)" by (cases p)
  have n: "length (bl_items (sc_backlog c) (ms_backlog s)) < 100" "se_malloc e" "d \<noteq> []"
    using Cons.prems by (auto simp: waits_for_key_def p)
  have f: "\<forall>b\<in>set (bl_items (sc_backlog c) (ms_backlog s) @ [entry_of (e, d)]). se_clear e < be_receiveTime b + seconds 5"
    using Cons.prems(3,4) by (auto simp: waits_for_key_def p entry_of_def)
  obtain s' where s': "Source_ProcessPacket c sinks e d s = Some (Inr (True, s', []))" "source_inv (sc_backlog c) s'"
    "sk_value (ms_key s') = []" "ms_endpoint s' = ms_endpoint s" "\<not> ms_queryDone s'"
    "bl_items (sc_backlog c) (ms_backlog s') = map entry_of (ps0 @ [p])"
    using packet_waits[OF bo Cons.prems(1,2) n f, of sinks] Cons.prems(3) by (auto simp: p)
  obtain s'' where "source_packets c sinks ps s' = Some (Inr (s'', []))" "source_inv (sc_backlog c) s''"
    "sk_value (ms_key s'') = []" "ms_endpoint s'' = ms_endpoint s'" "ps \<noteq> [] \<longrightarrow> \<not> ms_queryDone s''"
    "bl_items (sc_backlog c) (ms_backlog s'') = map entry_of ((ps0 @ [p]) @ ps)"
    using Cons.IH[OF s'(3,2,6)] Cons.prems(4,5) by auto
  with s'(1,4,5) show ?case by (cases ps) (auto simp: p)
qed

lemma backlog_kept:
  assumes c: "source_ctx_ok c" "aead_ok (sc_aead c)" and w: "waits_for_key ps"
    and ps: "list_all2 (\<lambda>p ms. carries c key (snd p) ms) ps mss"
  shows "\<exists>s1. source_packets c sinks ps (MulticastSource_new (sc_backlog c) ep) = Some (Inr (s1, []))
    \<and> bl_items (sc_backlog c) (ms_backlog s1) = map entry_of ps \<and> ms_endpoint s1 = ep \<and> (ps \<noteq> [] \<longrightarrow> \<not> ms_queryDone s1)"
proof -
  let ?bo = "sc_backlog c" and ?s0 = "MulticastSource_new (sc_backlog c) ep"
  have bo: "backlog_ok ?bo" using c(1) by (simp add: source_ctx_ok_def)
  have k0: "sk_value (ms_key ?s0) = []" "bl_items ?bo (ms_backlog ?s0) = map entry_of []"
    by (simp_all add: MulticastSource_new_def source_key_defs queue_okD(1,2)[OF backlog_okD(1)[OF bo]])
  have "d \<noteq> []" if "carries c key d ms" for d ms using carries_length[OF c that] by (cases d) auto
  then have "\<forall>p\<in>set ps. snd p \<noteq> []" using ps by (fastforce simp: list_all2_conv_all_nth in_set_conv_nth)
  with packets_wait[OF bo k0(1) MulticastSource_new_inv[OF bo] k0(2), of ps sinks] w show ?thesis
    by (auto simp: MulticastSource_new_def)
qed

lemma backlog_flushed:
  assumes c: "source_ctx_ok c" "aead_ok (sc_aead c)" and k: "sk_value (ms_key s) \<noteq> []"
    and b: "bl_items (sc_backlog c) (ms_backlog s) = map entry_of ps"
    and ps: "list_all2 (\<lambda>p ms. carries c (sk_value (ms_key s)) (snd p) ms) ps mss" "carries c (sk_value (ms_key s)) d ms"
  shows "\<exists>s2. Source_ProcessPacket c sinks e d s = Some (Inr (True, s2, deliver sinks (concat mss @ ms)))
    \<and> bl_items (sc_backlog c) (ms_backlog s2) = []"
proof -
  let ?bo = "sc_backlog c" and ?k = "sk_value (ms_key s)"
  have bo: "backlog_ok ?bo" using c(1) by (simp add: source_ctx_ok_def)
  have "list_all2 (\<lambda>b ms. carries c ?k (be_data b) ms) (bl_items ?bo (ms_backlog s)) mss"
    using ps(1) by (simp add: b list_all2_map1 entry_of_def)
  from backlog_loop_delivers[OF c this, of sinks] obtain q where q:
    "backlog_loop c sinks ?k (ms_backlog s) = Some (Inr (deliver sinks (concat mss), q))" "bl_items ?bo q = []" by blast
  have "clear_loop ?bo (se_clear e) q = Some q"
    using queue_okD(4)[OF backlog_okD(1)[OF bo], of q] q(2) by (subst clear_loop.simps) simp
  moreover have "ms \<noteq> []" using ps(2) by (simp add: carries_def)
  ultimately have "Source_ProcessPacket c sinks e d s
      = Some (Inr (True, s\<lparr>ms_lastReceiveTime := se_received e, ms_backlog := q\<rparr>, deliver sinks (concat mss @ ms)))"
    using q(1) k carries_messages[OF c ps(2)]
    by (simp add: Source_ProcessPacket_def ProcessBacklog_def ClearOldBacklog_def deliver_append Let_def
        source_Key_def MulticastSourceKey_copy_def)
  then show ?thesis using q(2) by simp
qed

text \<open>
  C8. Nothing is lost while the key is fetched: up to 100 packets that a sender encrypted under its
  key are kept, in order, as long as none waits five seconds; once the query has brought
  the key, the next packet delivers the messages of all of them and then its own, each to
  every sink, and leaves the backlog empty.
\<close>

theorem backlog_reaches_sinks:
  assumes "source_ctx_ok c" "aead_ok (sc_aead c)" "waits_for_key ps" "sk_value k \<noteq> []"
    and "list_all2 (\<lambda>p ms. carries c (sk_value k) (snd p) ms) ps mss" "carries c (sk_value k) d ms"
  shows "\<exists>s1 s2. source_packets c sinks ps (MulticastSource_new (sc_backlog c) ep) = Some (Inr (s1, []))
    \<and> Source_ProcessPacket c sinks e d (source_step c sinks s1 (Answer k))
        = Some (Inr (True, s2, deliver sinks (concat mss @ ms)))
    \<and> bl_items (sc_backlog c) (ms_backlog s2) = []"
proof -
  obtain s1 where s1: "source_packets c sinks ps (MulticastSource_new (sc_backlog c) ep) = Some (Inr (s1, []))"
    "bl_items (sc_backlog c) (ms_backlog s1) = map entry_of ps"
    using backlog_kept[OF assms(1,2,3,5)] by blast
  from backlog_flushed[OF assms(1,2), of "source_step c sinks s1 (Answer k)" ps mss d ms sinks e] s1 assms(4-6)
  show ?thesis by (simp add: source_set_Key_def)
qed

section \<open>Bad datagrams\<close>

lemma empty_backlog_loop:
  assumes "backlog_ok (sc_backlog c)" "bl_items (sc_backlog c) q = []"
  shows "backlog_loop c sinks key q = Some (Inr ([], q))"
  using queue_okD(4)[OF backlog_okD(1)[OF assms(1)], of q] assms(2) by (subst backlog_loop.simps) simp

lemma ProcessBacklog_empty:
  assumes "backlog_ok (sc_backlog c)" "bl_items (sc_backlog c) (ms_backlog s) = []"
  shows "ProcessBacklog c sinks s = Some (Inr (True, s, []))"
proof -
  have "s\<lparr>ms_backlog := ms_backlog s\<rparr> = s" by (cases s) simp
  then show ?thesis
    using assms(2) queue_okD(4)[OF backlog_okD(1)[OF assms(1)], of "ms_backlog s"]
    by (simp add: ProcessBacklog_def empty_backlog_loop[OF assms] Let_def)
qed

text \<open>
  C32. What a datagram in the name of a source can do while its key is known: one of at most 40
  bytes aborts the process; a longer one that does not decrypt takes the key away, starts a new
  query whatever the time of the last one, and leaves one packet waiting.
\<close>

theorem bad_datagrams:
  assumes "backlog_ok (sc_backlog c)" "source_inv (sc_backlog c) s" "bl_items (sc_backlog c) (ms_backlog s) = []"
    "sk_value (ms_key s) \<noteq> []"
  shows "(length d \<le> 40 \<longrightarrow> Source_ProcessPacket c sinks e d s = Some (Inl AssertionFailed))
    \<and> (40 < length d \<and> aead_dec (sc_aead c) (take 24 d) (sk_value (ms_key s)) (drop 24 d) = None
         \<and> seconds 5 < se_expire e \<longrightarrow>
       (\<exists>s'. Source_ProcessPacket c sinks e d s = Some (Inr (False, s', [])) \<and> sk_value (ms_key s') = []
          \<and> \<not> ms_queryDone s'))"
proof -
  let ?bo = "sc_backlog c" and ?s1 = "s\<lparr>ms_lastReceiveTime := se_received e\<rparr>"
  have pb: "ProcessBacklog c sinks ?s1 = Some (Inr (True, ?s1, []))"
    using ProcessBacklog_empty[OF assms(1), of ?s1] assms(3) by simp
  show ?thesis
  proof (intro conjI impI)
    assume "length d \<le> 40"
    then have "packet_messages (sc_aead c) (sc_io c) (sc_msg c) (sk_value (ms_key s)) d = Some (Inl AssertionFailed)"
      by (simp add: packet_messages_def MessagePacket_new_def k_lens)
    then show "Source_ProcessPacket c sinks e d s = Some (Inl AssertionFailed)"
      using pb assms(4) by (simp add: Source_ProcessPacket_def source_Key_def MulticastSourceKey_copy_def Let_def)
  next
    assume d: "40 < length d \<and> aead_dec (sc_aead c) (take 24 d) (sk_value (ms_key s)) (drop 24 d) = None
         \<and> seconds 5 < se_expire e"
    then have pm: "packet_messages (sc_aead c) (sc_io c) (sc_msg c) (sk_value (ms_key s)) d = Some (Inr None)"
      by (simp add: packet_messages_def MessagePacket_new_def Decrypt_def k_lens)
    let ?t = "StartQuery (push_backlog ?bo (BacklogEntry_new (se_queued e) (se_malloc e) (se_left e d))
        (source_set_Key (MulticastSourceKey_new []) ?s1))"
    have "source_inv ?bo (source_set_Key (MulticastSourceKey_new []) ?s1)"
      using assms(2) by (simp add: source_inv_def source_set_Key_def)
    from push_backlog_inv[OF assms(1) this, of "BacklogEntry_new (se_queued e) (se_malloc e) (se_left e d)"]
    obtain q where "clear_loop ?bo (se_clear e) (ms_backlog ?t) = Some q"
      using clear_loop_ends[OF assms(1)] by (simp add: StartQuery_frame) blast
    then have "Source_ProcessPacket c sinks e d s = Some (Inr (False, ?t\<lparr>ms_backlog := q\<rparr>, []))"
      using pb pm assms(4) d
      by (simp add: Source_ProcessPacket_def source_Key_def source_set_Key_def push_backlog_def
          MulticastSourceKey_copy_def ClearOldBacklog_def Let_def)
    moreover have "sk_value (ms_key ?t) = []" "\<not> ms_queryDone ?t"
      by (simp_all add: StartQuery_frame push_backlog_def source_set_Key_def MulticastSourceKey_new_def)
    ultimately show "\<exists>s'. Source_ProcessPacket c sinks e d s = Some (Inr (False, s', [])) \<and> sk_value (ms_key s') = []
          \<and> \<not> ms_queryDone s'" by fastforce
  qed
qed

section \<open>The map of sources\<close>

definition sources_inv :: "'q source_ctx \<Rightarrow> ('a, 'q) MulticastSources \<Rightarrow> bool" where
  "sources_inv c m \<longleftrightarrow> source_ctx_ok c \<and>
     (\<forall>ep s. m ep = Some s \<longrightarrow> ms_endpoint s = ep \<and> source_inv (sc_backlog c) s)"

text \<open>One packet, with the clock of \<open>ClearOld\<close>; nothing is left of a process that aborts.\<close>

fun sources_step ::
    "'q source_ctx \<Rightarrow> 's list option \<Rightarrow> ('a, 'q) MulticastSources
     \<Rightarrow> source_env \<times> time_point \<times> 'a UdpEndpoint \<times> bytes \<Rightarrow> ('a, 'q) MulticastSources" where
  "sources_step c sinks m (e, now, src, d) =
     (case Sources_ProcessPacket c sinks e now src d m of Some (Inr (m', out)) \<Rightarrow> m' | _ \<Rightarrow> Map.empty)"

lemma Sources_ProcessPacket_spec:
  assumes "sources_inv c m"
  shows "\<exists>r. Sources_ProcessPacket c sinks e now src d m = Some r \<and> (\<forall>m' out. r = Inr (m', out) \<longrightarrow>
    sources_inv c m' \<and> (m src = None \<longrightarrow> (\<forall>ep s. m' ep = Some s \<longrightarrow> now - seconds 20 \<le> ms_lastReceiveTime s)
       \<and> (now - seconds 20 \<le> se_received e \<longrightarrow> src \<in> dom m')))"
proof -
  have c: "source_ctx_ok c" using assms by (simp add: sources_inv_def)
  then have bo: "backlog_ok (sc_backlog c)" by (simp add: source_ctx_ok_def)
  let ?n = "fst (MulticastSource_move (sc_backlog c) (MulticastSource_new (sc_backlog c) src))"
  define s where "s = (case m src of Some s \<Rightarrow> s | None \<Rightarrow> ?n)"
  have s: "source_inv (sc_backlog c) s" "ms_endpoint s = src"
    using assms MulticastSource_move_inv[OF bo MulticastSource_new_inv[OF bo], of src]
    by (auto simp: s_def sources_inv_def MulticastSource_move_def MulticastSource_new_def split: option.split)
  obtain r where r: "Source_ProcessPacket c sinks e d s = Some r"
    "\<forall>rc s' out. r = Inr (rc, s', out) \<longrightarrow> after_packet (sc_backlog c) e s s'"
    using Source_ProcessPacket_ends[OF c s(1), of sinks e d] by blast
  have upd: "sources_inv c (m(src \<mapsto> s'))" if "after_packet (sc_backlog c) e s s'" for s'
    using assms that s by (auto simp: sources_inv_def after_packet_def)
  have old: "sources_inv c (ClearOld now m')" if "sources_inv c m'" for m'
    using that by (auto simp: sources_inv_def ClearOld_def split: option.splits if_splits)
  have young: "ClearOld now m' ep = Some t \<Longrightarrow> now - seconds 20 \<le> ms_lastReceiveTime t" for m' ep and t :: "('b, 'a) MulticastSource"
    by (auto simp: ClearOld_def split: option.splits if_splits)
  have stays: "now - seconds 20 \<le> se_received e \<Longrightarrow> after_packet (sc_backlog c) e s s' \<Longrightarrow> src \<in> dom (ClearOld now (m(src \<mapsto> s')))" for s'
    by (auto simp: ClearOld_def after_packet_def)
  show ?thesis
  proof (cases "m src")
    case None
    then have "s = ?n" by (simp add: s_def)
    then have e: "Sources_ProcessPacket c sinks e now src d m =
        Some (map_sum (\<lambda>x. x) (\<lambda>(rc, s', out). (ClearOld now (m(src \<mapsto> s')), out)) r)"
      using None r(1) by (simp add: Sources_ProcessPacket_def Let_def)
    show ?thesis
    proof (cases r)
      case (Inr x)
      then obtain rc s' out where x: "r = Inr (rc, s', out)" by (cases x) auto
      with r(2) have a: "after_packet (sc_backlog c) e s s'" by blast
      show ?thesis using e x old[OF upd[OF a]] young stays[OF _ a] by auto
    qed (use e in simp)
  next
    case (Some t)
    then have "s = t" by (simp add: s_def)
    with Some r upd show ?thesis by (cases r) (auto simp: Sources_ProcessPacket_def)
  qed
qed

lemma sources_step_inv: "sources_inv c m \<Longrightarrow> sources_inv c (sources_step c sinks m ev)"
proof (cases ev)
  case (fields e now src d)
  assume i: "sources_inv c m"
  then have "sources_inv c Map.empty" by (simp add: sources_inv_def)
  with Sources_ProcessPacket_spec[OF i, of sinks e now src d] show ?thesis
    by (auto simp: fields split: sum.split)
qed

interpretation sources_machine: event_machine "sources_step c sinks" "sources_inv c" "\<lambda>_. True" for c sinks
  by unfold_locales (rule sources_step_inv)

text \<open>
  A receiver keeps one source per end point: after any packets, what is stored under an end
  point is the source of that end point, with at most 100 packets waiting; the first packet
  of a new sender is processed, registers it, and drops every source that was silent for more
  than 20 seconds.
\<close>

theorem sources_per_endpoint:
  assumes "source_ctx_ok c" "m = run_events (sources_step c sinks) Map.empty evs"
  shows "(\<forall>ep s. m ep = Some s \<longrightarrow> ms_endpoint s = ep \<and> length (bl_items (sc_backlog c) (ms_backlog s)) \<le> 100)
    \<and> (m src = None \<longrightarrow> (\<exists>r. Sources_ProcessPacket c sinks e now src d m = Some r \<and> (\<forall>m' out. r = Inr (m', out) \<longrightarrow>
        (\<forall>ep s. m' ep = Some s \<longrightarrow> now - seconds 20 \<le> ms_lastReceiveTime s)
        \<and> (now - seconds 20 \<le> se_received e \<longrightarrow> src \<in> dom m'))))"
proof -
  have "sources_inv c Map.empty" using assms(1) by (simp add: sources_inv_def)
  from sources_machine.inv_run[OF this, of evs sinks] have i: "sources_inv c m" by (simp add: assms(2) list_all_iff)
  then show ?thesis using Sources_ProcessPacket_spec[OF i, of sinks e now src d]
    by (auto simp: sources_inv_def source_inv_def)
qed

section \<open>Witnesses\<close>

definition sample_ctx :: "(nat \<times> BacklogEntry list) source_ctx" where
  "sample_ctx = \<lparr>sc_aead = sample_aead, sc_io = sample_io, sc_msg = sample_message, sc_backlog = sample_backlog\<rparr>"

definition sample_env :: "int \<Rightarrow> source_env" where
  "sample_env t = \<lparr>se_received = seconds t, se_queued = seconds t, se_expire = seconds t, se_clear = seconds t,
     se_malloc = True, se_left = \<lambda>d. d\<rparr>"

definition sample_datagram :: bytes where
  "sample_datagram = replicate 24 CHR 0x01 @ Message_enc sample_io sample_message @ replicate 16 CHR 0x00"

lemma sample_ctx_ok: "source_ctx_ok sample_ctx"
  by (simp add: source_ctx_ok_def sample_ctx_def sample_io_ok sample_backlog_ok)

lemma sample_carries: "carries sample_ctx key sample_datagram [sample_message]"
  by (simp add: carries_def sample_ctx_def sample_aead_def sample_datagram_def sample_message_ok k_lens)

lemma sample_waits: "waits_for_key [(sample_env 100, sample_datagram), (sample_env 102, sample_datagram)]"
  by (simp add: waits_for_key_def sample_env_def seconds_def)


lemma backlog_reaches_sinks_witness:
  "\<exists>s1 s2. source_packets sample_ctx (Some [3 :: nat, 4]) [(sample_env 100, sample_datagram), (sample_env 102, sample_datagram)]
       (MulticastSource_new sample_backlog (UdpEndpoint (7 :: nat) 3737)) = Some (Inr (s1, []))
    \<and> Source_ProcessPacket sample_ctx (Some [3 :: nat, 4]) (sample_env 103) sample_datagram
        (source_step sample_ctx (Some [3 :: nat, 4]) s1 (Answer (MulticastSourceKey_new ''k'')))
        = Some (Inr (True, s2, [(3, sample_message), (4, sample_message), (3, sample_message), (4, sample_message),
            (3, sample_message), (4, sample_message)]))"
proof -
  have a: "aead_ok (sc_aead sample_ctx)" by (simp add: sample_ctx_def sample_aead_ok)
  have k: "sk_value (MulticastSourceKey_new ''k'') \<noteq> []" by (simp add: MulticastSourceKey_new_def)
  have l: "list_all2 (\<lambda>p ms. carries sample_ctx (sk_value (MulticastSourceKey_new ''k'')) (snd p) ms)
      [(sample_env 100, sample_datagram), (sample_env 102, sample_datagram)] [[sample_message], [sample_message]]"
    by (simp add: sample_carries)
  show ?thesis
    using backlog_reaches_sinks[OF sample_ctx_ok a sample_waits k l sample_carries, of "Some [3 :: nat, 4]"
        "UdpEndpoint (7 :: nat) 3737" "sample_env 103"]
    by (simp add: deliver_def) (auto simp: sample_ctx_def)
qed

lemma bad_datagrams_witness:
  "Source_ProcessPacket sample_ctx (Some [1 :: nat]) (sample_env 101) ''x''
     (source_step sample_ctx (Some [1 :: nat]) (MulticastSource_new sample_backlog (UdpEndpoint (7 :: nat) 3737))
        (Answer (MulticastSourceKey_new ''k''))) = Some (Inl AssertionFailed)"
proof -
  let ?s = "source_step sample_ctx (Some [1 :: nat]) (MulticastSource_new sample_backlog (UdpEndpoint (7 :: nat) 3737))
        (Answer (MulticastSourceKey_new ''k''))"
  have b: "backlog_ok (sc_backlog sample_ctx)" using sample_backlog_ok by (simp add: sample_ctx_def)
  have "source_inv (sc_backlog sample_ctx) ?s"
    "bl_items (sc_backlog sample_ctx) (ms_backlog ?s) = []" "sk_value (ms_key ?s) \<noteq> []"
    by (simp_all add: sample_ctx_def source_inv_def source_set_Key_def MulticastSource_new_def
        sample_backlog_def sample_queue_def MulticastSourceKey_new_def)
  from bad_datagrams[OF b this, of "''x''" "Some [1 :: nat]" "sample_env 101"] show ?thesis by simp
qed

lemma sources_per_endpoint_witness:
  "\<exists>r. Sources_ProcessPacket sample_ctx (Some [1 :: nat]) (sample_env 130) (seconds 130) (UdpEndpoint (8 :: nat) 3737) ''y''
     Map.empty = Some r \<and> (\<forall>m' out. r = Inr (m', out) \<longrightarrow> UdpEndpoint 8 3737 \<in> dom m')"
  using sources_per_endpoint[OF sample_ctx_ok, of Map.empty "Some [1 :: nat]" "[]" "UdpEndpoint (8 :: nat) 3737"
      "sample_env 130" "seconds 130" "''y''"]
  by (auto simp: sample_env_def seconds_def)

end
