(* ===== verification/MulticastReceiver.thy ===== *)
theory MulticastReceiver
  imports MulticastSource Config
begin

text \<open>
  \<open>DwmMclogMulticastReceiver.{hh,cc}\<close>: a thread that receives the packets of the multicast groups
  and hands each to the source (\<open>MulticastSource\<close>) of its end point, whose messages go to
  the registered sinks. One turn of the loop is one \<open>select\<close>; the answers of the system calls
  are arguments. The lemmas: the registry of sinks holds no sink twice; every packet of
  another host, and only such a packet when local ones are not accepted, reaches the sources; and what
  \<open>Open\<close> leaves behind.
\<close>

section \<open>State\<close>

text \<open>\<open>'s\<close> are pointers to sinks.\<close>

record ('a4, 'a6, 'a, 's, 'q) MulticastReceiver =
  mr_config :: "('a4, 'a6) Config"
  mr_fd :: int
  mr_fd6 :: int
  mr_acceptLocal :: bool
  mr_sinks :: "'s list"
  mr_thread :: bool
  mr_stopfds :: "int \<times> int"
  mr_run :: bool
  mr_sources :: "('a, 'q) MulticastSources"

definition MulticastReceiver_new :: "('a4, 'a6) Config \<Rightarrow> ('a4, 'a6, 'a, 's, 'q) MulticastReceiver" where
  "MulticastReceiver_new cfg =
     \<lparr>mr_config = cfg, mr_fd = -1, mr_fd6 = -1, mr_acceptLocal = True, mr_sinks = [], mr_thread = False,
      mr_stopfds = (-1, -1), mr_run = False, mr_sources = Map.empty\<rparr>"

section \<open>Sockets\<close>

text \<open>What the calls answer: \<open>socket\<close>, the two options, \<open>bind\<close>, joining the group, \<open>pipe\<close>.\<close>

record receiver_socket_env =
  rs_socket :: int
  rs_reuseaddr :: bool
  rs_reuseport :: bool
  rs_bind :: bool
  rs_join :: bool

definition Receiver_BindSocket :: "receiver_socket_env \<Rightarrow> bool" where
  "Receiver_BindSocket e =
     (if rs_reuseaddr e then if rs_reuseport e then if rs_bind e then True else False else False else False)"

definition Receiver_BindSocket6 :: "receiver_socket_env \<Rightarrow> bool" where
  "Receiver_BindSocket6 e =
     (if rs_reuseaddr e then if rs_reuseport e then if rs_bind e then True else False else False else False)"

definition Receiver_JoinGroup :: "('a4, 'a6) addr_consts \<Rightarrow> receiver_socket_env \<Rightarrow> ('a4, 'a6, 'a, 's, 'q) MulticastReceiver \<Rightarrow> bool" where
  "Receiver_JoinGroup ad e s =
     (let mc = cf_mcast (mr_config s);
          shouldJoin = (mc_groupAddr mc \<noteq> addr4_default ad \<and> mc_intfAddr mc \<noteq> addr4_default ad)
      in if shouldJoin then if rs_join e then True else False else True)"

definition Receiver_JoinGroup6 :: "('a4, 'a6) addr_consts \<Rightarrow> receiver_socket_env \<Rightarrow> ('a4, 'a6, 'a, 's, 'q) MulticastReceiver \<Rightarrow> bool" where
  "Receiver_JoinGroup6 ad e s =
     (let mc = cf_mcast (mr_config s);
          shouldJoin = (mc_intfName mc \<noteq> [] \<and> mc_groupAddr6 mc \<noteq> addr6_default ad);
          rc = (if shouldJoin then if rs_join e then True else False else False)
      in if shouldJoin then rc else True)"

text \<open>\<open>Close\<close>: the thread has ended when \<open>join\<close> returns, by the byte in the pipe or \<open>_run\<close>.\<close>

definition Receiver_Close :: "('a4, 'a6, 'a, 's, 'q) MulticastReceiver \<Rightarrow> ('a4, 'a6, 'a, 's, 'q) MulticastReceiver" where
  "Receiver_Close s =
     (let s1 = s\<lparr>mr_run := False, mr_thread := False\<rparr>;
          s2 = (if 0 \<le> mr_fd s1 then s1\<lparr>mr_fd := -1\<rparr> else s1);
          s3 = (if 0 \<le> mr_fd6 s2 then s2\<lparr>mr_fd6 := -1\<rparr> else s2);
          s4 = (if 0 \<le> snd (mr_stopfds s3) then s3\<lparr>mr_stopfds := (fst (mr_stopfds s3), -1)\<rparr> else s3)
      in if 0 \<le> fst (mr_stopfds s4) then s4\<lparr>mr_stopfds := (-1, snd (mr_stopfds s4))\<rparr> else s4)"

record receiver_open_env =
  ro_v4 :: receiver_socket_env
  ro_v6 :: receiver_socket_env
  ro_pipe :: "(int \<times> int) option"

text \<open>A thread assigned over one that was not joined terminates the process.\<close>

text \<open>The two blocks of \<open>Open\<close> that open and join one socket each.\<close>

definition Receiver_Open4 ::
    "('a4, 'a6) addr_consts \<Rightarrow> receiver_open_env \<Rightarrow> bool \<Rightarrow> ('a4, 'a6, 'a, 's, 'q) MulticastReceiver
     \<Rightarrow> ('a4, 'a6, 'a, 's, 'q) MulticastReceiver" where
  "Receiver_Open4 ad e shouldJoin4 s =
     (if shouldJoin4 \<and> mr_fd s < 0 then
        let t = s\<lparr>mr_fd := rs_socket (ro_v4 e)\<rparr>
        in if 0 \<le> mr_fd t then
             if \<not> Receiver_BindSocket (ro_v4 e) then t\<lparr>mr_fd := -1\<rparr>
             else if \<not> Receiver_JoinGroup ad (ro_v4 e) t then t\<lparr>mr_fd := -1\<rparr> else t
           else t
      else s)"

definition Receiver_Open6 ::
    "('a4, 'a6) addr_consts \<Rightarrow> receiver_open_env \<Rightarrow> bool \<Rightarrow> ('a4, 'a6, 'a, 's, 'q) MulticastReceiver
     \<Rightarrow> ('a4, 'a6, 'a, 's, 'q) MulticastReceiver" where
  "Receiver_Open6 ad e shouldJoin6 s =
     (if shouldJoin6 \<and> mr_fd6 s < 0 then
        let t = s\<lparr>mr_fd6 := rs_socket (ro_v6 e)\<rparr>
        in if 0 \<le> mr_fd6 t then
             if \<not> Receiver_BindSocket6 (ro_v6 e) then t\<lparr>mr_fd6 := -1\<rparr>
             else if \<not> Receiver_JoinGroup6 ad (ro_v6 e) t then t\<lparr>mr_fd6 := -1\<rparr> else t
           else t
      else s)"

definition Receiver_Open ::
    "('a4, 'a6) addr_consts \<Rightarrow> receiver_open_env \<Rightarrow> ('a4, 'a6) Config \<Rightarrow> bool \<Rightarrow> ('a4, 'a6, 'a, 's, 'q) MulticastReceiver
     \<Rightarrow> (bool \<times> ('a4, 'a6, 'a, 's, 'q) MulticastReceiver) result" where
  "Receiver_Open ad e cfg acceptLocal s =
     (let mc = cf_mcast cfg;
          s1 = s\<lparr>mr_config := cfg, mr_acceptLocal := acceptLocal\<rparr>;
          shouldJoin4 = (mc_groupAddr mc \<noteq> addr4_default ad \<and> mc_intfAddr mc \<noteq> addr4_default ad);
          shouldJoin6 = (mc_intfName mc \<noteq> [] \<and> mc_groupAddr6 mc \<noteq> addr6_default ad \<and> mc_intfAddr6 mc \<noteq> addr6_default ad)
      in if \<not> (shouldJoin4 \<or> shouldJoin6) then Inr (True, s1)
         else
           let s2 = Receiver_Open4 ad e shouldJoin4 s1;
               s3 = Receiver_Open6 ad e shouldJoin6 s2
           in if (shouldJoin4 \<and> 0 \<le> mr_fd s3) \<or> (shouldJoin6 \<and> 0 \<le> mr_fd6 s3) then
                (case ro_pipe e of
                   Some p \<Rightarrow> if mr_thread s3 then Inl Terminated
                             else Inr (True, s3\<lparr>mr_stopfds := p, mr_run := True, mr_thread := True\<rparr>)
                 | None \<Rightarrow> Inr (False, Receiver_Close s3))
              else Inr (False, Receiver_Close s3))"

definition Receiver_Restart ::
    "('a4, 'a6) addr_consts \<Rightarrow> receiver_open_env \<Rightarrow> ('a4, 'a6) Config \<Rightarrow> ('a4, 'a6, 'a, 's, 'q) MulticastReceiver
     \<Rightarrow> (bool \<times> ('a4, 'a6, 'a, 's, 'q) MulticastReceiver) result" where
  "Receiver_Restart ad e cfg s = (let s1 = Receiver_Close s in Receiver_Open ad e cfg (mr_acceptLocal s1) s1)"

section \<open>Sinks\<close>

definition add_sink :: "'s \<Rightarrow> 's list \<Rightarrow> bool \<times> 's list" where
  "add_sink sink sinks = (if List.find (\<lambda>q. q = sink) sinks = None then (True, sinks @ [sink]) else (False, sinks))"

definition Receiver_AddSink :: "'s \<Rightarrow> ('a4, 'a6, 'a, 's, 'q) MulticastReceiver \<Rightarrow> bool \<times> ('a4, 'a6, 'a, 's, 'q) MulticastReceiver" where
  "Receiver_AddSink sink s = (let (rc, sinks) = add_sink sink (mr_sinks s) in (rc, s\<lparr>mr_sinks := sinks\<rparr>))"

definition Receiver_RemoveSink :: "'s \<Rightarrow> ('a4, 'a6, 'a, 's, 'q) MulticastReceiver \<Rightarrow> bool \<times> ('a4, 'a6, 'a, 's, 'q) MulticastReceiver" where
  "Receiver_RemoveSink sink s =
     (if List.find (\<lambda>q. q = sink) (mr_sinks s) \<noteq> None then (True, s\<lparr>mr_sinks := remove1 sink (mr_sinks s)\<rparr>) else (False, s))"

definition Receiver_ClearSinks :: "('a4, 'a6, 'a, 's, 'q) MulticastReceiver \<Rightarrow> ('a4, 'a6, 'a, 's, 'q) MulticastReceiver" where
  "Receiver_ClearSinks s = s\<lparr>mr_sinks := []\<rparr>"

section \<open>The thread\<close>

text \<open>
  What a descriptor has: nothing or an error (return code 0 or less), or a datagram with its
  source, and the clocks for its processing.
\<close>

datatype 'a arrival = No_packet | Arrived "'a UdpEndpoint" bytes source_env time_point

record 'a receiver_turn =
  rt_selected :: bool
  rt_stop :: bool
  rt_fd :: "'a arrival"
  rt_fd6 :: "'a arrival"

text \<open>One descriptor: \<open>intfAddr\<close> is our own address, as the address of an end point.\<close>

definition receive_on ::
    "'q source_ctx \<Rightarrow> 'a \<Rightarrow> int \<Rightarrow> 'a arrival \<Rightarrow> ('a4, 'a6, 'a, 's, 'q) MulticastReceiver
     \<Rightarrow> (('a4, 'a6, 'a, 's, 'q) MulticastReceiver \<times> ('s \<times> Message) list) result option" where
  "receive_on c intfAddr fd arr s =
     (if 0 \<le> fd then
        (case arr of
           No_packet \<Rightarrow> Some (Inr (s, []))
         | Arrived src d e now \<Rightarrow>
             if take 1500 d \<noteq> [] \<and> (mr_acceptLocal s \<or> Addr src \<noteq> intfAddr) then
               map_option (map_sum (\<lambda>x. x) (\<lambda>(m, out). (s\<lparr>mr_sources := m\<rparr>, out)))
                 (Sources_ProcessPacket c (Some (mr_sinks s)) e now src (take 1500 d) (mr_sources s))
             else Some (Inr (s, [])))
      else Some (Inr (s, [])))"

text \<open>One turn of the loop: whether it goes on, the state, and what the sinks got.\<close>

definition Receiver_turn ::
    "'q source_ctx \<Rightarrow> ('a4 \<Rightarrow> 'a) \<Rightarrow> ('a6 \<Rightarrow> 'a) \<Rightarrow> 'a receiver_turn \<Rightarrow> ('a4, 'a6, 'a, 's, 'q) MulticastReceiver
     \<Rightarrow> (bool \<times> ('a4, 'a6, 'a, 's, 'q) MulticastReceiver \<times> ('s \<times> Message) list) result option" where
  "Receiver_turn c ip4 ip6 t s =
     (if rt_selected t then
        if rt_stop t then Some (Inr (False, s, []))
        else
          Option.bind (receive_on c (ip4 (mc_intfAddr (cf_mcast (mr_config s)))) (mr_fd s) (rt_fd t) s) (\<lambda>r. case r of
            Inl ex \<Rightarrow> Some (Inl ex)
          | Inr (s1, out1) \<Rightarrow>
              map_option (map_sum (\<lambda>x. x) (\<lambda>(s2, out2). (True, s2, out1 @ out2)))
                (receive_on c (ip6 (mc_intfAddr6 (cf_mcast (mr_config s1)))) (mr_fd6 s1) (rt_fd6 t) s1))
      else Some (Inr (True, s, [])))"

text \<open>\<open>Run\<close> over a list of turns: \<open>None\<close>, it still runs when they are used up.\<close>

fun Receiver_loop ::
    "'q source_ctx \<Rightarrow> ('a4 \<Rightarrow> 'a) \<Rightarrow> ('a6 \<Rightarrow> 'a) \<Rightarrow> 'a receiver_turn list \<Rightarrow> ('a4, 'a6, 'a, 's, 'q) MulticastReceiver
     \<Rightarrow> (('a4, 'a6, 'a, 's, 'q) MulticastReceiver \<times> ('s \<times> Message) list) result option" where
  "Receiver_loop c ip4 ip6 ts s =
     (if \<not> mr_run s then Some (Inr (s, []))
      else case ts of
             [] \<Rightarrow> None
           | t # ts' \<Rightarrow>
               Option.bind (Receiver_turn c ip4 ip6 t s) (\<lambda>r. case r of
                 Inl ex \<Rightarrow> Some (Inl ex)
               | Inr (False, s', out) \<Rightarrow> Some (Inr (s', out))
               | Inr (True, s', out) \<Rightarrow> map_option (map_sum (\<lambda>x. x) (apsnd ((@) out))) (Receiver_loop c ip4 ip6 ts' s')))"

declare Receiver_loop.simps [simp del]

definition Receiver_Run ::
    "'q source_ctx \<Rightarrow> ('a4 \<Rightarrow> 'a) \<Rightarrow> ('a6 \<Rightarrow> 'a) \<Rightarrow> 'a receiver_turn list \<Rightarrow> ('a4, 'a6, 'a, 's, 'q) MulticastReceiver
     \<Rightarrow> (('a4, 'a6, 'a, 's, 'q) MulticastReceiver \<times> ('s \<times> Message) list) result option" where
  "Receiver_Run c ip4 ip6 ts s =
     (if 0 \<le> mr_fd s \<or> 0 \<le> mr_fd6 s then
        map_option (map_sum (\<lambda>x. x) (apfst (\<lambda>s'. s'\<lparr>mr_run := False\<rparr>))) (Receiver_loop c ip4 ip6 ts s)
      else Some (Inr (s\<lparr>mr_run := False\<rparr>, [])))"

section \<open>The registry of sinks\<close>

lemma find_eq_None: "List.find (\<lambda>q. q = x) xs = None \<longleftrightarrow> x \<notin> set xs"
  by (auto simp: find_None_iff)

interpretation receiver_sinks: sink_registry add_sink
  by unfold_locales (simp_all add: add_sink_def find_eq_None)

section \<open>Properties\<close>

definition receiver_closed :: "('a4, 'a6, 'a, 's, 'q) MulticastReceiver \<Rightarrow> bool" where
  "receiver_closed s \<longleftrightarrow> mr_fd s < 0 \<and> mr_fd6 s < 0 \<and> fst (mr_stopfds s) < 0 \<and> snd (mr_stopfds s) < 0
     \<and> \<not> mr_run s \<and> \<not> mr_thread s"

lemma Close_closed: "receiver_closed (Receiver_Close s)"
  by (simp add: Receiver_Close_def receiver_closed_def Let_def)

lemma Open_parts_keep:
  "mr_thread (Receiver_Open4 ad e b s) = mr_thread s" "mr_sinks (Receiver_Open4 ad e b s) = mr_sinks s"
  "mr_acceptLocal (Receiver_Open4 ad e b s) = mr_acceptLocal s" "mr_config (Receiver_Open4 ad e b s) = mr_config s"
  "mr_thread (Receiver_Open6 ad e b s) = mr_thread s" "mr_sinks (Receiver_Open6 ad e b s) = mr_sinks s"
  "mr_acceptLocal (Receiver_Open6 ad e b s) = mr_acceptLocal s" "mr_config (Receiver_Open6 ad e b s) = mr_config s"
  by (simp_all add: Receiver_Open4_def Receiver_Open6_def Let_def)

lemma Open_parts_idle:
  "0 \<le> mr_fd s \<Longrightarrow> Receiver_Open4 ad e b s = s" "0 \<le> mr_fd6 s \<Longrightarrow> Receiver_Open6 ad e b s = s"
  by (simp_all add: Receiver_Open4_def Receiver_Open6_def)

lemma Open_shape:
  obtains s1 s3 j4 j6 where "s1 = s\<lparr>mr_config := cfg, mr_acceptLocal := al\<rparr>"
    "mr_thread s3 = mr_thread s \<and> mr_sinks s3 = mr_sinks s \<and> mr_acceptLocal s3 = al \<and> mr_config s3 = cfg"
    "Receiver_Open ad e cfg al s = (if \<not> (j4 \<or> j6) then Inr (True, s1)
       else if (j4 \<and> 0 \<le> mr_fd s3) \<or> (j6 \<and> 0 \<le> mr_fd6 s3) then
              (case ro_pipe e of
                 Some p \<Rightarrow> if mr_thread s3 then Inl Terminated
                           else Inr (True, s3\<lparr>mr_stopfds := p, mr_run := True, mr_thread := True\<rparr>)
               | None \<Rightarrow> Inr (False, Receiver_Close s3))
            else Inr (False, Receiver_Close s3))"
  by (rule that[OF refl _ Receiver_Open_def[unfolded Let_def, THEN trans, OF refl]]) (simp add: Open_parts_keep)

lemma Close_sinks: "mr_sinks (Receiver_Close r) = mr_sinks r" "mr_acceptLocal (Receiver_Close r) = mr_acceptLocal r"
  "mr_config (Receiver_Close r) = mr_config r"
  by (simp_all add: Receiver_Close_def Let_def)

lemma Open_keeps:
  assumes "Receiver_Open ad e cfg al r = Inr (rc, r')"
  shows "mr_sinks r' = mr_sinks r \<and> mr_acceptLocal r' = al \<and> mr_config r' = cfg"
proof (rule Open_shape[where s = r and cfg = cfg and al = al and ad = ad and e = e])
  fix s1 s3 j4 j6
  assume s: "s1 = r\<lparr>mr_config := cfg, mr_acceptLocal := al\<rparr>"
    "mr_thread s3 = mr_thread r \<and> mr_sinks s3 = mr_sinks r \<and> mr_acceptLocal s3 = al \<and> mr_config s3 = cfg"
    and eq: "Receiver_Open ad e cfg al r = (if \<not> (j4 \<or> j6) then Inr (True, s1)
       else if (j4 \<and> 0 \<le> mr_fd s3) \<or> (j6 \<and> 0 \<le> mr_fd6 s3) then
              (case ro_pipe e of
                 Some p \<Rightarrow> if mr_thread s3 then Inl Terminated
                           else Inr (True, s3\<lparr>mr_stopfds := p, mr_run := True, mr_thread := True\<rparr>)
               | None \<Rightarrow> Inr (False, Receiver_Close s3))
            else Inr (False, Receiver_Close s3))"
  show ?thesis using s assms unfolding eq by (auto simp: Close_sinks split: if_splits option.splits)
qed

text \<open>
  Opening leaves nothing half open: an \<open>Open\<close> that reports failure has closed sockets and pipe
  and runs no thread, and \<open>Restart\<close> always returns; but \<open>Open\<close> on a receiver that already
  runs terminates the process, as the thread object is assigned without being joined.
\<close>

theorem receiver_open_or_closed:
  "(Receiver_Open ad e cfg al s = Inr (False, s') \<longrightarrow> receiver_closed s')
   \<and> (\<exists>rc t. Receiver_Restart ad e cfg s = Inr (rc, t))
   \<and> (mr_thread s \<and> 0 \<le> mr_fd s \<and> 0 \<le> mr_fd6 s \<and> ro_pipe e \<noteq> None
        \<and> mc_groupAddr (cf_mcast cfg) \<noteq> addr4_default ad \<and> mc_intfAddr (cf_mcast cfg) \<noteq> addr4_default ad
      \<longrightarrow> Receiver_Open ad e cfg al s = Inl Terminated)"
proof (intro conjI impI)
  assume "Receiver_Open ad e cfg al s = Inr (False, s')"
  then show "receiver_closed s'"
    by (rule_tac Open_shape[where s = s and cfg = cfg and al = al and ad = ad and e = e]) (auto simp: Close_closed split: if_splits option.splits)
next
  have "\<not> mr_thread (Receiver_Close s)" using Close_closed[of s] by (simp add: receiver_closed_def)
  then have "Receiver_Open ad e cfg a (Receiver_Close s) \<noteq> Inl ex" for a ex
    by (rule_tac Open_shape[where s = "Receiver_Close s" and cfg = cfg and al = a and ad = ad and e = e]) (auto split: option.splits)
  then have "Receiver_Restart ad e cfg s \<noteq> Inl ex" for ex by (simp add: Receiver_Restart_def Let_def)
  then obtain x where "Receiver_Restart ad e cfg s = Inr x" by (cases "Receiver_Restart ad e cfg s") auto
  then show "\<exists>rc t. Receiver_Restart ad e cfg s = Inr (rc, t)" by (cases x) auto
next
  assume "mr_thread s \<and> 0 \<le> mr_fd s \<and> 0 \<le> mr_fd6 s \<and> ro_pipe e \<noteq> None
        \<and> mc_groupAddr (cf_mcast cfg) \<noteq> addr4_default ad \<and> mc_intfAddr (cf_mcast cfg) \<noteq> addr4_default ad"
  then show "Receiver_Open ad e cfg al s = Inl Terminated" by (auto simp: Receiver_Open_def Open_parts_idle Let_def)
qed

datatype 's sink_op = Add_sink 's | Remove_sink 's | Clear_sinks

fun sink_step :: "('a4, 'a6, 'a, 's, 'q) MulticastReceiver \<Rightarrow> 's sink_op \<Rightarrow> ('a4, 'a6, 'a, 's, 'q) MulticastReceiver" where
  "sink_step s (Add_sink k) = snd (Receiver_AddSink k s)"
| "sink_step s (Remove_sink k) = snd (Receiver_RemoveSink k s)"
| "sink_step s Clear_sinks = Receiver_ClearSinks s"

lemma AddSink_sel:
  "fst (Receiver_AddSink k s) = fst (add_sink k (mr_sinks s))"
  "mr_sinks (snd (Receiver_AddSink k s)) = snd (add_sink k (mr_sinks s))"
  by (simp_all add: Receiver_AddSink_def case_prod_beta)

lemma sink_step_distinct: "distinct (mr_sinks s) \<Longrightarrow> distinct (mr_sinks (sink_step s op))"
  using receiver_sinks.add_distinct[of "mr_sinks s"]
  by (cases op) (auto simp: AddSink_sel Receiver_RemoveSink_def Receiver_ClearSinks_def)

interpretation receiver_registry: event_machine sink_step "\<lambda>s. distinct (mr_sinks s)" "\<lambda>_. True"
  by unfold_locales (rule sink_step_distinct)

lemma count_deliver:
  "distinct ks \<Longrightarrow> count_list (deliver (Some ks) ms) (k, m) = (if k \<in> set ks then count_list ms m else 0)"
proof (induction ms)
  case (Cons x xs)
  have "count_list (map (\<lambda>s. (s, x)) ks') (k, m) = (if m = x then count_list ks' k else 0)" for ks'
    by (induction ks') auto
  moreover have "count_list ks k = (if k \<in> set ks then 1 else 0)"
    using Cons.prems by (induction ks) (auto simp: count_list_0_iff)
  ultimately show ?case using Cons by (simp add: deliver_def count_list_append)
qed (simp add: deliver_def)

text \<open>
  Every registered sink gets every message once: after any calls of \<open>AddSink\<close>, \<open>RemoveSink\<close> and
  \<open>ClearSinks\<close> no sink is registered twice, \<open>AddSink\<close> reports whether the sink was new, and
  what is delivered of a list of messages contains each message as often for each registered sink as
  the list does, and nothing for any other.
\<close>

theorem receiver_delivers_once_per_sink:
  assumes "s = run_events sink_step (MulticastReceiver_new cfg) ops"
  shows "distinct (mr_sinks s) \<and> (fst (Receiver_AddSink k s) \<longleftrightarrow> k \<notin> set (mr_sinks s))
    \<and> count_list (deliver (Some (mr_sinks s)) ms) (k, m) = (if k \<in> set (mr_sinks s) then count_list ms m else 0)"
proof -
  have "distinct (mr_sinks (MulticastReceiver_new cfg))" by (simp add: MulticastReceiver_new_def)
  from receiver_registry.inv_run[OF this, of ops] have "distinct (mr_sinks s)" by (simp add: assms list_all_iff)
  then show ?thesis using receiver_sinks.add_result[of k "mr_sinks s"] count_deliver[of "mr_sinks s" ms k m]
    by (simp add: AddSink_sel)
qed

section \<open>A run of datagrams from one source\<close>

text \<open>Turns that each bring one datagram of the same source on the IPv4 socket.\<close>

definition v4_turn :: "'a UdpEndpoint \<Rightarrow> bytes \<times> source_env \<times> time_point \<Rightarrow> 'a receiver_turn" where
  "v4_turn src x = (case x of (d, e, now) \<Rightarrow>
     \<lparr>rt_selected = True, rt_stop = False, rt_fd = Arrived src d e now, rt_fd6 = No_packet\<rparr>)"

definition stop_turn :: "'a receiver_turn" where
  "stop_turn = \<lparr>rt_selected = True, rt_stop = True, rt_fd = No_packet, rt_fd6 = No_packet\<rparr>"

text \<open>A source that has its key and nothing waiting.\<close>

definition source_ready :: "'q source_ctx \<Rightarrow> bytes \<Rightarrow> ('a, 'q) MulticastSource \<Rightarrow> bool" where
  "source_ready c key s \<longleftrightarrow> key \<noteq> [] \<and> sk_value (ms_key s) = key \<and> bl_items (sc_backlog c) (ms_backlog s) = []"

lemma source_ready_packet:
  assumes "source_ctx_ok c" "aead_ok (sc_aead c)" "source_ready c key s" "carries c key d ms"
  shows "\<exists>s'. Source_ProcessPacket c sinks e d s = Some (Inr (True, s', deliver sinks ms)) \<and> source_ready c key s'"
proof -
  let ?bo = "sc_backlog c" and ?s1 = "s\<lparr>ms_lastReceiveTime := se_received e\<rparr>"
  have bo: "backlog_ok ?bo" using assms(1) by (simp add: source_ctx_ok_def)
  have i: "bl_items ?bo (ms_backlog s) = []" "sk_value (source_Key ?s1) = key" "key \<noteq> []" "ms \<noteq> []"
    using assms(3,4) by (simp_all add: source_ready_def source_Key_def MulticastSourceKey_copy_def carries_def)
  have "clear_loop ?bo (se_clear e) (ms_backlog s) = Some (ms_backlog s)"
    using queue_okD(4)[OF backlog_okD(1)[OF bo], of "ms_backlog s"] i(1) by (subst clear_loop.simps) simp
  then have "Source_ProcessPacket c sinks e d s = Some (Inr (True, ?s1\<lparr>ms_backlog := ms_backlog s\<rparr>, deliver sinks ms))"
    using i ProcessBacklog_empty[OF bo, of ?s1 sinks] carries_messages[OF assms(1,2,4)]
    by (simp add: Source_ProcessPacket_def ClearOldBacklog_def Let_def)
  then show ?thesis using assms(3) by (simp add: source_ready_def)
qed

lemma receiver_delivers:
  assumes c: "source_ctx_ok c" "aead_ok (sc_aead c)"
    and r: "mr_run s" "0 \<le> mr_fd s" "mr_acceptLocal s \<or> Addr src \<noteq> ip4 (mc_intfAddr (cf_mcast (mr_config s)))"
    and src: "mr_sources s src = Some ms0" "source_ready c key ms0"
    and ds: "list_all2 (\<lambda>x ms. carries c key (fst x) ms \<and> length (fst x) \<le> 1500) xs mss"
  shows "\<exists>s'. Receiver_loop c ip4 ip6 (map (v4_turn src) xs @ [stop_turn]) s = Some (Inr (s', deliver (Some (mr_sinks s)) (concat mss)))"
  using r src ds
proof (induction xs arbitrary: s ms0 mss)
  case Nil
  then have "mss = []" by simp
  with Nil show ?case by (subst Receiver_loop.simps) (simp add: Receiver_turn_def stop_turn_def)
next
  case (Cons x xs)
  obtain d e now where x: "x = (d, e, now)" by (cases x)
  obtain ms mss' where m: "mss = ms # mss'" "carries c key d ms" "length d \<le> 1500"
    "list_all2 (\<lambda>x ms. carries c key (fst x) ms \<and> length (fst x) \<le> 1500) xs mss'"
    using Cons.prems(6) by (auto simp: list_all2_Cons1 x)
  have d: "take 1500 d = d" "d \<noteq> []" using m(3) carries_length[OF c m(2)] by (auto simp: k_lens)
  obtain t where t: "Source_ProcessPacket c (Some (mr_sinks s)) e d ms0 = Some (Inr (True, t, deliver (Some (mr_sinks s)) ms))"
    "source_ready c key t" using source_ready_packet[OF c Cons.prems(5) m(2)] by blast
  let ?s = "s\<lparr>mr_sources := (mr_sources s)(src \<mapsto> t)\<rparr>"
  have "Receiver_turn c ip4 ip6 (v4_turn src x) s = Some (Inr (True, ?s, deliver (Some (mr_sinks s)) ms))"
    using Cons.prems(2,3,4) t(1) d
    by (simp add: Receiver_turn_def v4_turn_def x receive_on_def Sources_ProcessPacket_def)
  moreover obtain s' where "Receiver_loop c ip4 ip6 (map (v4_turn src) xs @ [stop_turn]) ?s
      = Some (Inr (s', deliver (Some (mr_sinks ?s)) (concat mss')))"
    using Cons.IH[of ?s t mss'] Cons.prems(1,2,3) t(2) m(4) by auto
  ultimately show ?case using Cons.prems(1) by (subst Receiver_loop.simps) (simp add: m(1) deliver_append)
qed

section \<open>Witnesses\<close>

definition sample_addr :: "(nat, nat) addr_consts" where
  "sample_addr = \<lparr>addr4_default = 0, addr6_default = 0, addr4_group = 239, addr6_group = 240\<rparr>"

definition sample_receiver_config :: "(nat, nat) Config" where
  "sample_receiver_config =
     \<lparr>cf_loopback = LoopbackConfig_Init, cf_mcast = (MulticastConfig_Init sample_addr)\<lparr>mc_intfAddr := 5\<rparr>,
      cf_service = ServiceConfig_Init, cf_filters = [], cf_files = FilesConfig_Init\<rparr>"

definition sample_receiver_env :: receiver_open_env where
  "sample_receiver_env =
     (let e = \<lparr>rs_socket = 3, rs_reuseaddr = True, rs_reuseport = True, rs_bind = True, rs_join = True\<rparr>
      in \<lparr>ro_v4 = e, ro_v6 = e, ro_pipe = Some (6, 7)\<rparr>)"

lemma receiver_open_or_closed_witness:
  "Receiver_Open sample_addr sample_receiver_env sample_receiver_config True
     ((MulticastReceiver_new sample_receiver_config :: (nat, nat, nat, nat, nat) MulticastReceiver)
        \<lparr>mr_fd := 3, mr_fd6 := 4, mr_thread := True\<rparr>) = Inl Terminated"
  using receiver_open_or_closed[of sample_addr sample_receiver_env sample_receiver_config True
      "(MulticastReceiver_new sample_receiver_config :: (nat, nat, nat, nat, nat) MulticastReceiver)
        \<lparr>mr_fd := 3, mr_fd6 := 4, mr_thread := True\<rparr>"]
  by (simp add: sample_receiver_env_def sample_receiver_config_def sample_addr_def MulticastConfig_Init_def Let_def)

lemma receiver_delivers_once_per_sink_witness:
  "count_list (deliver (Some (mr_sinks (run_events sink_step
       (MulticastReceiver_new sample_receiver_config :: (nat, nat, nat, nat, nat) MulticastReceiver)
       [Add_sink 3, Add_sink 4, Add_sink 3, Remove_sink 4]))) [sample_message]) (3, sample_message) = 1"
  using receiver_delivers_once_per_sink[OF refl, of sample_receiver_config "[Add_sink (3 :: nat), Add_sink 4, Add_sink 3, Remove_sink 4]"
      3 "[sample_message]" sample_message]
  by (simp add: MulticastReceiver_new_def Receiver_AddSink_def Receiver_RemoveSink_def add_sink_def)

end
