(* ===== verification/LoopbackSender.thy ===== *)
theory LoopbackSender
  imports PacketSender
begin

text \<open>
  \<open>DwmMclogLoopbackSender.{hh,cc}\<close>: the sink through which an application's logger hands its
  messages to the local mclogd, in the clear, by UDP to 127.0.0.1. The socket calls' answers
  are arguments; the sending thread is \<open>PacketSender\<close>'s with this class's \<open>SendPacket\<close>, and
  it flushes its packet when it ends.
\<close>

record ('q, 'a) LoopbackSender =
  lps_ofd :: int
  lps_thread :: "('q, ('a UdpEndpoint \<times> bytes) list) sender_thread"

text \<open>\<open>OpenSocket\<close>: \<open>sock\<close> is what \<open>socket\<close> returns.\<close>

definition LoopbackSender_OpenSocket :: "int \<Rightarrow> ('q, 'a) LoopbackSender \<Rightarrow> bool \<times> ('q, 'a) LoopbackSender" where
  "LoopbackSender_OpenSocket sock s =
     (if lps_ofd s < 0 then (0 \<le> sock, s\<lparr>lps_ofd := sock\<rparr>) else (False, s))"

text \<open>
  \<open>SetSndBuf\<close>: the sizes handed to \<open>setsockopt\<close>, given the default size (or what the variable
  held before, if \<open>getsockopt\<close> fails) and which calls succeed.
\<close>

definition try_sizes :: "int list" where
  "try_sizes = [131072, 98304, 65536, 32768]"

fun first_size :: "(int \<Rightarrow> bool) \<Rightarrow> int list \<Rightarrow> int list \<times> int" where
  "first_size setopt [] = ([], 0)"
| "first_size setopt (sz # szs) =
     (if setopt sz then ([sz], sz) else let (tried, found) = first_size setopt szs in (sz # tried, found))"

definition SetSndBuf :: "(int \<Rightarrow> bool) \<Rightarrow> int option \<Rightarrow> int \<Rightarrow> int \<Rightarrow> int list" where
  "SetSndBuf setopt getopt uninit fd =
     (if 0 \<le> fd then
        let defaultsz = (case getopt of Some d \<Rightarrow> d | None \<Rightarrow> uninit);
            (tried, foundsz) = (case getopt of Some d \<Rightarrow> first_size setopt try_sizes | None \<Rightarrow> ([], 0))
        in if foundsz > defaultsz then tried else tried @ [defaultsz]
      else [])"

definition LoopbackSender_Process ::
    "(Message, 'q) queue_ops \<Rightarrow> Message \<Rightarrow> ('q, 'a) LoopbackSender \<Rightarrow> bool \<times> ('q, 'a) LoopbackSender" where
  "LoopbackSender_Process qo msg s =
     (let (ok, t) = enqueue qo msg (lps_thread s) in (ok, s\<lparr>lps_thread := t\<rparr>))"

text \<open>\<open>Start\<close>: the new thread begins with an empty packet and whatever the queue holds.\<close>

definition LoopbackSender_Start :: "int \<Rightarrow> ('q, 'a) LoopbackSender \<Rightarrow> bool \<times> ('q, 'a) LoopbackSender" where
  "LoopbackSender_Start sock s =
     (if \<not> th_run (lps_thread s) then
        let (opened, s1) = LoopbackSender_OpenSocket sock s
        in if opened then
             (True, s1\<lparr>lps_thread := (lps_thread s1)\<lparr>th_run := True, th_pkt := packet_1200, th_pc := AtTop\<rparr>\<rparr>)
           else (False, s1)
      else (False, s))"

definition LoopbackSender_new :: "(Message, 'q) queue_ops \<Rightarrow> int \<Rightarrow> ('q, 'a) LoopbackSender" where
  "LoopbackSender_new qo sock =
     snd (LoopbackSender_Start sock
       \<lparr>lps_ofd = -1,
        lps_thread = \<lparr>th_run = False, th_queue = q_empty qo, th_pkt = packet_1200, th_pc = Finished, th_sent = [],
                      th_accepted = []\<rparr>\<rparr>)"

text \<open>\<open>Stop\<close> up to the signal, and after the thread was joined.\<close>

definition LoopbackSender_Stop :: "('q, 'a) LoopbackSender \<Rightarrow> bool \<times> ('q, 'a) LoopbackSender" where
  "LoopbackSender_Stop s =
     (if th_run (lps_thread s) then (True, s\<lparr>lps_thread := (lps_thread s)\<lparr>th_run := False\<rparr>\<rparr>) else (False, s))"

definition LoopbackSender_joined :: "('q, 'a) LoopbackSender \<Rightarrow> ('q, 'a) LoopbackSender" where
  "LoopbackSender_joined s = (if 0 \<le> lps_ofd s then s\<lparr>lps_ofd := -1\<rparr> else s)"

text \<open>\<open>lo\<close> is the address 127.0.0.1; the port is \<open>MCLOGD_DEFAULT_PORT\<close>.\<close>

definition LoopbackSender_SendPacket ::
    "'a \<Rightarrow> (bytes \<Rightarrow> 'a UdpEndpoint \<Rightarrow> int, ('a UdpEndpoint \<times> bytes) list) send_op" where
  "LoopbackSender_SendPacket lo sendto pkt =
     (let (sendrc, out) = SendTo sendto (UdpEndpoint lo 3737) pkt in (0 < sendrc, out, Reset pkt))"

definition LoopbackSender_Run ::
    "(Message, 'q) queue_ops \<Rightarrow> dwm_io \<Rightarrow> 'a \<Rightarrow> ('q, ('a UdpEndpoint \<times> bytes) list) sender_thread
     \<Rightarrow> (bytes \<Rightarrow> 'a UdpEndpoint \<Rightarrow> int) sender_event \<Rightarrow> ('q, ('a UdpEndpoint \<times> bytes) list) sender_thread" where
  "LoopbackSender_Run qo io lo = thread_step qo io (LoopbackSender_SendPacket lo) True"

section \<open>It is a packet sender\<close>

text \<open>What a datagram sent in the clear carries between nonce and tag.\<close>

definition plain_payload :: "('a UdpEndpoint \<times> bytes) list \<Rightarrow> bytes" where
  "plain_payload out =
     (case out of [] \<Rightarrow> [] | (dst, d) # _ \<Rightarrow> take (length d - k_minPacketLen) (drop k_nonceLen d))"

lemma plain_payload_datagram:
  assumes "packet_wf pk"
  shows "plain_payload [(dst, datagram pk)] = payload_bytes pk"
proof -
  obtain n t where d: "datagram pk = n @ payload_bytes pk @ t" "length n = k_nonceLen" "length t = k_macLen"
    using datagram_plain[OF assms] by blast
  then show ?thesis unfolding plain_payload_def by (simp add: k_minPacketLen_def)
qed

interpretation loopback: packet_sender "LoopbackSender_SendPacket lo" plain_payload "\<lambda>_. True" for lo
proof
  fix pk n rc d pk'
  assume "packet_wf pk" "LoopbackSender_SendPacket lo n pk = (rc, d, pk')"
  then show "plain_payload d = payload_bytes pk \<and> packet_wf pk' \<and> payload_bytes pk' = [] \<and> pk_len pk' = pk_len pk"
    using Reset_wf[of pk]
    by (auto simp: LoopbackSender_SendPacket_def SendTo_def Let_def plain_payload_datagram Reset_def)
qed

interpretation loopback_run: event_machine "LoopbackSender_Run qo io lo"
  "\<lambda>s. queue_ok qo \<and> thread_inv qo io plain_payload s" "event_fits io (\<lambda>_. True)" for qo io lo
  by unfold_locales (auto simp: LoopbackSender_Run_def intro: loopback.thread_step_inv)

section \<open>Properties\<close>

definition loopback_start :: "(Message, 'q) queue_ops \<Rightarrow> ('q, ('a UdpEndpoint \<times> bytes) list) sender_thread" where
  "loopback_start qo = thread_start (q_empty qo)"

lemma loopback_start_new:
  "0 \<le> sock \<Longrightarrow> lps_thread (LoopbackSender_new qo sock) = loopback_start qo"
  by (simp add: LoopbackSender_new_def LoopbackSender_Start_def LoopbackSender_OpenSocket_def loopback_start_def thread_start_def)

lemma loopback_started_inv: "queue_ok qo \<Longrightarrow> thread_inv qo io plain_payload (loopback_start qo)"
  unfolding loopback_start_def by (rule loopback.thread_start_inv) (simp_all add: queue_ok_def)


definition sample_sendto :: "bytes \<Rightarrow> nat UdpEndpoint \<Rightarrow> int" where
  "sample_sendto d dst = int (length d)"

lemma sample_fits: "fits_packet sample_io sample_message"
  by (simp add: fits_packet_def sample_message_length)


text \<open>
  Accepted messages do get sent: whenever the sending thread is at the top of its loop and
  has not been told to stop, the wait that succeeds, a pop for each queued message and one
  more, and a wait that times out hand over every message accepted so far, grouped into
  datagrams that read back as those messages.
\<close>

theorem loopback_sender_drains:
  assumes "queue_ok qo" "io_ok io" "thread_inv qo io plain_payload s" "th_pc s = AtTop" "th_run s"
    "\<forall>m\<in>set (th_accepted s). message_ok m"
    "s' = run_events (LoopbackSender_Run qo io lo) s (drain_schedule (length (q_items qo (th_queue s))) sendto)"
  shows "\<exists>gs. concat gs = th_accepted s
    \<and> list_all2 (\<lambda>d ms. \<exists>y. read_loop (Message_Read io) (good (plain_payload d)) m0 = Some (ms, y)) (th_sent s') gs"
proof -
  from loopback.drain_empties[OF assms(1,3,4,5) _ assms(2,6) assms(7)[unfolded LoopbackSender_Run_def]]
  obtain gs where g: "packed qo io plain_payload s' gs []" "th_accepted s' = th_accepted s" "concat gs = th_accepted s"
    by auto
  then have "\<forall>m\<in>set (th_accepted s'). message_ok m" using assms(6) by simp
  from loopback.groups_decode[OF assms(2) g(1) this] g(3) show ?thesis by blast
qed

lemma loopback_sender_drains_witness:
  "\<exists>gs. concat gs = [sample_message] \<and> list_all2 (\<lambda>d ms. \<exists>y.
       read_loop (Message_Read sample_io) (good (plain_payload d)) sample_message = Some (ms, y))
     (th_sent (run_events (LoopbackSender_Run sample_queue sample_io (0 :: nat))
        (LoopbackSender_Run sample_queue sample_io 0 (loopback_start sample_queue) (Process_call sample_message))
        (drain_schedule 1 sample_sendto))) gs"
proof -
  let ?s = "LoopbackSender_Run sample_queue sample_io (0 :: nat) (loopback_start sample_queue) (Process_call sample_message)"
  have s: "th_accepted ?s = [sample_message]" "th_pc ?s = AtTop" "th_run ?s"
    "length (q_items sample_queue (th_queue ?s)) = 1"
    by (simp_all add: loopback_start_def thread_start_def LoopbackSender_Run_def enqueue_def sample_queue_def)
  have "thread_inv sample_queue sample_io plain_payload ?s"
    unfolding LoopbackSender_Run_def
    by (rule loopback.thread_step_inv[OF sample_queue_ok loopback_started_inv[OF sample_queue_ok]])
      (simp add: event_fits_def sample_fits)
  from loopback_sender_drains[OF sample_queue_ok sample_io_ok this s(2,3) _ refl, where lo = 0 and sendto = sample_sendto and ?m0.0 = sample_message]
  show ?thesis using s(1,4) sample_message_ok by simp
qed

text \<open>
  A message too long for a packet is lost without notice: with an empty packet, a message
  whose encoding exceeds 1160 bytes makes the sender transmit a datagram without payload, and
  the packet is empty afterwards; the caller was told true.
\<close>

theorem oversized_message_is_dropped:
  assumes "packet_wf (th_pkt s)" "payload_bytes (th_pkt s) = []" "pk_len (th_pkt s) = 1160"
    "1160 < length (Message_enc io msg)"
  shows "\<exists>d p. pack_message io (LoopbackSender_SendPacket lo) sendto msg s = s\<lparr>th_pkt := p, th_sent := th_sent s @ [d]\<rparr>
    \<and> plain_payload d = [] \<and> payload_bytes p = []"
proof -
  have pos: "pk_pos pk = 0" if "packet_wf pk" "payload_bytes pk = []" for pk
    using that payload_bytes_length[of pk] by (simp add: packet_wf_def)
  have "pk_len (th_pkt s) < pk_pos (th_pkt s) + length (Message_enc io msg)" using assms(3,4) by simp
  then obtain p1 where p1: "Add (Message_Write io msg) (th_pkt s) = (False, p1)" "packet_wf p1"
      "payload_bytes p1 = []" "length (pk_buf p1) = length (pk_buf (th_pkt s))"
    using Add_full[OF assms(1) Message_Write_enc] assms(2) by metis
  have l1: "pk_len p1 = 1160" using p1(2,4) assms(1,3) by (simp add: packet_wf_def)
  obtain rc d p2 where d: "LoopbackSender_SendPacket lo sendto p1 = (rc, d, p2)" by (cases "LoopbackSender_SendPacket lo sendto p1")
  from loopback.send_packet[OF p1(2) _ d] p1(3) l1 have d2: "plain_payload d = []" "packet_wf p2" "payload_bytes p2 = []"
    "pk_len p2 = 1160" by auto
  then have "pk_len p2 < pk_pos p2 + length (Message_enc io msg)" using assms(4) by simp
  then obtain p3 where p3: "Add (Message_Write io msg) p2 = (False, p3)" "payload_bytes p3 = []"
    using Add_full[OF d2(2) Message_Write_enc] d2(3) by metis
  have "pack_message io (LoopbackSender_SendPacket lo) sendto msg s = s\<lparr>th_pkt := p3, th_sent := th_sent s @ [d]\<rparr>"
    using p1(1) d p3(1) by (simp add: pack_message_def send_now_def)
  with d2(1) p3(2) show ?thesis by blast
qed

lemma long_encoding: "1160 < length (Message_enc sample_io (sample_message\<lparr>msg_data := replicate 1200 CHR ''x''\<rparr>))"
  by (simp add: sample_message_def sample_io_def Message_enc_def MessageHeader_enc_def
      Timestamp_enc_def MessageOrigin_enc_def sample_enc_str_def)

lemma oversized_message_is_dropped_witness:
  "\<exists>d p. pack_message sample_io (LoopbackSender_SendPacket (0 :: nat)) sample_sendto
       (sample_message\<lparr>msg_data := replicate 1200 CHR ''x''\<rparr>) (loopback_start sample_queue) =
      (loopback_start sample_queue)\<lparr>th_pkt := p, th_sent := [d]\<rparr> \<and> plain_payload d = []"
proof -
  have "th_sent (loopback_start sample_queue) = []" "th_pkt (loopback_start sample_queue) = packet_1200"
    by (simp_all add: loopback_start_def thread_start_def)
  note t = this
  from oversized_message_is_dropped[of "loopback_start sample_queue", OF _ _ _ long_encoding, of "0 :: nat" sample_sendto]
    packet_1200_wf obtain d p where
    "pack_message sample_io (LoopbackSender_SendPacket (0 :: nat)) sample_sendto
       (sample_message\<lparr>msg_data := replicate 1200 CHR ''x''\<rparr>) (loopback_start sample_queue) =
     (loopback_start sample_queue)\<lparr>th_pkt := p, th_sent := th_sent (loopback_start sample_queue) @ [d]\<rparr>"
    "plain_payload d = []" unfolding t(2) by blast
  then show ?thesis unfolding t(1) by auto
qed

end
