(* ===== verification/LoopbackReceiver.thy ===== *)
theory LoopbackReceiver
  imports MulticastReceiver LoopbackSender
begin

text \<open>
  \<open>apps/mclogd/DwmMclogLoopbackReceiver.{hh,cc}\<close>: the thread of \<open>mclogd\<close> that receives the
  datagrams of local applications, in the clear, and hands their messages to the registered
  sinks. One turn of the loop is one \<open>select\<close>; the answers of the system calls are arguments.
  The lemmas: whatever arrives, the thread keeps running until it is stopped, leaves nothing
  open and delivers only messages that passed validation; and what the datagrams of
  a \<open>LoopbackSender\<close> deliver.
\<close>

section \<open>State\<close>

record ('a4, 'a6, 's) LoopbackReceiver =
  lr_config :: "('a4, 'a6) Config"
  lr_ifd :: int
  lr_ifd6 :: int
  lr_stopfds :: "int \<times> int"
  lr_run :: bool
  lr_thread :: bool
  lr_sinks :: "'s list"

text \<open>\<open>garbage\<close>: the constructor does not set the two descriptors of the pipe.\<close>

definition LoopbackReceiver_new :: "('a4, 'a6) Config \<Rightarrow> int \<times> int \<Rightarrow> ('a4, 'a6, 's) LoopbackReceiver" where
  "LoopbackReceiver_new cfg garbage =
     \<lparr>lr_config = cfg, lr_ifd = -1, lr_ifd6 = -1, lr_stopfds = garbage, lr_run = False, lr_thread = False, lr_sinks = []\<rparr>"

section \<open>Starting and stopping\<close>

text \<open>\<open>p\<close>: what \<open>pipe\<close> delivers. A thread assigned over one that was not joined terminates the process.\<close>

definition LoopbackReceiver_Start ::
    "(int \<times> int) option \<Rightarrow> ('a4, 'a6) Config \<Rightarrow> ('a4, 'a6, 's) LoopbackReceiver
     \<Rightarrow> (bool \<times> ('a4, 'a6, 's) LoopbackReceiver) result" where
  "LoopbackReceiver_Start p config s =
     (let s1 = s\<lparr>lr_config := config, lr_run := True\<rparr>
      in case p of
           Some fds \<Rightarrow> if lr_thread s1 then Inl Terminated else Inr (True, s1\<lparr>lr_stopfds := fds, lr_thread := True\<rparr>)
         | None \<Rightarrow> Inr (False, s1))"

text \<open>\<open>Stop\<close>, when \<open>join\<close> has returned; what the thread did until then is \<open>LoopbackReceiver_Run\<close>.\<close>

definition LoopbackReceiver_Stop :: "('a4, 'a6, 's) LoopbackReceiver \<Rightarrow> ('a4, 'a6, 's) LoopbackReceiver" where
  "LoopbackReceiver_Stop s =
     (let s1 = s\<lparr>lr_run := False\<rparr> in if lr_thread s1 then s1\<lparr>lr_thread := False, lr_stopfds := (-1, -1)\<rparr> else s1)"

definition LoopbackReceiver_Restart ::
    "(int \<times> int) option \<Rightarrow> ('a4, 'a6) Config \<Rightarrow> ('a4, 'a6, 's) LoopbackReceiver
     \<Rightarrow> (bool \<times> ('a4, 'a6, 's) LoopbackReceiver) result" where
  "LoopbackReceiver_Restart p config s = LoopbackReceiver_Start p config (LoopbackReceiver_Stop s)"

text \<open>The search and the insertion are written as in \<open>MulticastReceiver::AddSink\<close>.\<close>

definition LoopbackReceiver_AddSink ::
    "'s \<Rightarrow> ('a4, 'a6, 's) LoopbackReceiver \<Rightarrow> bool \<times> ('a4, 'a6, 's) LoopbackReceiver" where
  "LoopbackReceiver_AddSink sink s =
     (let (rc, sinks) = add_sink sink (lr_sinks s) in (rc, s\<lparr>lr_sinks := sinks\<rparr>))"

section \<open>Sockets\<close>

text \<open>
  \<open>SetRcvBuf\<close>: the sizes handed to \<open>setsockopt\<close>, given the size \<open>getsockopt\<close> tells (if it
  succeeds) and which calls succeed: the first size accepted, or else the old one, is set again.
\<close>

definition rcv_sizes :: "int list" where
  "rcv_sizes = [1048576, 786432, 524288, 393216, 262144, 196608, 131072]"

fun try_until :: "(int \<Rightarrow> bool) \<Rightarrow> int list \<Rightarrow> int \<Rightarrow> int list \<times> int" where
  "try_until setopt [] bufsz = ([], bufsz)"
| "try_until setopt (sz # szs) bufsz =
     (if setopt sz then ([sz], sz) else let (tried, b) = try_until setopt szs bufsz in (sz # tried, b))"

definition SetRcvBuf :: "(int \<Rightarrow> bool) \<Rightarrow> int option \<Rightarrow> int \<Rightarrow> int list" where
  "SetRcvBuf setopt getopt fd =
     (if 0 \<le> fd then
        (case getopt of
           Some bufsz0 \<Rightarrow> let (tried, bufsz) = try_until setopt rcv_sizes bufsz0 in tried @ [bufsz]
         | None \<Rightarrow> [])
      else [])"

record loopback_socket_env =
  ls_socket :: int
  ls_bind :: bool
  ls_setopt :: "int \<Rightarrow> bool"
  ls_getopt :: "int option"

text \<open>The result, the sizes tried for the receive buffer, and the state.\<close>

definition OpenIpv4Socket ::
    "loopback_socket_env \<Rightarrow> ('a4, 'a6, 's) LoopbackReceiver \<Rightarrow> bool \<times> int list \<times> ('a4, 'a6, 's) LoopbackReceiver" where
  "OpenIpv4Socket e s =
     (let s1 = (if 0 \<le> lr_ifd s then s\<lparr>lr_ifd := -1\<rparr> else s); s2 = s1\<lparr>lr_ifd := ls_socket e\<rparr>
      in if 0 \<le> lr_ifd s2 then
           if ls_bind e then (True, SetRcvBuf (ls_setopt e) (ls_getopt e) (lr_ifd s2), s2)
           else (False, [], s2\<lparr>lr_ifd := -1\<rparr>)
         else (False, [], s2))"

definition OpenIpv6Socket ::
    "loopback_socket_env \<Rightarrow> ('a4, 'a6, 's) LoopbackReceiver \<Rightarrow> bool \<times> int list \<times> ('a4, 'a6, 's) LoopbackReceiver" where
  "OpenIpv6Socket e s =
     (let s1 = (if 0 \<le> lr_ifd6 s then s\<lparr>lr_ifd6 := -1\<rparr> else s); s2 = s1\<lparr>lr_ifd6 := ls_socket e\<rparr>
      in if 0 \<le> lr_ifd6 s2 then
           if ls_bind e then (True, SetRcvBuf (ls_setopt e) (ls_getopt e) (lr_ifd6 s2), s2)
           else (False, [], s2\<lparr>lr_ifd6 := -1\<rparr>)
         else (False, [], s2))"

definition LoopbackReceiver_DesiredSocketsOpen :: "('a4, 'a6, 's) LoopbackReceiver \<Rightarrow> bool" where
  "LoopbackReceiver_DesiredSocketsOpen s \<longleftrightarrow>
     (let lc = cf_loopback (lr_config s);
          v4ok = (if ListenIpv4 lc then 0 \<le> lr_ifd s else lr_ifd s < 0);
          v6ok = (if ListenIpv6 lc then 0 \<le> lr_ifd6 s else lr_ifd6 s < 0)
      in v4ok \<and> v6ok)"

section \<open>The thread\<close>

text \<open>
  The loop's variables \<open>buf\<close> and \<open>msg\<close>; one turn: \<open>_run\<close> at the test of the loop, whether \<open>select\<close>
  found something, and for each descriptor, if it is set, what \<open>recvfrom\<close> delivers
  (\<open>None\<close>, that it fails).
\<close>

record loop_vars =
  lv_buf :: bytes
  lv_msg :: Message

record loopback_turn =
  lt_run :: bool
  lt_selected :: bool
  lt_fd :: "(sockaddr_in \<times> bytes) option option"
  lt_fd6 :: "(sockaddr_in6 \<times> bytes) option option"
  lt_stop :: bool

text \<open>What follows \<open>RecvFrom\<close>: the messages of the packet go to the sinks.\<close>

definition after_receive ::
    "dwm_io \<Rightarrow> 's list \<Rightarrow> int \<Rightarrow> MessagePacket \<Rightarrow> loop_vars \<Rightarrow> (loop_vars \<times> ('s \<times> Message) list) option" where
  "after_receive io sinks rc pkt v =
     (if 0 < rc then
        map_option (\<lambda>(ms, m). (\<lparr>lv_buf = pk_buf pkt, lv_msg = m\<rparr>, deliver (Some sinks) ms))
          (read_loop (Message_Read io) (Payload pkt) (lv_msg v))
      else Some (v\<lparr>lv_buf := pk_buf pkt\<rparr>, []))"

text \<open>The body of the loop: whether it goes on, the variables, and what the sinks got.\<close>

definition LoopbackReceiver_turn ::
    "dwm_io \<Rightarrow> ('a4, 'a6, 's) LoopbackReceiver \<Rightarrow> loopback_turn \<Rightarrow> loop_vars
     \<Rightarrow> (bool \<times> loop_vars \<times> ('s \<times> Message) list) result option" where
  "LoopbackReceiver_turn io s t v =
     (if lt_selected t then
        if 0 \<le> lr_ifd s \<and> lt_fd t \<noteq> None then
          (case MessagePacket_new (lv_buf v) of
             Inl ex \<Rightarrow> Some (Inl ex)
           | Inr p0 \<Rightarrow> let (rc, _, pkt) = RecvFrom (the (lt_fd t)) p0
                       in map_option (\<lambda>r. Inr (True, r)) (after_receive io (lr_sinks s) rc pkt v))
        else if 0 \<le> lr_ifd6 s \<and> lt_fd6 t \<noteq> None then
          (case MessagePacket_new (lv_buf v) of
             Inl ex \<Rightarrow> Some (Inl ex)
           | Inr p0 \<Rightarrow> let (rc, _, pkt) = RecvFrom6 (the (lt_fd6 t)) p0
                       in map_option (\<lambda>r. Inr (True, r)) (after_receive io (lr_sinks s) rc pkt v))
        else if lt_stop t then Some (Inr (False, v, []))
        else Some (Inr (True, v, []))
      else Some (Inr (True, v, [])))"

text \<open>\<open>None\<close>: the loop still runs when the turns are used up.\<close>

fun LoopbackReceiver_loop ::
    "dwm_io \<Rightarrow> ('a4, 'a6, 's) LoopbackReceiver \<Rightarrow> loopback_turn list \<Rightarrow> loop_vars \<Rightarrow> ('s \<times> Message) list result option" where
  "LoopbackReceiver_loop io s [] v = None"
| "LoopbackReceiver_loop io s (t # ts) v =
     (if lt_run t then
        Option.bind (LoopbackReceiver_turn io s t v) (\<lambda>r. case r of
          Inl ex \<Rightarrow> Some (Inl ex)
        | Inr (False, v', out) \<Rightarrow> Some (Inr out)
        | Inr (True, v', out) \<Rightarrow> map_option (map_sum (\<lambda>x. x) ((@) out)) (LoopbackReceiver_loop io s ts v'))
      else Some (Inr []))"

definition close_sockets :: "('a4, 'a6, 's) LoopbackReceiver \<Rightarrow> ('a4, 'a6, 's) LoopbackReceiver" where
  "close_sockets s =
     (let s1 = (if 0 \<le> lr_ifd s then s\<lparr>lr_ifd := -1\<rparr> else s) in if 0 \<le> lr_ifd6 s1 then s1\<lparr>lr_ifd6 := -1\<rparr> else s1)"

definition LoopbackReceiver_Run ::
    "dwm_io \<Rightarrow> loopback_socket_env \<Rightarrow> loopback_socket_env \<Rightarrow> loop_vars \<Rightarrow> loopback_turn list
     \<Rightarrow> ('a4, 'a6, 's) LoopbackReceiver \<Rightarrow> (('a4, 'a6, 's) LoopbackReceiver \<times> ('s \<times> Message) list) result option" where
  "LoopbackReceiver_Run io e e6 v ts s =
     (let s1 = (if ListenIpv4 (cf_loopback (lr_config s)) then snd (snd (OpenIpv4Socket e s)) else s);
          s2 = (if ListenIpv6 (cf_loopback (lr_config s1)) then snd (snd (OpenIpv6Socket e6 s1)) else s1)
      in if LoopbackReceiver_DesiredSocketsOpen s2 then
           map_option (map_sum (\<lambda>x. x) (\<lambda>out. ((close_sockets s2)\<lparr>lr_run := False\<rparr>, out))) (LoopbackReceiver_loop io s2 ts v)
         else Some (Inr ((close_sockets s2)\<lparr>lr_run := False\<rparr>, [])))"

section \<open>What the thread delivers\<close>

context stream_codec begin

text \<open>What every successful read establishes holds of all values of a read loop.\<close>

lemma loop_all:
  assumes "env_ok e" "\<And>is x. \<not> failb (snd (rd e is x)) \<Longrightarrow> P (fst (rd e is x))"
    "read_loop (rd e) is x0 = Some (xs, y)"
  shows "\<forall>x\<in>set xs. P x"
  using assms(3)
proof (induction "length (inb is)" arbitrary: "is" x0 xs rule: less_induct)
  case less
  show ?case
  proof (cases "failb (snd (rd e is x0))")
    case True
    then show ?thesis using less.prems by (simp add: read_loop_stop)
  next
    case False
    then have sh: "length (inb (snd (rd e is x0))) < length (inb is)" using rd_shrinks[OF assms(1)] by blast
    obtain xs' where xs: "xs = fst (rd e is x0) # xs'" "read_loop (rd e) (snd (rd e is x0)) (fst (rd e is x0)) = Some (xs', y)"
      using less.prems False read_loop_step[of "rd e" "is" x0 "fst (rd e is x0)" "snd (rd e is x0)"]
      by (auto split: Option.bind_splits)
    from less.hyps[OF sh xs(2)] assms(2)[OF False] show ?thesis by (simp add: xs(1))
  qed
qed

end

definition validated :: "Message \<Rightarrow> bool" where
  "validated m \<longleftrightarrow> facility (msg_header m) \<le> fac_local7 \<and> severity (msg_header m) \<le> sev_debug
     \<and> IsValidHostname (hostname (origin (msg_header m))) \<and> IsValidAppName (appname (origin (msg_header m)))"

definition delivers_valid :: "'s list \<Rightarrow> ('s \<times> Message) list \<Rightarrow> bool" where
  "delivers_valid sinks out \<longleftrightarrow> (\<forall>(k, m)\<in>set out. k \<in> set sinks \<and> validated m)"

lemma after_receive_ends:
  assumes "io_ok io" "length (pk_buf pkt) = 1500"
  obtains v' out where "after_receive io sinks rc pkt v = Some (v', out)" "length (lv_buf v') = 1500" "delivers_valid sinks out"
proof (cases "0 < rc")
  case True
  obtain ms m where r: "read_loop (Message_Read io) (Payload pkt) (lv_msg v) = Some (ms, m)"
    using message_codec.loop_total[OF assms(1)] by (metis surj_pair)
  have "\<forall>x\<in>set ms. validated x"
    by (rule message_codec.loop_all[OF assms(1) _ r]) (auto simp: validated_def dest: Message_Read_valid[OF prod.collapse[symmetric]])
  then have "delivers_valid sinks (deliver (Some sinks) ms)" by (auto simp: delivers_valid_def deliver_def)
  then show thesis using that True r assms(2) by (simp add: after_receive_def)
next
  case False
  then show thesis using that assms(2) by (simp add: after_receive_def delivers_valid_def)
qed

lemma turn_ends:
  assumes "io_ok io" "length (lv_buf v) = 1500"
  obtains b v' out where "LoopbackReceiver_turn io s t v = Some (Inr (b, v', out))" "length (lv_buf v') = 1500"
    "delivers_valid (lr_sinks s) out" "lt_selected t \<and> (lr_ifd s < 0 \<or> lt_fd t = None) \<and> (lr_ifd6 s < 0 \<or> lt_fd6 t = None) \<and> lt_stop t \<longrightarrow> \<not> b"
proof -
  obtain p0 where p0: "MessagePacket_new (lv_buf v) = Inr p0" "length (pk_buf p0) = 1500"
    using assms(2) by (auto simp: MessagePacket_new_def k_lens)
  obtain rc a pkt where r: "RecvFrom (the (lt_fd t)) p0 = (rc, a, pkt)" by (cases "RecvFrom (the (lt_fd t)) p0")
  obtain rc6 a6 pkt6 where r6: "RecvFrom6 (the (lt_fd6 t)) p0 = (rc6, a6, pkt6)" by (cases "RecvFrom6 (the (lt_fd6 t)) p0")
  have l: "length (pk_buf pkt) = 1500" "length (pk_buf pkt6) = 1500"
    using RecvFrom_window[OF r] RecvFrom6_window[OF r6] p0(2) by simp_all
  obtain v1 o1 where x1: "after_receive io (lr_sinks s) rc pkt v = Some (v1, o1)" "length (lv_buf v1) = 1500" "delivers_valid (lr_sinks s) o1"
    using after_receive_ends[OF assms(1) l(1)] by blast
  obtain v2 o2 where x2: "after_receive io (lr_sinks s) rc6 pkt6 v = Some (v2, o2)" "length (lv_buf v2) = 1500" "delivers_valid (lr_sinks s) o2"
    using after_receive_ends[OF assms(1) l(2)] by blast
  have e: "delivers_valid (lr_sinks s) []" by (simp add: delivers_valid_def)
  consider "\<not> lt_selected t" | "lt_selected t" "0 \<le> lr_ifd s \<and> lt_fd t \<noteq> None"
    | "lt_selected t" "\<not> (0 \<le> lr_ifd s \<and> lt_fd t \<noteq> None)" "0 \<le> lr_ifd6 s \<and> lt_fd6 t \<noteq> None"
    | "lt_selected t" "\<not> (0 \<le> lr_ifd s \<and> lt_fd t \<noteq> None)" "\<not> (0 \<le> lr_ifd6 s \<and> lt_fd6 t \<noteq> None)" by blast
  then show thesis
  proof cases
    case 1 then show ?thesis by (intro that[of True v "[]"]) (simp_all add: LoopbackReceiver_turn_def assms(2) e)
  next
    case 2 then show ?thesis by (intro that[of True v1 o1]) (auto simp: LoopbackReceiver_turn_def p0(1) r x1)
  next
    case 3
    then have "LoopbackReceiver_turn io s t v = Some (Inr (True, v2, o2))"
      by (simp only: LoopbackReceiver_turn_def if_True if_False p0(1) r6 x2 simp_thms sum.case prod.case Let_def option.map)
    then show ?thesis using 3(2,3) x2 by (intro that[of True v2 o2]) auto
  next
    case 4
    then have "LoopbackReceiver_turn io s t v = (if lt_stop t then Some (Inr (False, v, [])) else Some (Inr (True, v, [])))"
      by (simp only: LoopbackReceiver_turn_def if_True if_False)
    then show ?thesis using assms(2) e by (intro that[of "\<not> lt_stop t" v "[]"]) simp_all
  qed
qed

lemma loop_ends:
  assumes io: "io_ok io" and v: "length (lv_buf v) = 1500" and t: "\<exists>t\<in>set ts. \<not> lt_run t"
  obtains out where "LoopbackReceiver_loop io s ts v = Some (Inr out)" "delivers_valid (lr_sinks s) out"
  using v t
proof (induction ts arbitrary: v thesis)
  case (Cons t ts)
  show ?case
  proof (cases "lt_run t")
    case False
    then show ?thesis using Cons.prems(1)[of "[]"] by (simp add: delivers_valid_def)
  next
    case True
    obtain b v' out where x: "LoopbackReceiver_turn io s t v = Some (Inr (b, v', out))" "length (lv_buf v') = 1500"
      "delivers_valid (lr_sinks s) out" using turn_ends[OF io Cons.prems(2)] by blast
    show ?thesis
    proof (cases b)
      case True
      have "\<exists>t\<in>set ts. \<not> lt_run t" using Cons.prems(3) \<open>lt_run t\<close> by auto
      from Cons.IH[OF _ x(2) this] obtain out' where o: "LoopbackReceiver_loop io s ts v' = Some (Inr out')" "delivers_valid (lr_sinks s) out'"
        by blast
      then show ?thesis using Cons.prems(1)[of "out @ out'"] x(1,3) True \<open>lt_run t\<close> by (auto simp: delivers_valid_def)
    next
      case False
      then show ?thesis using Cons.prems(1)[of out] x(1,3) \<open>lt_run t\<close> by simp
    qed
  qed
qed simp

section \<open>Properties\<close>

text \<open>
  C36. No datagram ends or blocks the receiving thread: whatever arrives on its sockets, and whatever
  \<open>recvfrom\<close> answers, \<open>Run\<close> raises nothing, and it returns once \<open>_run\<close> is cleared, with both
  sockets closed; all it has delivered are messages whose facility, severity, host and
  application name passed validation, to registered sinks only.
\<close>

theorem loopback_receiver_survives:
  assumes "io_ok io" "length (lv_buf v) = 1500" "\<exists>t\<in>set ts. \<not> lt_run t"
  shows "\<exists>s' out. LoopbackReceiver_Run io e e6 v ts s = Some (Inr (s', out))
    \<and> lr_ifd s' < 0 \<and> lr_ifd6 s' < 0 \<and> \<not> lr_run s' \<and> (\<forall>(k, m)\<in>set out. k \<in> set (lr_sinks s) \<and> validated m)"
proof -
  have sel: "lr_sinks (snd (snd (OpenIpv4Socket e' t))) = lr_sinks t" "lr_sinks (snd (snd (OpenIpv6Socket e' t))) = lr_sinks t" for e' t
    by (simp_all add: OpenIpv4Socket_def OpenIpv6Socket_def Let_def)
  have cl: "lr_ifd (close_sockets t) < 0" "lr_ifd6 (close_sockets t) < 0" for t by (simp_all add: close_sockets_def Let_def)
  define s1 where "s1 = (if ListenIpv4 (cf_loopback (lr_config s)) then snd (snd (OpenIpv4Socket e s)) else s)"
  define s2 where "s2 = (if ListenIpv6 (cf_loopback (lr_config s1)) then snd (snd (OpenIpv6Socket e6 s1)) else s1)"
  have k: "lr_sinks s2 = lr_sinks s" by (simp add: s2_def s1_def sel)
  obtain out where "LoopbackReceiver_loop io s2 ts v = Some (Inr out)" "delivers_valid (lr_sinks s2) out"
    by (rule loop_ends[OF assms(1,2,3), where s = s2])
  then show ?thesis using cl[of s2]
    by (cases "LoopbackReceiver_DesiredSocketsOpen s2")
       (auto simp: LoopbackReceiver_Run_def delivers_valid_def k simp flip: s1_def s2_def)
qed

lemma LoopbackReceiver_AddSink_registry:
  "fst (LoopbackReceiver_AddSink k s) \<longleftrightarrow> k \<notin> set (lr_sinks s)"
  "set (lr_sinks (snd (LoopbackReceiver_AddSink k s))) = insert k (set (lr_sinks s))"
  "distinct (lr_sinks s) \<Longrightarrow> distinct (lr_sinks (snd (LoopbackReceiver_AddSink k s)))"
  using receiver_sinks.add_result[of k "lr_sinks s"] receiver_sinks.add_set[of k "lr_sinks s"]
    receiver_sinks.add_distinct[of "lr_sinks s" k]
  by (simp_all add: LoopbackReceiver_AddSink_def case_prod_beta)

section \<open>The datagrams of a sender\<close>

text \<open>Turns that each bring one datagram on the IPv4 socket, and the turn in which it is stopped.\<close>

definition ipv4_turn :: "sockaddr_in \<Rightarrow> bytes \<Rightarrow> loopback_turn" where
  "ipv4_turn src d = \<lparr>lt_run = True, lt_selected = True, lt_fd = Some (Some (src, d)), lt_fd6 = None, lt_stop = False\<rparr>"

definition loopback_stop :: loopback_turn where
  "loopback_stop = \<lparr>lt_run = True, lt_selected = True, lt_fd = None, lt_fd6 = None, lt_stop = True\<rparr>"

text \<open>The datagram carries these messages in the clear.\<close>

definition carries_plain :: "dwm_io \<Rightarrow> bytes \<Rightarrow> Message list \<Rightarrow> bool" where
  "carries_plain io d ms \<longleftrightarrow> k_minPacketLen < length d \<and> length d \<le> 1500 \<and> (\<forall>m\<in>set ms. message_ok m) \<and>
     take (length d - k_minPacketLen) (drop k_nonceLen d) = concat (map (Message_enc io) ms)"

lemma loopback_delivers:
  assumes io: "io_ok io" and fd: "0 \<le> lr_ifd s" and v: "length (lv_buf v) = 1500"
    and ds: "list_all2 (carries_plain io) ds mss"
  shows "LoopbackReceiver_loop io s (map (ipv4_turn src) ds @ [loopback_stop]) v
    = Some (Inr (deliver (Some (lr_sinks s)) (concat mss)))"
  using v ds
proof (induction ds arbitrary: v mss)
  case Nil
  then show ?case using fd by (simp add: LoopbackReceiver_turn_def loopback_stop_def deliver_def)
next
  case (Cons d ds)
  obtain ms mss' where m: "mss = ms # mss'" "carries_plain io d ms" "list_all2 (carries_plain io) ds mss'"
    using Cons.prems(2) by (auto simp: list_all2_Cons1)
  obtain p0 where p0: "MessagePacket_new (lv_buf v) = Inr p0" "length (pk_buf p0) = 1500"
    using Cons.prems(1) by (auto simp: MessagePacket_new_def k_lens)
  obtain p where p: "RecvFrom (Some (src, d)) p0 = (int (length d), Some src, p)"
    "Payload p = good (concat (map (Message_enc io) ms))" "length (pk_buf p) = 1500"
    using RecvFrom_datagram[of d p0 src] m(2) p0(2) by (auto simp: carries_plain_def)
  obtain y where y: "read_loop (Message_Read io) (Payload p) (lv_msg v) = Some (ms, y)"
    using message_codec.loop_concat[OF io, of ms "lv_msg v"] m(2) p(2) by (auto simp: carries_plain_def)
  have "LoopbackReceiver_turn io s (ipv4_turn src d) v =
      Some (Inr (True, \<lparr>lv_buf = pk_buf p, lv_msg = y\<rparr>, deliver (Some (lr_sinks s)) ms))"
    using fd p0(1) p(1) y m(2) by (auto simp: LoopbackReceiver_turn_def ipv4_turn_def after_receive_def carries_plain_def)
  moreover have "LoopbackReceiver_loop io s (map (ipv4_turn src) ds @ [loopback_stop]) \<lparr>lv_buf = pk_buf p, lv_msg = y\<rparr>
      = Some (Inr (deliver (Some (lr_sinks s)) (concat mss')))"
    using Cons.IH[OF _ m(3)] p(3) by simp
  ultimately show ?case by (simp add: m(1) deliver_append) (simp add: ipv4_turn_def)
qed

section \<open>Witnesses\<close>

definition sample_loopback_env :: loopback_socket_env where
  "sample_loopback_env = \<lparr>ls_socket = 3, ls_bind = True, ls_setopt = \<lambda>_. True, ls_getopt = Some 4096\<rparr>"

definition sample_vars :: loop_vars where
  "sample_vars = \<lparr>lv_buf = replicate 1500 CHR ''#'', lv_msg = sample_message\<rparr>"

definition sample_turns :: "loopback_turn list" where
  "sample_turns = [ipv4_turn \<lparr>sin_addr = 1, sin_port = 2\<rparr> ''garbage'',
     \<lparr>lt_run = False, lt_selected = False, lt_fd = None, lt_fd6 = None, lt_stop = False\<rparr>]"

lemma loopback_receiver_survives_witness:
  "\<exists>s' out. LoopbackReceiver_Run sample_io sample_loopback_env sample_loopback_env sample_vars sample_turns
      (LoopbackReceiver_new sample_receiver_config (0, 0) :: (nat, nat, nat) LoopbackReceiver) = Some (Inr (s', out))
    \<and> lr_ifd s' < 0 \<and> \<not> lr_run s'"
proof -
  have b: "length (lv_buf sample_vars) = 1500" by (simp add: sample_vars_def)
  have t: "\<exists>t\<in>set sample_turns. \<not> lt_run t" by (simp add: sample_turns_def)
  obtain s' :: "(nat, nat, nat) LoopbackReceiver" and out where
    "LoopbackReceiver_Run sample_io sample_loopback_env sample_loopback_env sample_vars sample_turns
      (LoopbackReceiver_new sample_receiver_config (0, 0)) = Some (Inr (s', out))" "lr_ifd s' < 0" "\<not> lr_run s'"
    using loopback_receiver_survives[OF sample_io_ok b t, of sample_loopback_env sample_loopback_env
        "LoopbackReceiver_new sample_receiver_config (0, 0) :: (nat, nat, nat) LoopbackReceiver"] by metis
  then show ?thesis by metis
qed

end
