(* ===== verification/Mclogger.thy ===== *)
theory Mclogger
  imports LoopbackReceiver
begin

text \<open>
  \<open>apps/mclogger/mclogger.cc\<close>: the command that sends one message to the local \<open>mclogd\<close>. Its
  \<open>main\<close> is a function of what \<open>getopt\<close> returned (the options with their arguments, \<open>?\<close> for one
  it does not know), the arguments after them, and the answers of the system. The lemmas: every
  pair of names is understood as a priority; and what the sinks of the daemon get from one run.
\<close>

section \<open>The program\<close>

text \<open>
  How \<open>main\<close> ends: by \<open>exit\<close>, by an exception that nothing catches, or not at all, with the
  state in which it keeps running.
\<close>

datatype 'r program_end = Exit nat | Uncaught exn | Running 'r

definition mclogger_OpenSocket :: "int \<Rightarrow> int \<times> string" where
  "mclogger_OpenSocket socketrc =
     (let fd = socketrc in (fd, if fd < 0 then ''socket(PF_INET, SOCK_DGRAM, 0) failed: '' else []))"

definition MakeMessage ::
    "dwm_io \<Rightarrow> string \<Rightarrow> int \<Rightarrow> Timestamp \<Rightarrow> string \<Rightarrow> facility \<Rightarrow> severity \<Rightarrow> string \<Rightarrow> Message result" where
  "MakeMessage io hn ppid now app fac sev msg =
     (case MessageOrigin_new io hn app ppid of
        Inl ex \<Rightarrow> Inl ex
      | Inr org \<Rightarrow> Message_new io (MessageHeader_new now fac sev org) msg)"

text \<open>The two groups of the regular expression.\<close>

definition priority_facilities :: "string list" where
  "priority_facilities =
     [''kernel'', ''user'', ''mail'', ''daemon'', ''auth'', ''syslog'', ''lpr'', ''news'', ''uucp'', ''cron'',
      ''authpriv'', ''ftp'', ''local0'', ''local1'', ''local2'', ''local3'', ''local4'', ''local5'', ''local6'', ''local7'']"

definition priority_severities :: "string list" where
  "priority_severities = [''emerg'', ''alert'', ''crit'', ''err'', ''warning'', ''notice'', ''info'', ''debug'']"

text \<open>The priority, and what is printed on the error stream.\<close>

definition GetPriorityInfo :: "string \<Rightarrow> (facility \<times> severity) \<times> string" where
  "GetPriorityInfo priority =
     (case List.find (\<lambda>(f, s). priority = f @ ''.'' @ s) (List.product priority_facilities priority_severities) of
        Some (f, s) \<Rightarrow> ((FacilityValue f, SeverityValue s), f @ ''.'' @ s @ [CHR ''\<newline>''])
      | None \<Rightarrow> ((fac_user, sev_info), ''warning: invalid priority '' @ [CHR 0x27] @ priority @ [CHR 0x27] @ '', using user.info'' @ [CHR ''\<newline>'']))"

text \<open>The loop over the options; \<open>None\<close> is \<open>exit(1)\<close>.\<close>

fun mclogger_options ::
    "(char \<times> string) list \<Rightarrow> (facility \<times> severity) \<times> u16 \<Rightarrow> ((facility \<times> severity) \<times> u16) option" where
  "mclogger_options [] (priority, port) = Some (priority, port)"
| "mclogger_options ((optChar, optarg) # opts) (priority, port) =
     (if optChar = CHR ''p'' then mclogger_options opts (fst (GetPriorityInfo optarg), port)
      else if optChar = CHR ''P'' then
        (case stoul optarg of
           Inr portLong \<Rightarrow> if portLong < 65536 then mclogger_options opts (priority, ucast portLong) else None
         | Inl ex \<Rightarrow> None)
      else None)"

text \<open>
  The answers of the system: the host name, the parent's process id, the time, \<open>socket\<close>, the stack
  that becomes \<open>pktbuf\<close>, and \<open>sendto\<close>.
\<close>

record 'a mclogger_env =
  me_hostname :: string
  me_ppid :: int
  me_now :: Timestamp
  me_socket :: int
  me_pktbuf :: bytes
  me_sendto :: "bytes \<Rightarrow> 'a UdpEndpoint \<Rightarrow> int"

text \<open>How it ends, and what was sent. The result of \<open>Add\<close> is not looked at.\<close>

definition mclogger_main ::
    "dwm_io \<Rightarrow> 'a \<Rightarrow> 'a mclogger_env \<Rightarrow> (char \<times> string) list \<Rightarrow> string list \<Rightarrow> unit program_end \<times> 'a sends" where
  "mclogger_main io localhost e opts args =
     (case mclogger_options opts ((fac_user, sev_info), 3737) of
        None \<Rightarrow> (Exit 1, [])
      | Some (priority, port) \<Rightarrow>
          if 2 \<le> length args then
            let (fd, err) = mclogger_OpenSocket (me_socket e)
            in if 0 \<le> fd then
                 (case MakeMessage io (me_hostname e) (me_ppid e) (me_now e) (args ! (length args - 2))
                         (fst priority) (snd priority) (args ! (length args - 1)) of
                    Inl ex \<Rightarrow> (Uncaught ex, [])
                  | Inr msg \<Rightarrow>
                      (case MessagePacket_new (me_pktbuf e) of
                         Inl ex \<Rightarrow> (Uncaught ex, [])
                       | Inr pkt \<Rightarrow>
                           let (added, pkt1) = Add (Message_Write io msg) pkt;
                               (sendrc, out) = SendTo (me_sendto e) (UdpEndpoint localhost port) pkt1
                           in if sendrc \<ge> 0 then (Exit 0, out) else (Exit 1, out)))
               else (Exit 1, [])
          else (Exit 1, []))"

section \<open>Lemmas\<close>

lemma priority_tables: "priority_facilities = map snd g_facilities" "priority_severities = map snd g_severityNames"
  by (simp_all add: priority_facilities_def g_facilities_def priority_severities_def g_severityNames_def)

lemma no_dot: "f \<in> set priority_facilities \<Longrightarrow> CHR ''.'' \<notin> set f"
  by (auto simp: priority_facilities_def)

lemma split_at_dot: "CHR ''.'' \<notin> set f \<Longrightarrow> CHR ''.'' \<notin> set g \<Longrightarrow> f @ ''.'' @ s = g @ ''.'' @ t \<Longrightarrow> f = g \<and> s = t"
  by (induction f arbitrary: g; case_tac g; auto)

lemma GetPriorityInfo_names:
  assumes "f \<in> set priority_facilities" "s \<in> set priority_severities"
  shows "fst (GetPriorityInfo (f @ ''.'' @ s)) = (FacilityValue f, SeverityValue s)"
proof -
  let ?P = "\<lambda>(g, t). f @ ''.'' @ s = g @ ''.'' @ t" and ?xs = "List.product priority_facilities priority_severities"
  have "(f, s) \<in> set ?xs" "?P (f, s)" using assms by simp_all
  then obtain g t where g: "List.find ?P ?xs = Some (g, t)"
    by (cases "List.find ?P ?xs") (auto simp: find_None_iff)
  then have "?P (g, t)" "(g, t) \<in> set ?xs" using find_Some_pred[OF g] by blast+
  then have "g = f" "t = s" using split_at_dot[OF no_dot[OF assms(1)] no_dot] by auto
  with g show ?thesis by (simp add: GetPriorityInfo_def)
qed

lemma GetPriorityInfo_other:
  assumes "fst (GetPriorityInfo p) \<noteq> (fac_user, sev_info)"
  shows "\<exists>f s. p = f @ ''.'' @ s \<and> f \<in> set priority_facilities \<and> s \<in> set priority_severities"
proof -
  let ?P = "\<lambda>(g, t). p = g @ ''.'' @ t" and ?xs = "List.product priority_facilities priority_severities"
  obtain g t where g: "List.find ?P ?xs = Some (g, t)"
    using assms by (cases "List.find ?P ?xs") (auto simp: GetPriorityInfo_def)
  then have "?P (g, t)" "(g, t) \<in> set ?xs" using find_Some_pred[OF g] by blast+
  then show ?thesis by auto
qed

context name_table begin

lemma name_range: "s \<in> set (map snd tbl) \<longleftrightarrow> (\<exists>v. table_name tbl v = Some s)"
proof
  assume "s \<in> set (map snd tbl)"
  then obtain p where "p \<in> set tbl" "s = snd p" by auto
  then have "table_name tbl (fst p) = Some s" by (simp add: name_of_entry)
  then show "\<exists>v. table_name tbl v = Some s" ..
next
  assume "\<exists>v. table_name tbl v = Some s"
  then obtain v where "(v, s) \<in> set tbl" using name_SomeD by blast
  then have "snd (v, s) \<in> snd ` set tbl" by (rule imageI)
  then show "s \<in> set (map snd tbl)" by simp
qed

end

lemma named_facility: "table_name g_facilities v = Some f \<longleftrightarrow> valid_facility v \<and> f = FacilityName v"
  using facility_named[of v] by (cases "table_name g_facilities v") (auto simp: FacilityName_def)

lemma named_severity: "table_name g_severityNames v = Some s \<longleftrightarrow> valid_severity v \<and> s = SeverityName v"
  using severity_named[of v] by (cases "table_name g_severityNames v") (auto simp: SeverityName_def)

lemma name_facts:
  "f \<in> set priority_facilities \<longleftrightarrow> (\<exists>fac. valid_facility fac \<and> f = FacilityName fac)"
  "s \<in> set priority_severities \<longleftrightarrow> (\<exists>sev. valid_severity sev \<and> s = SeverityName sev)"
  unfolding priority_tables named_facility[symmetric] named_severity[symmetric]
  by (rule fac_names.name_range, rule sev_names.name_range)

text \<open>What a receiver that is then stopped makes of one datagram: its messages, or nothing of one that is too short.\<close>

lemma short_datagram_delivers_nothing:
  assumes "0 \<le> lr_ifd r" "length (lv_buf v) = 1500" "length d \<le> k_minPacketLen"
  shows "LoopbackReceiver_loop io r [ipv4_turn src d, loopback_stop] v = Some (Inr [])"
proof -
  obtain p0 where p0: "MessagePacket_new (lv_buf v) = Inr p0" using assms(2) by (auto simp: MessagePacket_new_def k_lens)
  obtain rc from' pkt where rc: "RecvFrom (Some (src, d)) p0 = (rc, from', pkt)" by (cases "RecvFrom (Some (src, d)) p0")
  then have "rc \<le> 0" using assms(3) by (auto simp: RecvFrom_def Let_def store_received_def split: if_splits)
  with assms(1) p0 rc show ?thesis by (simp add: LoopbackReceiver_turn_def ipv4_turn_def loopback_stop_def after_receive_def)
qed

text \<open>The packet of one message, if it fits 984 bytes, and else an empty one.\<close>

lemma one_message_packet:
  assumes "io_ok io" "length buf = 1024" "message_ok m"
  obtains pkt0 added pkt where "MessagePacket_new buf = Inr pkt0" "Add (Message_Write io m) pkt0 = (added, pkt)"
    "if length (Message_enc io m) \<le> 984 then carries_plain io (datagram pkt) [m] else length (datagram pkt) = k_minPacketLen"
proof -
  obtain p0 where p0: "MessagePacket_new buf = Inr p0" using assms(2) by (auto simp: MessagePacket_new_def k_lens)
  note w = MessagePacket_new_wf[OF p0]
  have l: "pk_len p0 = 984" "pk_pos p0 = 0" using p0 assms(2) by (auto simp: MessagePacket_new_def k_lens split: if_splits)
  have wr: "os_wf os \<Longrightarrow> Message_Write io m os = os_write (Message_enc io m) os" for os by (rule Message_Write_enc)
  show thesis
  proof (cases "length (Message_enc io m) \<le> 984")
    case True
    obtain p where p: "Add (Message_Write io m) p0 = (True, p)" "packet_wf p" "payload_bytes p = Message_enc io m"
      using Add_fits[OF conjunct1[OF w] wr] l w True by (metis add_0 append_Nil)
    obtain n t where d: "datagram p = n @ Message_enc io m @ t" "length n = k_nonceLen" "length t = k_macLen"
      using datagram_plain[OF p(2)] p(3) by metis
    have "Message_enc io m \<noteq> []" using message_codec.wr_nonempty[OF assms(1,3)] .
    then have "carries_plain io (datagram p) [m]" using assms(3) True d by (simp add: carries_plain_def k_lens)
    then show thesis using that[OF p0 p(1)] True by simp
  next
    case False
    obtain p where p: "Add (Message_Write io m) p0 = (False, p)" "packet_wf p" "payload_bytes p = []"
      using Add_full[OF conjunct1[OF w] wr] l w False by (metis not_le add_0)
    obtain n t where d: "datagram p = n @ t" "length n = k_nonceLen" "length t = k_macLen"
      using datagram_plain[OF p(2)] p(3) by (metis append_Nil)
    then show thesis using that[OF p0 p(1)] False by (simp add: k_lens)
  qed
qed

section \<open>Properties\<close>

text \<open>
  Every pair of a facility and a severity, written by their names with a dot between, is
  understood as a priority by \<open>mclogger\<close>; whatever is not such a pair means \<open>user.info\<close>.
\<close>

theorem mclogger_priorities:
  "(\<forall>fac sev. valid_facility fac \<and> valid_severity sev \<longrightarrow>
      fst (GetPriorityInfo (FacilityName fac @ ''.'' @ SeverityName sev)) = (fac, sev))
   \<and> (fst (GetPriorityInfo p) = (fac_user, sev_info)
      \<or> (\<exists>fac sev. valid_facility fac \<and> valid_severity sev \<and> p = FacilityName fac @ ''.'' @ SeverityName sev))"
proof (intro conjI allI impI)
  fix fac sev assume v: "valid_facility fac \<and> valid_severity sev"
  then have "FacilityName fac \<in> set priority_facilities" "SeverityName sev \<in> set priority_severities"
    by (auto simp: name_facts)
  from GetPriorityInfo_names[OF this] v
  show "fst (GetPriorityInfo (FacilityName fac @ ''.'' @ SeverityName sev)) = (fac, sev)" by simp
next
  show "fst (GetPriorityInfo p) = (fac_user, sev_info)
      \<or> (\<exists>fac sev. valid_facility fac \<and> valid_severity sev \<and> p = FacilityName fac @ ''.'' @ SeverityName sev)"
    using GetPriorityInfo_other[of p] by (auto simp: name_facts)
qed

text \<open>
  C39. One run of \<open>mclogger\<close> with an identity and a text, seen from the sinks of the local daemon: when
  the message takes at most 984 bytes each sink gets it, once; when it takes more, no sink gets anything.
  The command reports success in both cases.
\<close>

theorem mclogger_delivers:
  assumes "io_ok io" "mclogger_options opts ((fac_user, sev_info), 3737) = Some ((fac, sev), port)"
    "MakeMessage io (me_hostname e) (me_ppid e) (me_now e) ident fac sev msg = Inr m" "message_ok m"
    "0 \<le> me_socket e" "length (me_pktbuf e) = 1024" "\<And>d dst. 0 \<le> me_sendto e d dst"
    "0 \<le> lr_ifd r" "length (lv_buf v) = 1500"
  shows "\<exists>d. mclogger_main io localhost e opts (args @ [ident, msg]) = (Exit 0, [(UdpEndpoint localhost port, d)])
    \<and> LoopbackReceiver_loop io r [ipv4_turn src d, loopback_stop] v
        = Some (Inr (if length (Message_enc io m) \<le> 984 then deliver (Some (lr_sinks r)) [m] else []))"
proof -
  obtain pkt0 added pkt where p: "MessagePacket_new (me_pktbuf e) = Inr pkt0" "Add (Message_Write io m) pkt0 = (added, pkt)"
    "if length (Message_enc io m) \<le> 984 then carries_plain io (datagram pkt) [m] else length (datagram pkt) = k_minPacketLen"
    using one_message_packet[OF assms(1,6,4)] by metis
  have "mclogger_main io localhost e opts (args @ [ident, msg]) = (Exit 0, [(UdpEndpoint localhost port, datagram pkt)])"
    using assms p by (simp add: mclogger_main_def mclogger_OpenSocket_def nth_append SendTo_def Let_def)
  moreover have "LoopbackReceiver_loop io r [ipv4_turn src (datagram pkt), loopback_stop] v
      = Some (Inr (if length (Message_enc io m) \<le> 984 then deliver (Some (lr_sinks r)) [m] else []))"
  proof (cases "length (Message_enc io m) \<le> 984")
    case True
    then have "list_all2 (carries_plain io) [datagram pkt] [[m]]" using p(3) by simp
    from loopback_delivers[OF assms(1,8,9) this, of src] True show ?thesis by (simp only: list.map append.simps concat.simps if_True)
  next
    case False
    then have "length (datagram pkt) \<le> k_minPacketLen" using p(3) by simp
    from short_datagram_delivers_nothing[OF assms(8,9) this] False show ?thesis by (simp only: if_False)
  qed
  ultimately show ?thesis by blast
qed

section \<open>Witnesses\<close>

definition sample_mclogger_env :: "nat mclogger_env" where
  "sample_mclogger_env = \<lparr>me_hostname = ''ns1.lab'', me_ppid = 7, me_now = Timestamp 1700000000123456, me_socket = 3,
     me_pktbuf = replicate 1024 CHR ''#'', me_sendto = (\<lambda>d dst. int (length d))\<rparr>"

lemma mclogger_priorities_witness:
  "fst (GetPriorityInfo (FacilityName fac_local0 @ ''.'' @ SeverityName sev_err)) = (fac_local0, sev_err)"
proof -
  have "valid_facility fac_local0 \<and> valid_severity sev_err"
    by (simp add: valid_facility_def valid_severity_def g_facilities_def)
  with mclogger_priorities show ?thesis by blast
qed

definition sample_mclogger_message :: Message where
  "sample_mclogger_message =
     \<lparr>msg_header = \<lparr>timestamp = Timestamp 1700000000123456, facility = fac_user, severity = sev_info,
        origin = \<lparr>hostname = ''ns1.lab'', appname = ''backup'', procid = 7\<rparr>\<rparr>, msg_data = ''done''\<rparr>"

lemma mclogger_delivers_witness:
  "\<exists>d. mclogger_main sample_io 1 sample_mclogger_env [(CHR ''P'', show_nat 3738)] [''backup'', ''done'']
         = (Exit 0, [(UdpEndpoint 1 3738, d)])
     \<and> LoopbackReceiver_loop sample_io ((LoopbackReceiver_new sample_receiver_config (0, 0))\<lparr>lr_ifd := 3, lr_sinks := [5 :: nat]\<rparr>)
         [ipv4_turn \<lparr>sin_addr = 1, sin_port = 2\<rparr> d, loopback_stop] sample_vars = Some (Inr [(5, sample_mclogger_message)])"
proof -
  have o: "mclogger_options [(CHR ''P'', show_nat 3738)] ((fac_user, sev_info), 3737) = Some ((fac_user, sev_info), 3738)"
  proof -
    have "stoul (show_nat 3738) = Inr 3738" using stoul_show_nat[of 3738] by simp
    then show ?thesis by simp
  qed
  have m: "MakeMessage sample_io (me_hostname sample_mclogger_env) (me_ppid sample_mclogger_env) (me_now sample_mclogger_env)
      ''backup'' fac_user sev_info ''done'' = Inr sample_mclogger_message"
    by (simp add: MakeMessage_def sample_mclogger_env_def MessageOrigin_new_def Message_new_def MessageHeader_new_def
        sample_mclogger_message_def slen_prims[OF sample_io_ok])
  have ok: "message_ok sample_mclogger_message"
    by (simp add: sample_mclogger_message_def message_ok_def header_ok_def origin_ok_def sample_names)
      (simp add: IsValidAppName_def is_alnum_def)
  have e: "0 \<le> me_socket sample_mclogger_env" "length (me_pktbuf sample_mclogger_env) = 1024"
    "\<And>d dst. 0 \<le> me_sendto sample_mclogger_env d dst" by (simp_all add: sample_mclogger_env_def)
  have l: "length (Message_enc sample_io sample_mclogger_message) \<le> 984"
    by (simp add: sample_mclogger_message_def sample_io_def Message_enc_def MessageHeader_enc_def
      Timestamp_enc_def MessageOrigin_enc_def sample_enc_def sample_enc_str_def show_nat.simps)
  have r: "0 \<le> lr_ifd ((LoopbackReceiver_new sample_receiver_config (0, 0))\<lparr>lr_ifd := 3, lr_sinks := [5 :: nat]\<rparr>)"
    "length (lv_buf sample_vars) = 1500" by (simp_all add: sample_vars_def)
  from mclogger_delivers[OF sample_io_ok o m ok e r, of 1 "[]"] l show ?thesis by (simp add: deliver_def)
qed

end
