(* ===== verification/ConfigParse.thy ===== *)
theory ConfigParse
  imports Config MessageFilter UdpEndpoint "HOL-Library.List_Lexorder"
begin

text \<open>
  \<open>DwmMclogConfigLex.lex\<close> and \<open>DwmMclogConfigParse.y\<close>: reading the configuration file of
  \<open>mclogd\<close>. The scanner is the longest-match reading of its rules, from the start of its input;
  the grammar needs one token of lookahead, and the parser here consumes tokens as the
  generated one does, running the actions of the rules in the order of their reductions. The classes
  of addresses, the service database and \<open>boost::regex_replace\<close> are parameters. The
  warnings printed are left out. The lemmas: parsing ends; a configuration written out in the
  language of the file is read back; and what is left of the configuration
  when the file is refused.
\<close>

section \<open>Tokens\<close>

text \<open>\<open>CT_throw\<close> is no token: it stands for the exception that reading it raises.\<close>

datatype cfg_tok =
    CT_BINARY | CT_COMPRESS | CT_FACILITY | CT_FILES | CT_FILTER | CT_FILTERS | CT_FORMAT | CT_GROUP
  | CT_GROUPADDR | CT_GROUPADDR6 | CT_HOST | CT_IDENT | CT_INTFADDR | CT_INTFADDR6 | CT_INTFNAME | CT_KEEP
  | CT_KEYDIRECTORY | CT_LISTENV4 | CT_LISTENV6 | CT_LOGICALOR | CT_LOGICALAND | CT_LOOPBACK | CT_LOGDIRECTORY
  | CT_LOGS | CT_MINIMUMSEVERITY | CT_MULTICAST | CT_NOT | CT_OUTFILTER | CT_PATH | CT_PERIOD | CT_PERMS | CT_PORT
  | CT_SERVICE | CT_SIZE | CT_TEXT | CT_USER | CT_STRING string | CT_INTEGER "32 word" | CT_char char | CT_throw exn

definition g_configKeywords :: "(string \<times> cfg_tok) list" where
  "g_configKeywords =
     [(''binary'', CT_BINARY), (''compress'', CT_COMPRESS), (''facility'', CT_FACILITY), (''files'', CT_FILES),
      (''filter'', CT_FILTER), (''filters'', CT_FILTERS), (''format'', CT_FORMAT), (''group'', CT_GROUP),
      (''groupAddr'', CT_GROUPADDR), (''groupAddr6'', CT_GROUPADDR6), (''host'', CT_HOST), (''ident'', CT_IDENT),
      (''intfAddr'', CT_INTFADDR), (''intfAddr6'', CT_INTFADDR6), (''intfName'', CT_INTFNAME), (''keep'', CT_KEEP),
      (''keyDirectory'', CT_KEYDIRECTORY), (''listenV4'', CT_LISTENV4), (''listenV6'', CT_LISTENV6),
      (''logDirectory'', CT_LOGDIRECTORY), (''logs'', CT_LOGS), (''loopback'', CT_LOOPBACK),
      (''minimumSeverity'', CT_MINIMUMSEVERITY), (''multicast'', CT_MULTICAST), (''outFilter'', CT_OUTFILTER),
      (''path'', CT_PATH), (''period'', CT_PERIOD), (''perms'', CT_PERMS), (''port'', CT_PORT),
      (''service'', CT_SERVICE), (''size'', CT_SIZE), (''text'', CT_TEXT), (''user'', CT_USER)]"

definition IsKeyword :: "string \<Rightarrow> cfg_tok option" where
  "IsKeyword s = map_of g_configKeywords s"

definition IsNumber :: "string \<Rightarrow> bool" where
  "IsNumber s \<longleftrightarrow> s \<noteq> [] \<and> list_all is_digit s"

text \<open>
  \<open>std::stol(s, nullptr, 0)\<close> of digits: a leading zero makes the number octal, which ends at
  the first digit that is none. The value is cut to an \<open>int\<close>.
\<close>

definition octal_val :: "string \<Rightarrow> nat" where
  "octal_val s = foldl (\<lambda>n c. 8 * n + digit_val c) 0 (takeWhile (\<lambda>c. digit_val c < 8) s)"

definition stol0 :: "string \<Rightarrow> int result" where
  "stol0 s =
     (let v = (if hd s = CHR ''0'' then octal_val s else digits_val s)
      in if 2 ^ 63 \<le> v then Inl OutOfRange else Inr (int v))"

definition word_token :: "string \<Rightarrow> cfg_tok" where
  "word_token w =
     (if IsNumber w then (case stol0 w of Inl ex \<Rightarrow> CT_throw ex | Inr v \<Rightarrow> CT_INTEGER (of_int v))
      else case IsKeyword w of Some t \<Rightarrow> t | None \<Rightarrow> CT_STRING w)"

section \<open>The scanner\<close>

text \<open>What no word holds: blanks, brackets and the characters of the operators.\<close>

definition cfg_delimiters :: string where
  "cfg_delimiters = '' []{}=,;!|&'' @ [CHR 0x22, CHR 0x09, CHR 0x0A]"

definition word_char :: "char \<Rightarrow> bool" where
  "word_char c \<longleftrightarrow> c \<notin> set cfg_delimiters"

text \<open>
  A comment needs its newline: without one it is a word. An \<open>|\<close> or \<open>&\<close> alone matches no
  rule and is echoed. The argument says whether the start condition is \<open>x_quoted\<close>.
\<close>

function cfg_scan :: "bool \<Rightarrow> string \<Rightarrow> cfg_tok list" where
  "cfg_scan q [] = []"
| "cfg_scan True (c # s) =
     (if c = CHR 0x22 then cfg_scan False s
      else CT_STRING (cstr (takeWhile (\<lambda>d. d \<noteq> CHR 0x22) (c # s))) # cfg_scan True (dropWhile (\<lambda>d. d \<noteq> CHR 0x22) s))"
| "cfg_scan False (c # s) =
     (if c = CHR ''#'' \<and> CHR 0x0A \<in> set s then cfg_scan False (tl (dropWhile (\<lambda>d. d \<noteq> CHR 0x0A) s))
      else if word_char c then
        (case word_token (cstr (takeWhile word_char (c # s))) of
           CT_throw ex \<Rightarrow> [CT_throw ex]
         | t \<Rightarrow> t # cfg_scan False (dropWhile word_char s))
      else if c = CHR ''|'' then
        (case s of d # s' \<Rightarrow> if d = CHR ''|'' then CT_LOGICALOR # cfg_scan False s' else cfg_scan False s | [] \<Rightarrow> [])
      else if c = CHR ''&'' then
        (case s of d # s' \<Rightarrow> if d = CHR ''&'' then CT_LOGICALAND # cfg_scan False s' else cfg_scan False s | [] \<Rightarrow> [])
      else if c = CHR ''!'' then CT_NOT # cfg_scan False s
      else if c = CHR 0x22 then
        (case s of d # s' \<Rightarrow> if d = CHR 0x22 then CT_STRING [] # cfg_scan False s' else cfg_scan True s | [] \<Rightarrow> [])
      else if c \<in> set ''=,;[]{}'' then CT_char c # cfg_scan False s
      else cfg_scan False s)"
  by pat_completeness auto
termination
  by (relation "measure (\<lambda>(q, s). length s)")
     (auto simp: less_Suc_eq_le length_dropWhile_le intro: le_trans[OF diff_le_self length_dropWhile_le])

declare cfg_scan.simps(2,3) [simp del]

section \<open>Parsing\<close>

text \<open>The outcome of a rule: its value and the tokens left, a syntax error or \<open>return 1\<close>, an exception.\<close>

datatype 'a parsed = Parsed 'a "cfg_tok list" | Rejected | Raised exn

fun p_then :: "'a parsed \<Rightarrow> ('a \<Rightarrow> cfg_tok list \<Rightarrow> 'b parsed) \<Rightarrow> 'b parsed" where
  "p_then (Parsed x r) f = f x r"
| "p_then Rejected f = Rejected"
| "p_then (Raised ex) f = Raised ex"

text \<open>The next token is none that could follow.\<close>

definition p_error :: "cfg_tok list \<Rightarrow> 'a parsed" where
  "p_error toks = (case toks of CT_throw ex # _ \<Rightarrow> Raised ex | _ \<Rightarrow> Rejected)"

definition p_tok :: "cfg_tok \<Rightarrow> cfg_tok list \<Rightarrow> unit parsed" where
  "p_tok t toks = (case toks of t' # r \<Rightarrow> if t' = t then Parsed () r else p_error toks | [] \<Rightarrow> p_error toks)"

definition p_string :: "cfg_tok list \<Rightarrow> string parsed" where
  "p_string toks = (case toks of CT_STRING s # r \<Rightarrow> Parsed s r | _ \<Rightarrow> p_error toks)"

definition p_integer :: "cfg_tok list \<Rightarrow> 32 word parsed" where
  "p_integer toks = (case toks of CT_INTEGER v # r \<Rightarrow> Parsed v r | _ \<Rightarrow> p_error toks)"

text \<open>\<open>'=' value ';'\<close> and \<open>'{' value '}'\<close>.\<close>

definition p_assign :: "(cfg_tok list \<Rightarrow> 'a parsed) \<Rightarrow> cfg_tok list \<Rightarrow> 'a parsed" where
  "p_assign p toks =
     p_then (p_tok (CT_char CHR ''='') toks) (\<lambda>_ r. p_then (p r) (\<lambda>x r. p_then (p_tok (CT_char CHR '';'') r) (\<lambda>_. Parsed x)))"

definition p_braces :: "(cfg_tok list \<Rightarrow> 'a parsed) \<Rightarrow> cfg_tok list \<Rightarrow> 'a parsed" where
  "p_braces p toks =
     p_then (p_tok (CT_char CHR ''{'') toks) (\<lambda>_ r. p_then (p r) (\<lambda>x r. p_then (p_tok (CT_char CHR ''}'') r) (\<lambda>_. Parsed x)))"

definition p_block :: "(cfg_tok list \<Rightarrow> 'a parsed) \<Rightarrow> cfg_tok list \<Rightarrow> 'a parsed" where
  "p_block p toks = p_then (p_braces p toks) (\<lambda>x r. p_then (p_tok (CT_char CHR '';'') r) (\<lambda>_. Parsed x))"

text \<open>
  The left-recursive lists: \<open>item c toks\<close> is \<open>None\<close> when the next token starts no further item.
  (An item consumes what it reads, so the comparison of lengths always holds; it is there for
  the termination of the function.)
\<close>

function p_more :: "('c \<Rightarrow> cfg_tok list \<Rightarrow> 'c parsed option) \<Rightarrow> 'c \<Rightarrow> cfg_tok list \<Rightarrow> 'c parsed" where
  "p_more item c toks =
     (case item c toks of
        None \<Rightarrow> Parsed c toks
      | Some (Parsed c' r) \<Rightarrow> if length r < length toks then p_more item c' r else Parsed c' r
      | Some Rejected \<Rightarrow> Rejected
      | Some (Raised ex) \<Rightarrow> Raised ex)"
  by pat_completeness auto
termination by (relation "measure (\<lambda>(item, c, toks). length toks)") auto

declare p_more.simps [simp del]

text \<open>A list with at least one item, from the default-constructed value.\<close>

definition p_items :: "('c \<Rightarrow> cfg_tok list \<Rightarrow> 'c parsed option) \<Rightarrow> 'c \<Rightarrow> cfg_tok list \<Rightarrow> 'c parsed" where
  "p_items item c toks =
     (case item c toks of None \<Rightarrow> p_error toks | Some res \<Rightarrow> p_then res (p_more item))"

section \<open>What the actions use\<close>

text \<open>
  Reading an address, whether it lies in 224.0.0.0/4 or ff00::/8, the port (in network order) of
  a service, and \<open>boost::regex_replace\<close> of an expression by a format in a text.
\<close>

record ('a4, 'a6) cfg_env =
  ce_addr :: "('a4, 'a6) addr_consts"
  ce_ip4 :: "string \<Rightarrow> 'a4"
  ce_ip6 :: "string \<Rightarrow> 'a6"
  ce_multicast4 :: "'a4 \<Rightarrow> bool"
  ce_multicast6 :: "'a6 \<Rightarrow> bool"
  ce_service :: "string \<Rightarrow> u16 option"
  ce_replace :: "string \<Rightarrow> string \<Rightarrow> string \<Rightarrow> string"

definition IsValidIpv4MulticastAddr :: "('a4, 'a6) cfg_env \<Rightarrow> 'a4 \<Rightarrow> bool" where
  "IsValidIpv4MulticastAddr e addr = (if addr \<noteq> addr4_default (ce_addr e) then ce_multicast4 e addr else False)"

definition IsValidIpv6MulticastAddr :: "('a4, 'a6) cfg_env \<Rightarrow> 'a6 \<Rightarrow> bool" where
  "IsValidIpv6MulticastAddr e addr = (if addr \<noteq> addr6_default (ce_addr e) then ce_multicast6 e addr else False)"

abbreviation backslash :: char where "backslash \<equiv> CHR 0x5C"

definition RetainEscapes :: "(string \<Rightarrow> string \<Rightarrow> string \<Rightarrow> string) \<Rightarrow> string \<Rightarrow> string" where
  "RetainEscapes replace val = replace [backslash, backslash] [backslash, backslash, backslash, backslash] val"

text \<open>The map of variables is traversed in the order of the names.\<close>

definition ExpandFilterExpr :: "(string \<Rightarrow> string \<Rightarrow> string \<Rightarrow> string) \<Rightarrow> (string \<times> string) list \<Rightarrow> string \<Rightarrow> string" where
  "ExpandFilterExpr replace vars val =
     foldl (\<lambda>rc var. replace ([backslash, CHR ''$''] @ fst var) (RetainEscapes replace (snd var)) rc) val vars"

text \<open>\<open>std::map::insert\<close>, which does not replace a value.\<close>

fun map_insert :: "string \<Rightarrow> string \<Rightarrow> (string \<times> string) list \<Rightarrow> (string \<times> string) list" where
  "map_insert k v [] = [(k, v)]"
| "map_insert k v ((k', v') # m) =
     (if k = k' then (k', v') # m else if k < k' then (k, v) # (k', v') # m else (k', v') # map_insert k v m)"

section \<open>The rules of the grammar\<close>

definition p_UDP4Port :: "('a4, 'a6) cfg_env \<Rightarrow> cfg_tok list \<Rightarrow> u16 parsed" where
  "p_UDP4Port e toks =
     (case toks of
        CT_INTEGER v # r \<Rightarrow> if 0 < sint v \<and> sint v < 65536 then Parsed (ucast v) r else Rejected
      | CT_STRING s # r \<Rightarrow> (case ce_service e s of Some port \<Rightarrow> Parsed (ntohs port) r | None \<Rightarrow> Rejected)
      | _ \<Rightarrow> p_error toks)"

text \<open>
  In \<open>Port\<close>, a port that is refused ends the parse before the semicolon is read, in \<open>GroupAddr\<close> and
  its like an address is checked when the semicolon has been.
\<close>

definition p_checked :: "(string \<Rightarrow> 'a) \<Rightarrow> ('a \<Rightarrow> bool) \<Rightarrow> cfg_tok list \<Rightarrow> 'a parsed" where
  "p_checked of_string ok toks =
     p_then (p_assign p_string toks) (\<lambda>s r. if ok (of_string s) then Parsed (of_string s) r else Rejected)"

definition p_set :: "'a parsed \<Rightarrow> ('a \<Rightarrow> 'c) \<Rightarrow> 'c parsed option" where
  "p_set res f = Some (p_then res (\<lambda>x. Parsed (f x)))"

definition p_ServiceSettings :: "cfg_tok list \<Rightarrow> ServiceConfig parsed" where
  "p_ServiceSettings toks =
     p_then (p_tok CT_KEYDIRECTORY toks) (\<lambda>_ r. p_then (p_assign p_string r)
       (\<lambda>s. Parsed (ServiceConfig_Init\<lparr>sc_keyDirectory := s\<rparr>)))"

definition LoopbackSetting :: "('a4, 'a6) cfg_env \<Rightarrow> LoopbackConfig \<Rightarrow> cfg_tok list \<Rightarrow> LoopbackConfig parsed option" where
  "LoopbackSetting e c toks =
     (case toks of
        CT_LISTENV4 # r \<Rightarrow> p_set (p_assign p_string r) (\<lambda>s. c\<lparr>lb_listenIpv4 := (if ''false'' = s then False else True)\<rparr>)
      | CT_LISTENV6 # r \<Rightarrow> p_set (p_assign p_string r) (\<lambda>s. c\<lparr>lb_listenIpv6 := (if ''true'' = s then True else False)\<rparr>)
      | CT_PORT # r \<Rightarrow> p_set (p_assign (p_UDP4Port e) r) (\<lambda>p. c\<lparr>lb_port := p\<rparr>)
      | _ \<Rightarrow> None)"

text \<open>\<open>filters\<close>: the named filters of \<open>g_config\<close> at the time.\<close>

definition MulticastSetting ::
    "('a4, 'a6) cfg_env \<Rightarrow> (string \<times> string) list \<Rightarrow> ('a4, 'a6) MulticastConfig \<Rightarrow> cfg_tok list
     \<Rightarrow> ('a4, 'a6) MulticastConfig parsed option" where
  "MulticastSetting e filters c toks =
     (case toks of
        CT_GROUPADDR # r \<Rightarrow> p_set (p_checked (ce_ip4 e) (IsValidIpv4MulticastAddr e) r) (\<lambda>a. c\<lparr>mc_groupAddr := a\<rparr>)
      | CT_GROUPADDR6 # r \<Rightarrow> p_set (p_checked (ce_ip6 e) (IsValidIpv6MulticastAddr e) r) (\<lambda>a. c\<lparr>mc_groupAddr6 := a\<rparr>)
      | CT_INTFADDR # r \<Rightarrow> p_set (p_assign p_string r) (\<lambda>s. c\<lparr>mc_intfAddr := ce_ip4 e s\<rparr>)
      | CT_INTFADDR6 # r \<Rightarrow> p_set (p_checked (ce_ip6 e) (\<lambda>a. a \<noteq> addr6_default (ce_addr e)) r) (\<lambda>a. c\<lparr>mc_intfAddr6 := a\<rparr>)
      | CT_INTFNAME # r \<Rightarrow> p_set (p_assign p_string r) (\<lambda>s. c\<lparr>mc_intfName := s\<rparr>)
      | CT_PORT # r \<Rightarrow> p_set (p_assign (p_UDP4Port e) r) (\<lambda>p. c\<lparr>mc_dstPort := p\<rparr>)
      | CT_OUTFILTER # r \<Rightarrow> p_set (p_assign p_string r) (\<lambda>s. c\<lparr>mc_outFilter := ExpandFilterExpr (ce_replace e) filters s\<rparr>)
      | _ \<Rightarrow> None)"

definition p_Format :: "cfg_tok list \<Rightarrow> FileFormat parsed" where
  "p_Format toks = (case toks of CT_TEXT # r \<Rightarrow> Parsed Format_text r | CT_BINARY # r \<Rightarrow> Parsed Format_binary r | _ \<Rightarrow> p_error toks)"

definition LogSetting ::
    "('a4, 'a6) cfg_env \<Rightarrow> (string \<times> string) list \<Rightarrow> LogFileConfig \<Rightarrow> cfg_tok list \<Rightarrow> LogFileConfig parsed option" where
  "LogSetting e filters c toks =
     (let setting = (\<lambda>st. apply_setting (ExpandFilterExpr (ce_replace e) filters) st c)
      in case toks of
           CT_FILTER # r \<Rightarrow> p_set (p_assign p_string r) (\<lambda>s. setting (Set_filter s))
         | CT_PATH # r \<Rightarrow> p_set (p_assign p_string r) (\<lambda>s. setting (Set_path s))
         | CT_PERMS # r \<Rightarrow> p_set (p_assign p_integer r) (\<lambda>v. setting (Set_perms v))
         | CT_PERIOD # r \<Rightarrow> p_set (p_assign p_string r) (\<lambda>s. setting (Set_period s))
         | CT_SIZE # r \<Rightarrow> p_set (p_assign p_string r) (\<lambda>s. setting (Set_size s))
         | CT_KEEP # r \<Rightarrow> p_set (p_assign p_integer r) (\<lambda>v. setting (Set_keep (sint v)))
         | CT_USER # r \<Rightarrow> p_set (p_assign p_string r) (\<lambda>s. setting (Set_user s))
         | CT_GROUP # r \<Rightarrow> p_set (p_assign p_string r) (\<lambda>s. setting (Set_group s))
         | CT_COMPRESS # r \<Rightarrow> p_set (p_assign p_string r) (\<lambda>s. setting (Set_compress s))
         | CT_FORMAT # r \<Rightarrow> p_set (p_assign p_Format r) (\<lambda>f. setting (Set_format f))
         | _ \<Rightarrow> None)"

definition p_Log :: "('a4, 'a6) cfg_env \<Rightarrow> (string \<times> string) list \<Rightarrow> cfg_tok list \<Rightarrow> LogFileConfig parsed" where
  "p_Log e filters toks = p_braces (p_items (LogSetting e filters) LogFileConfig_Init) toks"

definition LogListItem ::
    "('a4, 'a6) cfg_env \<Rightarrow> (string \<times> string) list \<Rightarrow> LogFileConfig list \<Rightarrow> cfg_tok list \<Rightarrow> LogFileConfig list parsed option" where
  "LogListItem e filters logs toks =
     (case toks of CT_char c # r \<Rightarrow> if c = CHR '','' then p_set (p_Log e filters r) (\<lambda>l. logs @ [l]) else None | _ \<Rightarrow> None)"

definition p_LogList :: "('a4, 'a6) cfg_env \<Rightarrow> (string \<times> string) list \<Rightarrow> cfg_tok list \<Rightarrow> LogFileConfig list parsed" where
  "p_LogList e filters toks = p_then (p_Log e filters toks) (\<lambda>l. p_more (LogListItem e filters) [l])"

definition FilesSetting ::
    "('a4, 'a6) cfg_env \<Rightarrow> (string \<times> string) list \<Rightarrow> FilesConfig \<Rightarrow> cfg_tok list \<Rightarrow> FilesConfig parsed option" where
  "FilesSetting e filters c toks =
     (case toks of
        CT_LOGDIRECTORY # r \<Rightarrow> p_set (p_assign p_string r) (\<lambda>s. c\<lparr>fc_logDirectory := s\<rparr>)
      | CT_LOGS # r \<Rightarrow> p_set (p_block (p_LogList e filters) r) (\<lambda>ls. c\<lparr>fc_logs := ls\<rparr>)
      | _ \<Rightarrow> None)"

definition FilterExpr ::
    "('a4, 'a6) cfg_env \<Rightarrow> (string \<times> string) list \<Rightarrow> cfg_tok list \<Rightarrow> (string \<times> string) list parsed option" where
  "FilterExpr e m toks =
     (case toks of
        CT_STRING name # r \<Rightarrow> p_set (p_assign p_string r) (\<lambda>s. map_insert name (ExpandFilterExpr (ce_replace e) m s) m)
      | _ \<Rightarrow> None)"

text \<open>A stanza, with its effect on \<open>g_config\<close>.\<close>

definition TopStanza :: "('a4, 'a6) cfg_env \<Rightarrow> ('a4, 'a6) Config \<Rightarrow> cfg_tok list \<Rightarrow> ('a4, 'a6) Config parsed" where
  "TopStanza e g toks =
     (case toks of
        CT_SERVICE # r \<Rightarrow> p_then (p_block p_ServiceSettings r) (\<lambda>x. Parsed (g\<lparr>cf_service := x\<rparr>))
      | CT_LOOPBACK # r \<Rightarrow> p_then (p_block (p_items (LoopbackSetting e) LoopbackConfig_Init) r) (\<lambda>x. Parsed (g\<lparr>cf_loopback := x\<rparr>))
      | CT_MULTICAST # r \<Rightarrow>
          p_then (p_block (p_items (MulticastSetting e (cf_filters g)) (MulticastConfig_Init (ce_addr e))) r)
            (\<lambda>x. Parsed (g\<lparr>cf_mcast := x\<rparr>))
      | CT_FILES # r \<Rightarrow> p_then (p_block (p_items (FilesSetting e (cf_filters g)) FilesConfig_Init) r) (\<lambda>x. Parsed (g\<lparr>cf_files := x\<rparr>))
      | CT_FILTERS # r \<Rightarrow> p_then (p_block (p_items (FilterExpr e) []) r) (\<lambda>x. Parsed (g\<lparr>cf_filters := x\<rparr>))
      | _ \<Rightarrow> p_error toks)"

text \<open>The start rule, with \<open>g_config\<close> as it stands when the parse ends.\<close>

function mclogcfgparse :: "('a4, 'a6) cfg_env \<Rightarrow> ('a4, 'a6) Config \<Rightarrow> cfg_tok list \<Rightarrow> bool result \<times> ('a4, 'a6) Config" where
  "mclogcfgparse e g toks =
     (case TopStanza e g toks of
        Parsed g' r \<Rightarrow>
          if r = [] then (Inr True, g')
          else if length r < length toks then mclogcfgparse e g' r else (Inr True, g')
      | Rejected \<Rightarrow> (Inr False, g)
      | Raised ex \<Rightarrow> (Inl ex, g))"
  by pat_completeness auto
termination by (relation "measure (\<lambda>(e, g, toks). length toks)") auto

declare mclogcfgparse.simps [simp del]

text \<open>\<open>file\<close>: the contents, or \<open>None\<close> when it cannot be opened.\<close>

definition Config_Parse :: "('a4, 'a6) cfg_env \<Rightarrow> string option \<Rightarrow> ('a4, 'a6) Config \<Rightarrow> bool result \<times> ('a4, 'a6) Config" where
  "Config_Parse e file cfg =
     (let g = Config_Init (ce_addr e) cfg
      in case file of Some text \<Rightarrow> mclogcfgparse e g (cfg_scan False text) | None \<Rightarrow> (Inr False, g))"

section \<open>Writing tokens\<close>

text \<open>A token as text: keywords by their words, strings quoted, numbers in decimal.\<close>

definition keyword_name :: "cfg_tok \<Rightarrow> string option" where
  "keyword_name t = map_of (map prod.swap g_configKeywords) t"

definition quoted :: "string \<Rightarrow> string" where
  "quoted s = [CHR 0x22] @ s @ [CHR 0x22]"

definition show_tok :: "cfg_tok \<Rightarrow> string" where
  "show_tok t =
     (case t of
        CT_STRING s \<Rightarrow> quoted s
      | CT_INTEGER v \<Rightarrow> show_nat (unat v)
      | CT_char c \<Rightarrow> [c]
      | CT_LOGICALOR \<Rightarrow> ''||''
      | CT_LOGICALAND \<Rightarrow> ''&&''
      | CT_NOT \<Rightarrow> ''!''
      | _ \<Rightarrow> (case keyword_name t of Some w \<Rightarrow> w | None \<Rightarrow> []))"

definition show_toks :: "cfg_tok list \<Rightarrow> string" where
  "show_toks ts = concat (map (\<lambda>t. show_tok t @ '' '') ts)"

text \<open>A string that quotes can hold, and a token that can be written.\<close>

definition quotable :: "string \<Rightarrow> bool" where
  "quotable s \<longleftrightarrow> CHR 0x22 \<notin> set s \<and> CHR 0x00 \<notin> set s"

definition writable :: "cfg_tok \<Rightarrow> bool" where
  "writable t =
     (case t of
        CT_STRING s \<Rightarrow> quotable s
      | CT_INTEGER v \<Rightarrow> unat v < 2 ^ 31
      | CT_char c \<Rightarrow> c \<in> set ''=,;[]{}''
      | CT_throw ex \<Rightarrow> False
      | _ \<Rightarrow> True)"

lemma cfg_scan_blank [simp]: "cfg_scan False (CHR '' '' # s) = cfg_scan False s"
  by (simp add: cfg_scan.simps word_char_def cfg_delimiters_def)

lemma cstr_no_nul: "CHR 0x00 \<notin> set s \<Longrightarrow> cstr s = s"
  by (simp add: cstr_def takeWhile_eq_all_conv) (metis)

lemma no_throw:
  "(\<And>ex. t \<noteq> CT_throw ex) \<Longrightarrow> (case t of CT_throw ex \<Rightarrow> [CT_throw ex] | t \<Rightarrow> t # r) = t # r"
  by (cases t) auto

text \<open>A word that is no comment, up to the blank after it.\<close>

lemma scan_word:
  assumes "w \<noteq> []" "\<forall>c\<in>set w. word_char c" "CHR 0x00 \<notin> set w" "hd w \<noteq> CHR ''#''" "\<And>ex. word_token w \<noteq> CT_throw ex"
  shows "cfg_scan False (w @ '' '' @ s) = word_token w # cfg_scan False s"
proof -
  obtain c cs where w: "w = c # cs" using assms(1) by (cases w) auto
  have b: "\<not> word_char CHR '' ''" by (simp add: word_char_def cfg_delimiters_def)
  have t: "takeWhile word_char (w @ '' '' @ s) = w" "dropWhile word_char (cs @ '' '' @ s) = '' '' @ s"
    using assms(2) b by (simp_all add: w)
  have c: "word_char c" "c \<noteq> CHR ''#''" using assms(2,4) by (simp_all add: w)
  from t(1) have t1: "takeWhile word_char (c # cs @ '' '' @ s) = w" by (simp add: w)
  have "cfg_scan False (c # cs @ '' '' @ s) =
      (case word_token (cstr w) of CT_throw ex \<Rightarrow> [CT_throw ex] | t \<Rightarrow> t # cfg_scan False ('' '' @ s))"
    by (simp only: cfg_scan.simps(3) c if_True if_False simp_thms t1 t(2))
  also have "cstr w = w" using assms(3) by (rule cstr_no_nul)
  also note no_throw[of "word_token w", OF assms(5)]
  finally show ?thesis by (simp add: w)
qed

lemma cfg_scan_quoted:
  assumes "quotable x"
  shows "cfg_scan False (quoted x @ s) = CT_STRING x # cfg_scan False s"
proof -
  have q: "\<not> word_char CHR 0x22" by (simp add: word_char_def cfg_delimiters_def)
  show ?thesis
  proof (cases x)
    case Nil
    then show ?thesis by (simp add: quoted_def cfg_scan.simps(3) q)
  next
    case (Cons c cs)
    then have c: "c \<noteq> CHR 0x22" "CHR 0x22 \<notin> set cs" using assms by (auto simp: quotable_def)
    have t: "takeWhile (\<lambda>d. d \<noteq> CHR 0x22) (c # cs @ CHR 0x22 # s) = c # cs"
      "dropWhile (\<lambda>d. d \<noteq> CHR 0x22) (cs @ CHR 0x22 # s) = CHR 0x22 # s"
      using c by (auto simp: takeWhile_append dropWhile_append)
    have "cfg_scan True (c # cs @ CHR 0x22 # s) = CT_STRING (cstr (c # cs)) # cfg_scan True (CHR 0x22 # s)"
      by (simp only: cfg_scan.simps(2) c if_False t)
    moreover have "cfg_scan True (CHR 0x22 # s) = cfg_scan False s" by (simp add: cfg_scan.simps(2))
    moreover have "cfg_scan False (CHR 0x22 # c # cs @ CHR 0x22 # s) = cfg_scan True (c # cs @ CHR 0x22 # s)"
      by (simp add: cfg_scan.simps(3) q c)
    ultimately show ?thesis using assms by (simp add: quoted_def Cons cstr_no_nul quotable_def)
  qed
qed

definition keyword_ok :: "string \<times> cfg_tok \<Rightarrow> bool" where
  "keyword_ok kt \<longleftrightarrow>
     fst kt \<noteq> [] \<and> list_all word_char (fst kt) \<and> CHR 0x00 \<notin> set (fst kt) \<and> hd (fst kt) \<noteq> CHR ''#''
     \<and> word_token (fst kt) = snd kt \<and> (case snd kt of CT_throw ex \<Rightarrow> False | _ \<Rightarrow> True)"

lemma keywords_ok: "list_all keyword_ok g_configKeywords"
  by code_simp

lemma scan_keyword:
  assumes "keyword_name t = Some w"
  shows "cfg_scan False (w @ '' '' @ s) = t # cfg_scan False s"
proof -
  have "(w, t) \<in> set g_configKeywords" using assms map_of_SomeD[of "map prod.swap g_configKeywords" t w] by (auto simp: keyword_name_def)
  then have k: "keyword_ok (w, t)" using keywords_ok by (simp add: list_all_iff)
  then have "word_token w \<noteq> CT_throw ex" for ex by (auto simp: keyword_ok_def)
  with k show ?thesis using scan_word[of w s] by (simp add: keyword_ok_def list_all_iff)
qed

lemma digit_char_0: "digit_char 0 = CHR ''0''"
  by code_simp

lemma hd_show_nat: "hd (show_nat n) = CHR ''0'' \<Longrightarrow> n = 0"
proof (induction n rule: show_nat.induct)
  case (1 n)
  show ?case
  proof (cases "n < 10")
    case True
    then have "digit_char n = CHR ''0''" using 1(2) by (simp add: show_nat.simps[of n])
    then have "digit_val (digit_char n) = digit_val CHR ''0''" by simp
    then show ?thesis using True by (simp add: digit_val_def digit_char_def)
  next
    case False
    then have "hd (show_nat (n div 10)) = CHR ''0''" using 1(2) by (simp add: show_nat.simps[of n])
    with 1(1) False show ?thesis by simp
  qed
qed

lemma word_token_show_nat:
  assumes "n < 2 ^ 63"
  shows "word_token (show_nat n) = CT_INTEGER (of_nat n)"
proof -
  have "IsNumber (show_nat n)" by (auto simp: IsNumber_def list_all_iff show_nat_digits)
  moreover have "stol0 (show_nat n) = Inr (int n)"
  proof (cases "n = 0")
    case True
    then show ?thesis by (simp add: stol0_def octal_val_def show_nat.simps[of 0] digit_char_0 digit_val_def)
  next
    case False
    then have "hd (show_nat n) \<noteq> CHR ''0''" using hd_show_nat by blast
    then show ?thesis using assms by (simp add: stol0_def)
  qed
  ultimately show ?thesis by (simp add: word_token_def)
qed

lemma show_nat_word: "c \<in> set (show_nat n) \<Longrightarrow> word_char c \<and> c \<noteq> CHR 0x00 \<and> c \<noteq> CHR ''#''"
  using show_nat_digits[of c n] by (auto simp: is_digit_def word_char_def cfg_delimiters_def)

lemma cfg_scan_number:
  assumes "n < 2 ^ 63"
  shows "cfg_scan False (show_nat n @ '' '' @ s) = CT_INTEGER (of_nat n) # cfg_scan False s"
proof -
  have "CHR 0x00 \<notin> set (show_nat n)" "hd (show_nat n) \<noteq> CHR ''#''"
    using show_nat_word[of _ n] hd_in_set[OF show_nat_nonempty[of n]] by blast+
  then show ?thesis using scan_word[of "show_nat n" s] show_nat_word word_token_show_nat[OF assms] by simp
qed

lemma scan_operator:
  "cfg_scan False (''||'' @ s) = CT_LOGICALOR # cfg_scan False s"
  "cfg_scan False (''&&'' @ s) = CT_LOGICALAND # cfg_scan False s"
  "cfg_scan False (''!'' @ s) = CT_NOT # cfg_scan False s"
  by (simp_all add: cfg_scan.simps(3) word_char_def cfg_delimiters_def)

lemma scan_char: "c \<in> set ''=,;[]{}'' \<Longrightarrow> cfg_scan False (c # s) = CT_char c # cfg_scan False s"
  by (auto simp: cfg_scan.simps(3) word_char_def cfg_delimiters_def)

lemma scan_tok:
  assumes "writable t"
  shows "cfg_scan False (show_tok t @ '' '' @ s) = t # cfg_scan False s"
proof (cases "keyword_name t")
  case (Some w)
  then have "show_tok t = w" by (cases t) (simp_all add: show_tok_def keyword_name_def g_configKeywords_def)
  with scan_keyword[OF Some] show ?thesis by simp
next
  case None
  then consider "t = CT_LOGICALOR" | "t = CT_LOGICALAND" | "t = CT_NOT"
    | x where "t = CT_STRING x" "quotable x" | v where "t = CT_INTEGER v" "unat v < 2 ^ 31" | c where "t = CT_char c" "c \<in> set ''=,;[]{}''"
    using assms by (cases t) (simp_all add: keyword_name_def g_configKeywords_def writable_def)
  then show ?thesis
    by cases (use scan_operator[of "'' '' @ s"] cfg_scan_quoted[of _ "'' '' @ s"] cfg_scan_number[of "unat (_ :: 32 word)" s] scan_char[of _ "'' '' @ s"]
      in \<open>simp_all add: show_tok_def\<close>)
qed

text \<open>What is written token by token is scanned token by token.\<close>

lemma scan_show_append: "list_all writable ts \<Longrightarrow> cfg_scan False (show_toks ts @ s) = ts @ cfg_scan False s"
  by (induction ts) (simp_all add: show_toks_def scan_tok[simplified append.simps])

lemma scan_show_toks: "list_all writable ts \<Longrightarrow> cfg_scan False (show_toks ts) = ts"
  using scan_show_append[of ts "[]"] by simp

section \<open>Writing a configuration\<close>

text \<open>
  A configuration as tokens, every setting written. \<open>sh4\<close> and \<open>sh6\<close> write addresses; an
  empty list of logs or of filters is left out, as the grammar has no empty list.
\<close>

definition show_assign :: "cfg_tok \<Rightarrow> cfg_tok \<Rightarrow> cfg_tok list" where
  "show_assign k t = [k, CT_char CHR ''='', t, CT_char CHR '';'']"

definition show_braces :: "cfg_tok list \<Rightarrow> cfg_tok list" where
  "show_braces body = CT_char CHR ''{'' # body @ [CT_char CHR ''}'']"

definition show_block :: "cfg_tok \<Rightarrow> cfg_tok list \<Rightarrow> cfg_tok list" where
  "show_block k body = k # show_braces body @ [CT_char CHR '';'']"

definition show_flag :: "bool \<Rightarrow> cfg_tok" where
  "show_flag b = CT_STRING (if b then ''true'' else ''false'')"

definition period_name :: "RollPeriod \<Rightarrow> string" where
  "period_name rp = (case List.find (\<lambda>p. snd p = rp) rollPeriods of Some p \<Rightarrow> fst p | None \<Rightarrow> [])"

definition service_toks :: "ServiceConfig \<Rightarrow> cfg_tok list" where
  "service_toks c = show_block CT_SERVICE (show_assign CT_KEYDIRECTORY (CT_STRING (sc_keyDirectory c)))"

definition loopback_toks :: "LoopbackConfig \<Rightarrow> cfg_tok list list" where
  "loopback_toks c =
     [show_assign CT_LISTENV4 (show_flag (lb_listenIpv4 c)), show_assign CT_LISTENV6 (show_flag (lb_listenIpv6 c)),
      show_assign CT_PORT (CT_INTEGER (ucast (lb_port c)))]"

definition mcast_toks :: "('a4, 'a6) addr_consts \<Rightarrow> ('a4 \<Rightarrow> string) \<Rightarrow> ('a6 \<Rightarrow> string) \<Rightarrow> ('a4, 'a6) MulticastConfig \<Rightarrow> cfg_tok list list" where
  "mcast_toks ad sh4 sh6 c =
     [show_assign CT_GROUPADDR (CT_STRING (sh4 (mc_groupAddr c))), show_assign CT_GROUPADDR6 (CT_STRING (sh6 (mc_groupAddr6 c))),
      show_assign CT_INTFADDR (CT_STRING (sh4 (mc_intfAddr c))), show_assign CT_INTFNAME (CT_STRING (mc_intfName c)),
      show_assign CT_PORT (CT_INTEGER (ucast (mc_dstPort c))), show_assign CT_OUTFILTER (CT_STRING (mc_outFilter c))]
     @ (if mc_intfAddr6 c = addr6_default ad then [] else [show_assign CT_INTFADDR6 (CT_STRING (sh6 (mc_intfAddr6 c)))])"

definition log_toks :: "LogFileConfig \<Rightarrow> cfg_tok list list" where
  "log_toks c =
     [show_assign CT_FILTER (CT_STRING (lc_filter c)), show_assign CT_PATH (CT_STRING (lc_pathPattern c)),
      show_assign CT_PERMS (CT_INTEGER (of_nat (lc_permissions c))), show_assign CT_PERIOD (CT_STRING (period_name (lc_period c))),
      show_assign CT_SIZE (CT_STRING (show_nat (nat (lc_size c)))), show_assign CT_KEEP (CT_INTEGER (lc_keep c)),
      show_assign CT_USER (CT_STRING (lc_user c)), show_assign CT_GROUP (CT_STRING (lc_group c)),
      show_assign CT_COMPRESS (CT_STRING (lc_compress c)),
      show_assign CT_FORMAT (case lc_format c of Format_text \<Rightarrow> CT_TEXT | Format_binary \<Rightarrow> CT_BINARY)]"

fun loglist_toks :: "LogFileConfig list \<Rightarrow> cfg_tok list" where
  "loglist_toks [] = []"
| "loglist_toks (c # cs) = show_braces (concat (log_toks c)) @ concat (map (\<lambda>c. CT_char CHR '','' # show_braces (concat (log_toks c))) cs)"

definition files_toks :: "FilesConfig \<Rightarrow> cfg_tok list list" where
  "files_toks c =
     show_assign CT_LOGDIRECTORY (CT_STRING (fc_logDirectory c))
     # (if fc_logs c = [] then [] else [show_block CT_LOGS (loglist_toks (fc_logs c))])"

definition filter_toks :: "(string \<times> string) list \<Rightarrow> cfg_tok list list" where
  "filter_toks m = map (\<lambda>(name, s). show_assign (CT_STRING name) (CT_STRING s)) m"

definition config_toks :: "('a4, 'a6) addr_consts \<Rightarrow> ('a4 \<Rightarrow> string) \<Rightarrow> ('a6 \<Rightarrow> string) \<Rightarrow> ('a4, 'a6) Config \<Rightarrow> cfg_tok list" where
  "config_toks ad sh4 sh6 g =
     (if cf_filters g = [] then [] else show_block CT_FILTERS (concat (filter_toks (cf_filters g))))
     @ service_toks (cf_service g)
     @ show_block CT_LOOPBACK (concat (loopback_toks (cf_loopback g)))
     @ show_block CT_MULTICAST (concat (mcast_toks ad sh4 sh6 (cf_mcast g)))
     @ show_block CT_FILES (concat (files_toks (cf_files g)))"

definition show_config :: "('a4, 'a6) addr_consts \<Rightarrow> ('a4 \<Rightarrow> string) \<Rightarrow> ('a6 \<Rightarrow> string) \<Rightarrow> ('a4, 'a6) Config \<Rightarrow> string" where
  "show_config ad sh4 sh6 g = show_toks (config_toks ad sh4 sh6 g)"

text \<open>What the language can say: strings that quotes hold, filters without variables, values in range.\<close>

definition plain_filter :: "string \<Rightarrow> bool" where
  "plain_filter s \<longleftrightarrow> quotable s \<and> CHR ''$'' \<notin> set s"

definition filter_name :: "string \<Rightarrow> bool" where
  "filter_name s \<longleftrightarrow> s \<noteq> [] \<and> set s \<subseteq> set ''abcdefghijklmnopqrstuvwxyzABCDEFGHIJKLMNOPQRSTUVWXYZ0123456789_''"

definition log_ok :: "LogFileConfig \<Rightarrow> bool" where
  "log_ok c \<longleftrightarrow>
     plain_filter (lc_filter c) \<and> list_all quotable [lc_pathPattern c, lc_user c, lc_group c, lc_compress c]
     \<and> lc_permissions c < 2 ^ 31 \<and> and (lc_permissions c) 3675 = 0 \<and> 0 \<le> lc_size c \<and> lc_size c < 2 ^ 63 \<and> unat (lc_keep c) < 2 ^ 31"

definition mcast_ok :: "('a4, 'a6) cfg_env \<Rightarrow> ('a4, 'a6) MulticastConfig \<Rightarrow> bool" where
  "mcast_ok e c \<longleftrightarrow>
     IsValidIpv4MulticastAddr e (mc_groupAddr c) \<and> IsValidIpv6MulticastAddr e (mc_groupAddr6 c)
     \<and> quotable (mc_intfName c) \<and> plain_filter (mc_outFilter c) \<and> mc_dstPort c \<noteq> 0"

definition config_ok :: "('a4, 'a6) cfg_env \<Rightarrow> ('a4, 'a6) Config \<Rightarrow> bool" where
  "config_ok e g \<longleftrightarrow>
     quotable (sc_keyDirectory (cf_service g)) \<and> lb_port (cf_loopback g) \<noteq> 0 \<and> mcast_ok e (cf_mcast g)
     \<and> quotable (fc_logDirectory (cf_files g)) \<and> list_all log_ok (fc_logs (cf_files g))
     \<and> sorted_wrt (<) (map fst (cf_filters g)) \<and> list_all (\<lambda>(name, s). filter_name name \<and> plain_filter s) (cf_filters g)"

text \<open>The address classes read what they write; replacing a variable leaves a text without \<open>$\<close> alone.\<close>

definition cfg_laws :: "('a4, 'a6) cfg_env \<Rightarrow> ('a4 \<Rightarrow> string) \<Rightarrow> ('a6 \<Rightarrow> string) \<Rightarrow> bool" where
  "cfg_laws e sh4 sh6 \<longleftrightarrow>
     (\<forall>a. ce_ip4 e (sh4 a) = a \<and> quotable (sh4 a)) \<and> (\<forall>a. ce_ip6 e (sh6 a) = a \<and> quotable (sh6 a))
     \<and> (\<forall>name val s. filter_name name \<longrightarrow> CHR ''$'' \<notin> set s \<longrightarrow> ce_replace e ([backslash, CHR ''$''] @ name) val s = s)"

section \<open>What is written is scanned\<close>

lemma quotable_Nil [simp]: "quotable []" by (simp add: quotable_def)

lemma quotable_show_nat [simp]: "quotable (show_nat n)"
  by (auto simp: quotable_def is_digit_def dest!: show_nat_digits)

lemma writable_simps [simp]:
  "writable (CT_STRING s) = quotable s" "writable (CT_INTEGER v) = (unat v < 2 ^ 31)"
  "writable (CT_char c) = (c \<in> set ''=,;[]{}'')"
  by (simp_all add: writable_def)

lemma quotable_words [simp]: "quotable ''true''" "quotable ''false''" "quotable (period_name rp)"
  by (simp_all add: quotable_def) (cases rp; simp add: period_name_def rollPeriods_def)+

lemma writable_assign [simp]:
  "list_all writable (show_assign k t) \<longleftrightarrow> writable k \<and> writable t"
  by (auto simp: show_assign_def)

lemma writable_block [simp]:
  "list_all writable (show_braces ts) = list_all writable ts"
  "list_all writable (show_block k ts) \<longleftrightarrow> writable k \<and> list_all writable ts"
  by (auto simp: show_braces_def show_block_def)

lemma writable_concat: "list_all (list_all writable) tss \<Longrightarrow> list_all writable (concat tss)"
  by (induction tss) simp_all

lemma filter_name_quotable: "filter_name s \<Longrightarrow> quotable s"
  by (auto simp: filter_name_def quotable_def)

lemma unat_ucast_port [simp]: "unat (ucast (p :: u16) :: 32 word) < 2147483648"
  using unsigned_less[of p, where 'a = nat] by (simp add: unsigned_ucast_eq take_bit_nat_eq_self) 

lemma unat_of_nat32 [simp]: "n < 2147483648 \<Longrightarrow> unat (of_nat n :: 32 word) = n"
  by (simp add: unsigned_of_nat take_bit_nat_eq_self)

lemma writable_log: "log_ok c \<Longrightarrow> list_all (list_all writable) (log_toks c)"
  by (simp add: log_ok_def log_toks_def plain_filter_def show_flag_def)
    (simp add: writable_def split: FileFormat.split)

lemma writable_loglist: "list_all log_ok cs \<Longrightarrow> list_all writable (loglist_toks cs)"
  by (cases cs) (auto simp: list_all_iff[of log_ok] intro!: writable_concat writable_log simp: list_all_iff[of "list_all writable"])

lemma writable_config:
  assumes "cfg_laws e sh4 sh6" "config_ok e g"
  shows "list_all writable (config_toks (ce_addr e) sh4 sh6 g)"
proof -
  have k: "writable t" if "keyword_name t \<noteq> None" for t
    using that by (cases t) (simp_all add: writable_def keyword_name_def g_configKeywords_def)
  have a: "quotable (sh4 x)" "quotable (sh6 y)" for x y using assms(1) by (simp_all add: cfg_laws_def)
  have "list_all writable (concat (filter_toks (cf_filters g)))"
    using assms(2)
    by (intro writable_concat) (auto simp: config_ok_def filter_toks_def list_all_iff[of "\<lambda>(x, y). _ x y"] list_all_iff[of "list_all writable"] plain_filter_def filter_name_quotable)
  moreover have "list_all writable (concat (files_toks (cf_files g)))"
    using assms(2) by (simp add: files_toks_def config_ok_def writable_loglist k keyword_name_def g_configKeywords_def)
  moreover have "list_all writable (concat (mcast_toks (ce_addr e) sh4 sh6 (cf_mcast g)))"
    using assms(2) by (simp add: mcast_toks_def config_ok_def mcast_ok_def plain_filter_def a k keyword_name_def g_configKeywords_def)
  moreover have "list_all writable (concat (loopback_toks (cf_loopback g)))"
    by (simp add: loopback_toks_def show_flag_def k keyword_name_def g_configKeywords_def)
  ultimately show ?thesis
    using assms(2) by (simp add: config_toks_def service_toks_def config_ok_def k keyword_name_def g_configKeywords_def)
qed

section \<open>What is written is parsed\<close>

lemma p_tok_same [simp]: "p_tok t (t # r) = Parsed () r"
  by (simp add: p_tok_def)

lemma p_string_same [simp]: "p_string (CT_STRING s # r) = Parsed s r"
  by (simp add: p_string_def)

lemma p_integer_same [simp]: "p_integer (CT_INTEGER v # r) = Parsed v r"
  by (simp add: p_integer_def)

lemma p_assign_shown: "p (t # CT_char CHR '';'' # r) = Parsed x (CT_char CHR '';'' # r) \<Longrightarrow> p_assign p (tl (show_assign k t) @ r) = Parsed x r"
  by (simp add: p_assign_def show_assign_def)

lemma p_braces_shown: "p (body @ CT_char CHR ''}'' # r) = Parsed x (CT_char CHR ''}'' # r) \<Longrightarrow> p_braces p (show_braces body @ r) = Parsed x r"
  by (simp add: p_braces_def show_braces_def)

lemma p_block_shown:
  "(\<And>r. p (body @ CT_char CHR ''}'' # r) = Parsed x (CT_char CHR ''}'' # r)) \<Longrightarrow> p_block p (tl (show_block k body) @ r) = Parsed x r"
  by (simp add: p_block_def show_block_def p_braces_shown)

text \<open>A list of groups of tokens, each read by the items of the list as an update.\<close>

definition reads_as :: "('c \<Rightarrow> cfg_tok list \<Rightarrow> 'c parsed option) \<Rightarrow> cfg_tok list \<Rightarrow> ('c \<Rightarrow> 'c) \<Rightarrow> bool" where
  "reads_as item ts f \<longleftrightarrow> ts \<noteq> [] \<and> (\<forall>c r. item c (ts @ r) = Some (Parsed (f c) r))"

lemma p_more_reads:
  assumes "list_all2 (reads_as item) tss fs" "\<And>c. item c r = None"
  shows "p_more item c (concat tss @ r) = Parsed (foldl (\<lambda>c f. f c) c fs) r"
  using assms(1)
proof (induction tss fs arbitrary: c rule: list_all2_induct)
  case Nil
  then show ?case by (simp add: p_more.simps assms(2))
next
  case (Cons ts tss f fs)
  then have "item c (ts @ concat tss @ r) = Some (Parsed (f c) (concat tss @ r))" "0 < length ts"
    by (simp_all add: reads_as_def)
  then show ?case using Cons.IH by (simp add: p_more.simps[of item c])
qed

lemma p_items_reads:
  assumes "list_all2 (reads_as item) tss fs" "tss \<noteq> []" "\<And>c. item c r = None"
  shows "p_items item c (concat tss @ r) = Parsed (foldl (\<lambda>c f. f c) c fs) r"
proof -
  obtain ts tss' f fs' where c: "tss = ts # tss'" "fs = f # fs'" "reads_as item ts f" "list_all2 (reads_as item) tss' fs'"
    using assms(1,2) by (cases tss; cases fs) auto
  then have "item c (ts @ concat tss' @ r) = Some (Parsed (f c) (concat tss' @ r))" by (simp add: reads_as_def)
  then show ?thesis using p_more_reads[of item tss' fs', OF c(4) assms(3)] by (simp add: p_items_def c)
qed

lemma set_reads: "p (t # CT_char CHR '';'' # r) = Parsed x (CT_char CHR '';'' # r) \<Longrightarrow>
    p_set (p_assign p (CT_char CHR ''='' # t # CT_char CHR '';'' # r)) f = Some (Parsed (f x) r)"
  using p_assign_shown[of p t r x] by (simp add: p_set_def show_assign_def)

lemma p_checked_same: "ok (conv s) \<Longrightarrow> p_checked conv ok (CT_char CHR ''='' # CT_STRING s # CT_char CHR '';'' # r) = Parsed (conv s) r"
  using p_assign_shown[of p_string "CT_STRING s" r s] by (simp add: p_checked_def show_assign_def)

lemma sint_of_nat32: "n < 2 ^ 31 \<Longrightarrow> sint (of_nat n :: 32 word) = int n"
  by (simp add: signed_of_nat signed_take_bit_int_eq_self)

lemma sint_small32: "unat (v :: 32 word) < 2 ^ 31 \<Longrightarrow> sint v = int (unat v)"
  using sint_of_nat32[of "unat v"] by simp

lemma port_same: "p \<noteq> 0 \<Longrightarrow> p_UDP4Port e (CT_INTEGER (ucast p) # r) = Parsed p r"
proof -
  assume p: "p \<noteq> 0"
  have l: "unat p < 65536" using unsigned_less[of p, where 'a = nat] by simp
  have u: "unat (ucast p :: 32 word) = unat p" using l by (simp add: unsigned_ucast_eq take_bit_nat_eq_self)
  have "sint (ucast p :: 32 word) = int (unat p)" using sint_small32[of "ucast p"] u l by simp
  moreover have "0 < int (unat p)" "int (unat p) < 65536" using p l by (simp_all only: of_nat_0_less_iff unat_gt_0) simp
  moreover have "(ucast (ucast p :: 32 word) :: u16) = of_nat (unat (ucast p :: 32 word))" by simp
  then have "ucast (ucast p :: 32 word) = p" unfolding u by simp
  ultimately show ?thesis by (simp add: p_UDP4Port_def)
qed

lemma loopback_reads:
  assumes "lb_port c \<noteq> 0"
  shows "p_items (LoopbackSetting e) LoopbackConfig_Init (concat (loopback_toks c) @ CT_char CHR ''}'' # r) = Parsed c (CT_char CHR ''}'' # r)"
proof -
  have "list_all2 (reads_as (LoopbackSetting e)) (loopback_toks c)
      [\<lambda>x. x\<lparr>lb_listenIpv4 := lb_listenIpv4 c\<rparr>, \<lambda>x. x\<lparr>lb_listenIpv6 := lb_listenIpv6 c\<rparr>, \<lambda>x. x\<lparr>lb_port := lb_port c\<rparr>]"
    by (simp add: loopback_toks_def reads_as_def show_assign_def show_flag_def LoopbackSetting_def set_reads port_same assms)
  from p_items_reads[OF this, of "CT_char CHR ''}'' # r"] show ?thesis by (simp add: loopback_toks_def LoopbackSetting_def)
qed

text \<open>Filters without \<open>$\<close> are kept as they are.\<close>

lemma expand_plain:
  assumes "cfg_laws e sh4 sh6" "list_all (\<lambda>(name, s). filter_name name) m" "plain_filter s"
  shows "ExpandFilterExpr (ce_replace e) m s = s"
proof -
  have "ce_replace e ([backslash, CHR ''$''] @ fst v) y s = s" if "v \<in> set m" for v y
    using assms that by (auto simp: cfg_laws_def plain_filter_def list_all_iff)
  then show ?thesis unfolding ExpandFilterExpr_def by (induction m) simp_all
qed

lemma mcast_reads:
  assumes "cfg_laws e sh4 sh6" "mcast_ok e c" "list_all (\<lambda>(name, s). filter_name name) m"
  shows "p_items (MulticastSetting e m) (MulticastConfig_Init (ce_addr e)) (concat (mcast_toks (ce_addr e) sh4 sh6 c) @ CT_char CHR ''}'' # r)
    = Parsed c (CT_char CHR ''}'' # r)"
proof -
  let ?fs = "[\<lambda>x. x\<lparr>mc_groupAddr := mc_groupAddr c\<rparr>, \<lambda>x. x\<lparr>mc_groupAddr6 := mc_groupAddr6 c\<rparr>, \<lambda>x. x\<lparr>mc_intfAddr := mc_intfAddr c\<rparr>,
      \<lambda>x. x\<lparr>mc_intfName := mc_intfName c\<rparr>, \<lambda>x. x\<lparr>mc_dstPort := mc_dstPort c\<rparr>, \<lambda>x. x\<lparr>mc_outFilter := mc_outFilter c\<rparr>]
      @ (if mc_intfAddr6 c = addr6_default (ce_addr e) then [] else [\<lambda>x. x\<lparr>mc_intfAddr6 := mc_intfAddr6 c\<rparr>])"
  have a: "ce_ip4 e (sh4 x) = x" "ce_ip6 e (sh6 y) = y" for x y using assms(1) by (simp_all add: cfg_laws_def)
  have x: "ExpandFilterExpr (ce_replace e) m (mc_outFilter c) = mc_outFilter c"
    using assms by (intro expand_plain[OF assms(1,3)]) (simp add: mcast_ok_def)
  have "list_all2 (reads_as (MulticastSetting e m)) (mcast_toks (ce_addr e) sh4 sh6 c) ?fs"
    using assms(2)
    by (simp add: mcast_toks_def reads_as_def show_assign_def MulticastSetting_def set_reads port_same a x mcast_ok_def
        p_checked_same p_set_def[of "p_checked _ _ _"] p_set_def[of "Parsed _ _"])
  from p_items_reads[OF this, of "CT_char CHR ''}'' # r"] show ?thesis
    by (simp add: mcast_toks_def MulticastSetting_def MulticastConfig_Init_def)
qed

lemma LogSize_plain: "n < 2 ^ 64 \<Longrightarrow> LogSize (show_nat n) = of_nat n"
  using show_nat_digits[of _ n] by (simp add: LogSize_def Let_def stoul_show_nat takeWhile_eq_all_conv[THEN iffD2])

lemma log_values:
  assumes "log_ok c"
  shows "checked_perms (of_nat (lc_permissions c)) = lc_permissions c" "sint (LogSize (show_nat (nat (lc_size c)))) = lc_size c"
    "checked_keep (sint (lc_keep c)) = lc_keep c" "GetRollPeriod (period_name (lc_period c)) = lc_period c"
proof -
  have u: "unat (of_nat (lc_permissions c) :: 32 word) = lc_permissions c" using assms by (simp add: log_ok_def)
  have "unat (and (of_nat (lc_permissions c) :: 32 word) 3675) = and (lc_permissions c) 3675" by (simp add: unsigned_and_eq u)
  then have "and (of_nat (lc_permissions c) :: 32 word) 3675 = 0" using assms by (metis log_ok_def unat_eq_zero)
  then show "checked_perms (of_nat (lc_permissions c)) = lc_permissions c" by (simp add: checked_perms_def u)
  have k: "sint (of_nat k :: u64) = int k" if "k < 2 ^ 63" for k
    using that by (simp add: signed_of_nat signed_take_bit_int_eq_self)
  have n: "nat (lc_size c) < 2 ^ 63" "0 \<le> lc_size c" using assms by (auto simp: log_ok_def nat_less_iff)
  then show "sint (LogSize (show_nat (nat (lc_size c)))) = lc_size c" using k[of "nat (lc_size c)"] by (simp add: LogSize_plain)
  have "sint (lc_keep c) = int (unat (lc_keep c))" using assms by (intro sint_small32) (simp add: log_ok_def)
  then show "checked_keep (sint (lc_keep c)) = lc_keep c" by (simp add: checked_keep_def)
  show "GetRollPeriod (period_name (lc_period c)) = lc_period c"
    by (cases "lc_period c"; simp add: period_name_def GetRollPeriod_def rollPeriods_def)
qed

lemma log_reads:
  assumes "cfg_laws e sh4 sh6" "list_all (\<lambda>(name, s). filter_name name) m" "log_ok c"
  shows "p_Log e m (show_braces (concat (log_toks c)) @ r) = Parsed c r"
proof -
  let ?fs = "[\<lambda>x. x\<lparr>lc_filter := lc_filter c\<rparr>, \<lambda>x. x\<lparr>lc_pathPattern := lc_pathPattern c\<rparr>, \<lambda>x. x\<lparr>lc_permissions := lc_permissions c\<rparr>,
    \<lambda>x. x\<lparr>lc_period := lc_period c\<rparr>, \<lambda>x. x\<lparr>lc_size := lc_size c\<rparr>, \<lambda>x. x\<lparr>lc_keep := lc_keep c\<rparr>, \<lambda>x. x\<lparr>lc_user := lc_user c\<rparr>,
    \<lambda>x. x\<lparr>lc_group := lc_group c\<rparr>, \<lambda>x. x\<lparr>lc_compress := lc_compress c\<rparr>, \<lambda>x. x\<lparr>lc_format := lc_format c\<rparr>]"
  have x: "ExpandFilterExpr (ce_replace e) m (lc_filter c) = lc_filter c"
    using assms(3) by (intro expand_plain[OF assms(1,2)]) (simp add: log_ok_def)
  have f: "p_Format (CT_TEXT # r) = Parsed Format_text r" "p_Format (CT_BINARY # r) = Parsed Format_binary r" for r
    by (simp_all add: p_Format_def)
  have "list_all2 (reads_as (LogSetting e m)) (log_toks c) ?fs"
    by (cases "lc_format c")
      (simp_all add: log_toks_def reads_as_def show_assign_def LogSetting_def set_reads x f log_values[OF assms(3)])
  from p_items_reads[OF this, of "CT_char CHR ''}'' # r" LogFileConfig_Init]
  have "p_items (LogSetting e m) LogFileConfig_Init (concat (log_toks c) @ CT_char CHR ''}'' # r) = Parsed c (CT_char CHR ''}'' # r)"
    by (simp add: log_toks_def LogSetting_def LogFileConfig_Init_def)
  then show ?thesis by (simp add: p_Log_def p_braces_shown)
qed

lemma loglist_reads:
  assumes "cfg_laws e sh4 sh6" "list_all (\<lambda>(name, s). filter_name name) m" "list_all log_ok cs" "cs \<noteq> []"
  shows "p_LogList e m (loglist_toks cs @ CT_char CHR ''}'' # r) = Parsed cs (CT_char CHR ''}'' # r)"
proof -
  obtain c cs' where c: "cs = c # cs'" using assms(4) by (cases cs) auto
  note one = log_reads[OF assms(1,2)]
  have "list_all2 (reads_as (LogListItem e m)) (map (\<lambda>c. CT_char CHR '','' # show_braces (concat (log_toks c))) cs') (map (\<lambda>c ls. ls @ [c]) cs')"
    using assms(3) by (simp add: c list.rel_map list.rel_refl_strong list_all_iff reads_as_def LogListItem_def one p_set_def)
  from p_more_reads[OF this, of "CT_char CHR ''}'' # r" "[c]"]
  have "p_more (LogListItem e m) [c] (concat (map (\<lambda>c. CT_char CHR '','' # show_braces (concat (log_toks c))) cs') @ CT_char CHR ''}'' # r)
      = Parsed (foldl (\<lambda>ls c. ls @ [c]) [c] cs') (CT_char CHR ''}'' # r)"
    by (simp add: LogListItem_def foldl_map)
  moreover have "foldl (\<lambda>ls c. ls @ [c]) ls cs' = ls @ cs'" for ls by (induction cs' arbitrary: ls) simp_all
  ultimately show ?thesis using one[of c] assms(3) by (simp add: p_LogList_def c)
qed

lemma files_reads:
  assumes "cfg_laws e sh4 sh6" "list_all (\<lambda>(name, s). filter_name name) m" "list_all log_ok (fc_logs c)"
  shows "p_items (FilesSetting e m) FilesConfig_Init (concat (files_toks c) @ CT_char CHR ''}'' # r) = Parsed c (CT_char CHR ''}'' # r)"
proof -
  let ?fs = "(\<lambda>x. x\<lparr>fc_logDirectory := fc_logDirectory c\<rparr>) # (if fc_logs c = [] then [] else [\<lambda>x. x\<lparr>fc_logs := fc_logs c\<rparr>])"
  have b: "p_block (p_LogList e m) (tl (show_block CT_LOGS (loglist_toks (fc_logs c))) @ r) = Parsed (fc_logs c) r" if "fc_logs c \<noteq> []" for r
    using that loglist_reads[OF assms(1,2,3)] by (intro p_block_shown)
  have "list_all2 (reads_as (FilesSetting e m)) (files_toks c) ?fs"
    using b by (auto simp: files_toks_def reads_as_def show_assign_def show_block_def FilesSetting_def set_reads p_set_def[of "Parsed _ _"])
  from p_items_reads[OF this, of "CT_char CHR ''}'' # r"] show ?thesis
    by (simp add: files_toks_def FilesSetting_def FilesConfig_Init_def)
qed

lemma map_insert_last: "\<forall>x\<in>set (map fst m). x < k \<Longrightarrow> map_insert k v m = m @ [(k, v)]"
  by (induction m) auto

lemma filters_fold:
  assumes "cfg_laws e sh4 sh6"
  shows "sorted_wrt (<) (map fst (acc @ m)) \<Longrightarrow> list_all (\<lambda>(name, s). filter_name name \<and> plain_filter s) (acc @ m) \<Longrightarrow>
    foldl (\<lambda>c f. f c) acc (map (\<lambda>(name, s) x. map_insert name (ExpandFilterExpr (ce_replace e) x s) x) m) = acc @ m"
proof (induction m arbitrary: acc)
  case (Cons v m)
  obtain name s where v: "v = (name, s)" by (cases v)
  have "ExpandFilterExpr (ce_replace e) acc s = s"
    using Cons.prems(2) by (intro expand_plain[OF assms]) (auto simp: v list_all_iff)
  moreover have "map_insert name s acc = acc @ [(name, s)]"
    using Cons.prems(1) by (intro map_insert_last) (auto simp: v sorted_wrt_append)
  ultimately show ?case using Cons.IH[of "acc @ [(name, s)]"] Cons.prems by (simp add: v)
qed simp

lemma filters_read:
  assumes "cfg_laws e sh4 sh6" "sorted_wrt (<) (map fst m)" "list_all (\<lambda>(name, s). filter_name name \<and> plain_filter s) m" "m \<noteq> []"
  shows "p_items (FilterExpr e) [] (concat (filter_toks m) @ CT_char CHR ''}'' # r) = Parsed m (CT_char CHR ''}'' # r)"
proof -
  let ?fs = "map (\<lambda>(name, s) x. map_insert name (ExpandFilterExpr (ce_replace e) x s) x) m"
  have "list_all2 (reads_as (FilterExpr e)) (filter_toks m) ?fs"
    by (auto simp: filter_toks_def list.rel_map reads_as_def show_assign_def FilterExpr_def set_reads intro!: list.rel_refl_strong)
  from p_items_reads[OF this, of "CT_char CHR ''}'' # r" "[]"] filters_fold[OF assms(1), of "[]" m] assms(2-4)
  show ?thesis by (simp add: filter_toks_def FilterExpr_def)
qed

text \<open>One stanza after another.\<close>

lemma parse_stanza:
  assumes "TopStanza e g (ts @ r) = Parsed g' r" "ts \<noteq> []"
  shows "mclogcfgparse e g (ts @ r) = (if r = [] then (Inr True, g') else mclogcfgparse e g' r)"
  using assms by (simp add: mclogcfgparse.simps[of e g "ts @ r"])

lemma TopStanza_shown:
  assumes "cfg_laws e sh4 sh6" "config_ok e c"
  shows "cf_filters c \<noteq> [] \<Longrightarrow> TopStanza e g (show_block CT_FILTERS (concat (filter_toks (cf_filters c))) @ r) = Parsed (g\<lparr>cf_filters := cf_filters c\<rparr>) r"
    "TopStanza e g (service_toks (cf_service c) @ r) = Parsed (g\<lparr>cf_service := cf_service c\<rparr>) r"
    "TopStanza e g (show_block CT_LOOPBACK (concat (loopback_toks (cf_loopback c))) @ r) = Parsed (g\<lparr>cf_loopback := cf_loopback c\<rparr>) r"
    "cf_filters g = cf_filters c \<Longrightarrow>
       TopStanza e g (show_block CT_MULTICAST (concat (mcast_toks (ce_addr e) sh4 sh6 (cf_mcast c))) @ r) = Parsed (g\<lparr>cf_mcast := cf_mcast c\<rparr>) r"
    "cf_filters g = cf_filters c \<Longrightarrow>
       TopStanza e g (show_block CT_FILES (concat (files_toks (cf_files c))) @ r) = Parsed (g\<lparr>cf_files := cf_files c\<rparr>) r"
proof -
  have ok: "lb_port (cf_loopback c) \<noteq> 0" "mcast_ok e (cf_mcast c)" "list_all log_ok (fc_logs (cf_files c))"
    "sorted_wrt (<) (map fst (cf_filters c))" "list_all (\<lambda>(name, s). filter_name name \<and> plain_filter s) (cf_filters c)"
    using assms(2) by (simp_all add: config_ok_def)
  have names: "list_all (\<lambda>(name, s). filter_name name) (cf_filters c)" using ok(5) by (auto simp: list_all_iff)
  have s: "p_ServiceSettings (show_assign CT_KEYDIRECTORY (CT_STRING (sc_keyDirectory (cf_service c))) @ r)
      = Parsed (cf_service c) r" for r
    using p_assign_shown[of p_string "CT_STRING (sc_keyDirectory (cf_service c))" r _ CT_KEYDIRECTORY]
    by (simp add: p_ServiceSettings_def show_assign_def ServiceConfig_Init_def)
  show "TopStanza e g (service_toks (cf_service c) @ r) = Parsed (g\<lparr>cf_service := cf_service c\<rparr>) r"
    using p_block_shown[of p_ServiceSettings, OF s] by (simp add: TopStanza_def service_toks_def show_block_def)
  show "TopStanza e g (show_block CT_LOOPBACK (concat (loopback_toks (cf_loopback c))) @ r) = Parsed (g\<lparr>cf_loopback := cf_loopback c\<rparr>) r"
    using p_block_shown[OF loopback_reads[OF ok(1), of e], of CT_LOOPBACK r] by (simp add: TopStanza_def show_block_def)
  show "TopStanza e g (show_block CT_FILTERS (concat (filter_toks (cf_filters c))) @ r) = Parsed (g\<lparr>cf_filters := cf_filters c\<rparr>) r"
    if "cf_filters c \<noteq> []"
    using p_block_shown[OF filters_read[OF assms(1) ok(4,5) that], of CT_FILTERS r] by (simp add: TopStanza_def show_block_def)
  show "TopStanza e g (show_block CT_MULTICAST (concat (mcast_toks (ce_addr e) sh4 sh6 (cf_mcast c))) @ r) = Parsed (g\<lparr>cf_mcast := cf_mcast c\<rparr>) r"
    if "cf_filters g = cf_filters c"
    using p_block_shown[OF mcast_reads[OF assms(1) ok(2) names], of CT_MULTICAST r] by (simp add: TopStanza_def show_block_def that)
  show "TopStanza e g (show_block CT_FILES (concat (files_toks (cf_files c))) @ r) = Parsed (g\<lparr>cf_files := cf_files c\<rparr>) r"
    if "cf_filters g = cf_filters c"
    using p_block_shown[OF files_reads[OF assms(1) names ok(3)], of CT_FILES r] by (simp add: TopStanza_def show_block_def that)
qed

lemma parse_shown:
  assumes "cfg_laws e sh4 sh6" "config_ok e c" "cf_filters c \<noteq> [] \<or> cf_filters g = []"
  shows "mclogcfgparse e g (config_toks (ce_addr e) sh4 sh6 c) = (Inr True, c)"
proof -
  note t = TopStanza_shown[OF assms(1,2)]
  let ?rest = "service_toks (cf_service c) @ show_block CT_LOOPBACK (concat (loopback_toks (cf_loopback c)))
     @ show_block CT_MULTICAST (concat (mcast_toks (ce_addr e) sh4 sh6 (cf_mcast c))) @ show_block CT_FILES (concat (files_toks (cf_files c)))"
  have n: "show_block k ts \<noteq> []" "service_toks x \<noteq> []" for k ts x by (simp_all add: show_block_def service_toks_def)
  have rest: "mclogcfgparse e h ?rest = (Inr True, c)" if "cf_filters h = cf_filters c" for h
    using t(5)[of _ "[]"] that by (simp add: parse_stanza[OF t(2) n(2)] parse_stanza[OF t(3) n(1)] parse_stanza[OF t(4) n(1)] parse_stanza[of _ _ _ "[]", simplified, OF t(5)[of _ "[]", simplified] n(1)] n)
  show ?thesis
  proof (cases "cf_filters c = []")
    case True
    then show ?thesis using rest[of g] assms(3) by (simp add: config_toks_def)
  next
    case False
    have "mclogcfgparse e g (show_block CT_FILTERS (concat (filter_toks (cf_filters c))) @ ?rest) = (Inr True, c)"
      using rest[of "g\<lparr>cf_filters := cf_filters c\<rparr>"] by (subst parse_stanza[OF t(1)[OF False] n(1)]) (simp add: n)
    with False show ?thesis by (simp add: config_toks_def)
  qed
qed

lemma Config_Parse_shown:
  assumes "cfg_laws e sh4 sh6" "config_ok e c" "cf_filters c \<noteq> [] \<or> cf_filters old = []"
  shows "Config_Parse e (Some (show_config (ce_addr e) sh4 sh6 c)) old = (Inr True, c)"
  using parse_shown[OF assms(1,2), of "Config_Init (ce_addr e) old"] assms(3) writable_config[OF assms(1,2)]
  by (simp add: Config_Parse_def show_config_def scan_show_toks Config_Init_def)

section \<open>Parsing consumes tokens\<close>

text \<open>What a rule leaves are tokens it was given, fewer of them when it consumes.\<close>

definition no_more :: "cfg_tok list \<Rightarrow> cfg_tok list \<Rightarrow> bool" where
  "no_more r toks \<longleftrightarrow> set r \<subseteq> set toks \<and> length r \<le> length toks"

definition fewer :: "cfg_tok list \<Rightarrow> cfg_tok list \<Rightarrow> bool" where
  "fewer r toks \<longleftrightarrow> set r \<subseteq> set toks \<and> length r < length toks"

definition consumes :: "(cfg_tok list \<Rightarrow> 'a parsed) \<Rightarrow> bool" where
  "consumes p \<longleftrightarrow> (\<forall>toks x r. p toks = Parsed x r \<longrightarrow> fewer r toks)"

definition item_consumes :: "('c \<Rightarrow> cfg_tok list \<Rightarrow> 'c parsed option) \<Rightarrow> bool" where
  "item_consumes item \<longleftrightarrow> (\<forall>c toks c' r. item c toks = Some (Parsed c' r) \<longrightarrow> fewer r toks)"

lemma consumesD: "consumes p \<Longrightarrow> p toks = Parsed x r \<Longrightarrow> fewer r toks"
  by (simp add: consumes_def)

lemma item_consumesD: "item_consumes item \<Longrightarrow> item c toks = Some (Parsed x r) \<Longrightarrow> fewer r toks"
  by (auto simp: item_consumes_def)

lemma fewer_trans: "fewer r s \<Longrightarrow> fewer s t \<Longrightarrow> fewer r t" "no_more r s \<Longrightarrow> fewer s t \<Longrightarrow> fewer r t" "no_more r s \<Longrightarrow> no_more s t \<Longrightarrow> no_more r t"
  by (auto simp: fewer_def no_more_def)

lemma fewer_Cons: "fewer r (t # r)" "fewer r s \<Longrightarrow> fewer r (t # s)" "no_more r r" "fewer r s \<Longrightarrow> no_more r s" "no_more r s \<Longrightarrow> fewer r (t # s)"
  by (auto simp: fewer_def no_more_def)

lemma fewer_step: "fewer (u # r) s \<Longrightarrow> fewer r (t # s)" "fewer (u # v # r) s \<Longrightarrow> fewer r (t # s)"
  by (auto simp: fewer_def)

lemma p_then_Parsed [simp]: "p_then res f = Parsed y r \<longleftrightarrow> (\<exists>x r'. res = Parsed x r' \<and> f x r' = Parsed y r)"
  by (cases res) auto

lemma p_error_not_Parsed [simp]: "p_error toks \<noteq> Parsed x r"
  by (simp add: p_error_def split: list.split cfg_tok.split)

lemma p_tok_Parsed: "p_tok t toks = Parsed x r \<longleftrightarrow> toks = t # r"
  by (auto simp: p_tok_def split: list.split)

lemma consumes_atoms: "consumes p_string" "consumes p_integer" "consumes p_Format" "consumes (p_UDP4Port e)"
  by (auto simp: consumes_def p_string_def p_integer_def p_Format_def p_UDP4Port_def fewer_Cons
      split: list.splits cfg_tok.splits if_splits option.splits)

lemma consumes_assign: "consumes p \<Longrightarrow> consumes (p_assign p)"
  by (auto simp: consumes_def p_assign_def p_tok_Parsed intro: fewer_step)

lemma consumes_braces: "consumes p \<Longrightarrow> consumes (p_braces p)" "consumes p \<Longrightarrow> consumes (p_block p)"
  unfolding p_block_def
  by (auto simp: consumes_def p_braces_def p_tok_Parsed intro: fewer_step)

lemma consumes_checked: "consumes (p_checked conv ok)"
  using consumesD[OF consumes_assign[OF consumes_atoms(1)]]
  by (auto simp: consumes_def p_checked_def split: if_splits)

lemma more_leaves: "item_consumes item \<Longrightarrow> p_more item c toks = Parsed c' r \<Longrightarrow> no_more r toks"
proof (induction item c toks arbitrary: rule: p_more.induct)
  case (1 item c toks)
  show ?case
  proof (cases "item c toks")
    case None
    then show ?thesis using 1(3) by (simp add: p_more.simps[of item c] fewer_Cons)
  next
    case (Some res)
    then obtain x s where s: "res = Parsed x s" using 1(3) by (cases res) (simp_all add: p_more.simps[of item c])
    from item_consumesD[OF 1(2) Some[unfolded s]] have f: "fewer s toks" .
    then have l: "length s < length toks" by (simp add: fewer_def)
    then have "p_more item x s = Parsed c' r" using 1(3) Some s by (simp add: p_more.simps[of item c])
    from 1(1)[OF Some s l 1(2) this] f show ?thesis by (auto intro: fewer_trans fewer_Cons)
  qed
qed

lemma consumes_items: "item_consumes item \<Longrightarrow> consumes (p_items item c)"
  by (auto simp: consumes_def p_items_def split: option.splits) (metis more_leaves item_consumesD fewer_trans(2))

lemma p_set_Parsed: "p_set res f = Some (Parsed c' r) \<longleftrightarrow> (\<exists>x. res = Parsed x r \<and> c' = f x)"
  by (auto simp: p_set_def)

lemmas consumes_rules = consumes_atoms consumes_assign consumes_braces consumes_checked consumes_items

lemma items_consume: "item_consumes (LoopbackSetting e)" "item_consumes (MulticastSetting e m)" "item_consumes (LogSetting e m)"
  "item_consumes (FilterExpr e)"
  by (auto simp: item_consumes_def LoopbackSetting_def MulticastSetting_def LogSetting_def FilterExpr_def Let_def p_set_Parsed
      split: list.splits cfg_tok.splits dest!: consumesD[rotated] intro!: consumes_rules fewer_Cons)

lemma consumes_Log: "consumes (p_Log e m)"
  unfolding p_Log_def[abs_def] by (intro consumes_rules items_consume)

lemma consumes_LogList: "consumes (p_LogList e m)"
proof -
  have i: "item_consumes (LogListItem e m)"
    by (auto simp: item_consumes_def LogListItem_def p_set_Parsed fewer_Cons
        split: list.splits cfg_tok.splits if_splits dest!: consumesD[OF consumes_Log])
  show ?thesis
    by (auto simp: consumes_def p_LogList_def) (metis more_leaves[OF i] consumesD[OF consumes_Log] fewer_trans(2))
qed

lemma consumes_Files: "item_consumes (FilesSetting e m)"
  by (auto simp: item_consumes_def FilesSetting_def p_set_Parsed split: list.splits cfg_tok.splits
      dest!: consumesD[rotated] intro!: consumes_rules consumes_LogList fewer_Cons)

lemma consumes_Service: "consumes p_ServiceSettings"
  by (auto simp: consumes_def p_ServiceSettings_def p_tok_Parsed dest!: consumesD[rotated] intro!: consumes_rules fewer_Cons)

lemma consumes_TopStanza: "consumes (TopStanza e g)"
  by (auto simp: consumes_def TopStanza_def split: list.splits cfg_tok.splits dest!: consumesD[rotated]
      intro!: consumes_rules items_consume consumes_Files consumes_Service fewer_Cons)

text \<open>So the parser is the plain loop over the stanzas.\<close>

lemma mclogcfgparse_loop:
  "mclogcfgparse e g toks =
     (case TopStanza e g toks of
        Parsed g' r \<Rightarrow> if r = [] then (Inr True, g') else mclogcfgparse e g' r
      | Rejected \<Rightarrow> (Inr False, g)
      | Raised ex \<Rightarrow> (Inl ex, g))"
  using consumesD[OF consumes_TopStanza, of e g toks]
  by (auto simp: mclogcfgparse.simps[of e g toks] fewer_def split: parsed.split)

lemma TopStanza_filters:
  "TopStanza e g toks = Parsed g' r \<Longrightarrow> CT_FILTERS \<notin> set toks \<Longrightarrow> cf_filters g' = cf_filters g"
  by (auto simp: TopStanza_def split: list.splits cfg_tok.splits)

lemma parse_keeps_filters: "CT_FILTERS \<notin> set toks \<Longrightarrow> cf_filters (snd (mclogcfgparse e g toks)) = cf_filters g"
proof (induction e g toks rule: mclogcfgparse.induct)
  case (1 e g toks)
  show ?case
  proof (cases "TopStanza e g toks")
    case (Parsed g' r)
    from consumesD[OF consumes_TopStanza Parsed] have "set r \<subseteq> set toks" "length r < length toks" by (simp_all add: fewer_def)
    with 1 Parsed TopStanza_filters[OF Parsed] show ?thesis by (auto simp: mclogcfgparse_loop[of e g toks])
  qed (simp_all add: mclogcfgparse_loop[of e g toks])
qed

section \<open>Properties\<close>



text \<open>
  A number that does not fit a \<open>long\<close> is not a syntax error: the exception of \<open>std::stol\<close> leaves
  \<open>Config::Parse\<close>, with the configuration back at its defaults. A number that fits a \<open>long\<close> but not an
  \<open>int\<close> is cut: such a port can be read as another one.
\<close>

definition loopback_port_text :: "nat \<Rightarrow> string" where
  "loopback_port_text n = show_toks [CT_LOOPBACK, CT_char CHR ''{'', CT_PORT, CT_char CHR ''=''] @ show_nat n @ '' ;};''"

lemma cfg_scan_big_number:
  assumes "2 ^ 63 \<le> n"
  shows "cfg_scan False (show_nat n @ '' '' @ s) = [CT_throw OutOfRange]"
proof -
  have d: "c \<in> set (show_nat n) \<Longrightarrow> is_digit c" for c by (rule show_nat_digits)
  have "IsNumber (show_nat n)" by (auto simp: IsNumber_def list_all_iff d)
  moreover have "stol0 (show_nat n) = Inl OutOfRange"
    using assms hd_show_nat[of n] by (auto simp: stol0_def)
  ultimately have t: "word_token (show_nat n) = CT_throw OutOfRange" by (simp add: word_token_def)
  obtain c cs where w: "show_nat n = c # cs" using show_nat_nonempty[of n] by (cases "show_nat n") auto
  note a = show_nat_word[of _ n]
  have b: "\<not> word_char CHR '' ''" by (simp add: word_char_def cfg_delimiters_def)
  have "takeWhile word_char (c # cs @ '' '' @ s) = show_nat n" using a b by (simp add: w takeWhile_append2)
  moreover have "cstr (show_nat n) = show_nat n" using a by (intro cstr_no_nul) auto
  moreover have "word_char c" "c \<noteq> CHR ''#''" using a by (simp_all add: w)
  ultimately have "cfg_scan False (c # cs @ '' '' @ s) = [CT_throw OutOfRange]"
    by (simp only: cfg_scan.simps(3) if_True if_False simp_thms t cfg_tok.case)
  then show ?thesis by (simp add: w)
qed

lemma scan_port_text:
  "cfg_scan False (loopback_port_text n) =
     [CT_LOOPBACK, CT_char CHR ''{'', CT_PORT, CT_char CHR ''='']
     @ (if 2 ^ 63 \<le> n then [CT_throw OutOfRange]
        else [CT_INTEGER (of_nat n), CT_char CHR '';'', CT_char CHR ''}'', CT_char CHR '';''])"
proof -
  have "list_all writable [CT_LOOPBACK, CT_char CHR ''{'', CT_PORT, CT_char CHR ''='']" by (simp add: writable_def)
  from scan_show_append[OF this] have "cfg_scan False (loopback_port_text n) =
      [CT_LOOPBACK, CT_char CHR ''{'', CT_PORT, CT_char CHR ''=''] @ cfg_scan False (show_nat n @ '' ;};'')"
    by (simp add: loopback_port_text_def)
  moreover have "cfg_scan False '';};'' = [CT_char CHR '';'', CT_char CHR ''}'', CT_char CHR '';'']" by (simp add: scan_char)
  ultimately show ?thesis using cfg_scan_number[of n "'';};''"] cfg_scan_big_number[of n "'';};''"] by simp
qed

theorem config_number_overflow:
  assumes "2 ^ 63 \<le> n"
  shows "Config_Parse e (Some (loopback_port_text n)) old = (Inl OutOfRange, Config_Init (ce_addr e) old)
    \<and> Config_Parse e (Some (loopback_port_text (2 ^ 32 + 80))) old
      = (Inr True, (Config_Init (ce_addr e) old)\<lparr>cf_loopback := LoopbackConfig_Init\<lparr>lb_port := 80\<rparr>\<rparr>)"
proof
  show "Config_Parse e (Some (loopback_port_text n)) old = (Inl OutOfRange, Config_Init (ce_addr e) old)"
    using assms by (simp add: Config_Parse_def Let_def scan_port_text mclogcfgparse_loop[of e] TopStanza_def p_block_def p_braces_def p_items_def
        LoopbackSetting_def p_set_def p_assign_def p_UDP4Port_def p_error_def)
  show "Config_Parse e (Some (loopback_port_text (2 ^ 32 + 80))) old
      = (Inr True, (Config_Init (ce_addr e) old)\<lparr>cf_loopback := LoopbackConfig_Init\<lparr>lb_port := 80\<rparr>\<rparr>)"
    by (simp add: Config_Parse_def Let_def scan_port_text mclogcfgparse_loop[of e] TopStanza_def p_block_def p_braces_def p_items_def
        LoopbackSetting_def p_set_def p_assign_def p_UDP4Port_def p_error_def p_more.simps)
qed

section \<open>Witnesses\<close>

definition sample_addrs :: "(nat, nat) addr_consts" where
  "sample_addrs = \<lparr>addr4_default = 0, addr6_default = 0, addr4_group = 1, addr6_group = 2\<rparr>"

definition sample_cfg_env :: "(nat, nat) cfg_env" where
  "sample_cfg_env =
     \<lparr>ce_addr = sample_addrs, ce_ip4 = digits_val, ce_ip6 = digits_val, ce_multicast4 = (\<lambda>a. a < 9), ce_multicast6 = (\<lambda>a. a < 9),
      ce_service = (\<lambda>_. None), ce_replace = (\<lambda>re by s. if s = tl re then by else s)\<rparr>"

definition sample_file_config :: "(nat, nat) Config" where
  "sample_file_config =
     \<lparr>cf_loopback = \<lparr>lb_listenIpv4 = True, lb_listenIpv6 = True, lb_port = 3738\<rparr>,
      cf_mcast = \<lparr>mc_groupAddr = 3, mc_groupAddr6 = 4, mc_intfName = ''eth0'', mc_intfAddr = 7, mc_intfAddr6 = 0, mc_dstPort = 3737, mc_outFilter = []\<rparr>,
      cf_service = \<lparr>sc_keyDirectory = ''/etc/keys''\<rparr>,
      cf_filters = [(''auth'', ''facility=auth''), (''mail'', ''facility=mail'')],
      cf_files = \<lparr>fc_logDirectory = ''/logs'',
        fc_logs = [LogFileConfig_Init\<lparr>lc_size := 1000, lc_period := hours_2\<rparr>, LogFileConfig_Init\<lparr>lc_format := Format_binary\<rparr>]\<rparr>\<rparr>"

lemma sample_cfg_laws: "cfg_laws sample_cfg_env show_nat show_nat"
proof -
  have "CHR ''$'' \<notin> set s \<Longrightarrow> s \<noteq> CHR ''$'' # name" for s name :: string by auto
  then show ?thesis by (simp add: cfg_laws_def sample_cfg_env_def)
qed

lemma sample_file_config_ok: "config_ok sample_cfg_env sample_file_config"
  by (simp add: config_ok_def sample_file_config_def sample_cfg_env_def sample_addrs_def mcast_ok_def log_ok_def plain_filter_def
      quotable_def filter_name_def IsValidIpv4MulticastAddr_def IsValidIpv6MulticastAddr_def LogFileConfig_Init_def)



lemma config_number_overflow_witness:
  "Config_Parse sample_cfg_env (Some (loopback_port_text 9223372036854775808)) sample_file_config
     = (Inl OutOfRange, Config_Init sample_addrs sample_file_config)"
  using config_number_overflow[of 9223372036854775808 sample_cfg_env sample_file_config] by (simp add: sample_cfg_env_def)

end
