(* ===== verification/Logger.thy ===== *)
theory Logger
  imports MessageFilter
begin

text \<open>
  \<open>DwmMclogLogger.{hh,cc}\<close>, what the \<open>MCLOG\<close> macro of an application calls, with the
  interface of its sinks (\<open>DwmMclogMessageSink.hh\<close>) and the sinks that write to a stream and to
  syslog (\<open>DwmMclogOstreamSink.hh\<close>, \<open>DwmMclogSyslogSink.hh\<close>). A sink is a pointer, of a
  type \<open>'s\<close>; what its \<open>Process\<close> does is a parameter that changes a state \<open>'w\<close> of the world.
  Formatting the text of a message is the caller's. The lemmas: which messages reach which
  sinks, and how often; and what becomes of the \<open>LoopbackSender\<close> that \<open>Open\<close> allocates.
\<close>

section \<open>Sinks\<close>

type_synonym ('s, 'w) sink_process = "'s \<Rightarrow> Message \<Rightarrow> 'w \<Rightarrow> bool \<times> 'w"

text \<open>The default implementation of the interface does nothing.\<close>

definition MessageSink_Process :: "('s, 'w) sink_process" where
  "MessageSink_Process sink msg w = (True, w)"

definition OstreamSink_Process :: "timezone \<Rightarrow> Message \<Rightarrow> ostream \<Rightarrow> bool \<times> ostream" where
  "OstreamSink_Process z msg os = (let os' = os_write (message_put z msg) os in (\<not> ofail os', os'))"

text \<open>
  \<open>Syslog\<close> takes a priority and a \<open>printf\<close> format: the text of the message is its format.
\<close>

definition SyslogSink_Process :: "(int \<Rightarrow> string \<Rightarrow> 'w \<Rightarrow> 'w) \<Rightarrow> Message \<Rightarrow> 'w \<Rightarrow> bool \<times> 'w" where
  "SyslogSink_Process syslog msg w =
     (let hdr = msg_header msg in (True, syslog (uint (severity hdr)) (cstr (msg_data msg)) w))"

section \<open>State\<close>

text \<open>
  \<open>lg_live\<close> is no member: it lists the senders \<open>Open\<close> has allocated and nobody has deleted.
\<close>

record 's Logger =
  lg_origin :: MessageOrigin
  lg_facility :: facility
  lg_minimumSeverity :: severity
  lg_logLocations :: bool
  lg_sinks :: "'s list"
  lg_loopbackSender :: "'s option"
  lg_live :: "'s list"

definition Logger_new :: "'s Logger" where
  "Logger_new =
     \<lparr>lg_origin = \<lparr>hostname = [], appname = [], procid = 0\<rparr>, lg_facility = fac_user, lg_minimumSeverity = sev_debug,
      lg_logLocations = False, lg_sinks = [], lg_loopbackSender = None, lg_live = []\<rparr>"

definition Logger_LogLocations :: "bool \<Rightarrow> 's Logger \<Rightarrow> 's Logger" where
  "Logger_LogLocations b s = s\<lparr>lg_logLocations := b\<rparr>"

definition Logger_MinimumSeverity :: "severity \<Rightarrow> 's Logger \<Rightarrow> severity \<times> 's Logger" where
  "Logger_MinimumSeverity minSeverity s = (minSeverity, s\<lparr>lg_minimumSeverity := minSeverity\<rparr>)"

definition Logger_MinimumSeverity_name :: "string \<Rightarrow> 's Logger \<Rightarrow> severity \<times> 's Logger" where
  "Logger_MinimumSeverity_name minSeverity s =
     (let v = SeverityValue minSeverity in (v, s\<lparr>lg_minimumSeverity := v\<rparr>))"

section \<open>Opening and closing\<close>

text \<open>
  What the system tells: the host name, the program's name, its process id; and the address
  \<open>new LoopbackSender()\<close> would return.
\<close>

record 's process_env =
  pe_hostname :: string
  pe_progname :: string
  pe_pid :: int
  pe_new_sender :: 's

text \<open>A name that is no \<open>ShortString\<close> throws, with the origin as far as it was set.\<close>

definition Logger_Open ::
    "dwm_io \<Rightarrow> 's process_env \<Rightarrow> facility \<Rightarrow> 's list \<Rightarrow> string option \<Rightarrow> 's Logger \<Rightarrow> bool result \<times> 's Logger" where
  "Logger_Open io e fac sinks ident s =
     (case short io 255 (pe_hostname e) of
        Inl ex \<Rightarrow> (Inl ex, s)
      | Inr hn \<Rightarrow>
          let s1 = s\<lparr>lg_origin := (lg_origin s)\<lparr>hostname := hn\<rparr>\<rparr>
          in case short io 255 (case ident of None \<Rightarrow> pe_progname e | Some nm \<Rightarrow> nm) of
               Inl ex \<Rightarrow> (Inl ex, s1)
             | Inr an \<Rightarrow>
                 let s2 = s1\<lparr>lg_origin := (lg_origin s1)\<lparr>appname := an, procid := of_int (pe_pid e)\<rparr>,
                             lg_facility := fac, lg_sinks := []\<rparr>
                 in (Inr True,
                     if sinks = [] then
                       s2\<lparr>lg_loopbackSender := Some (pe_new_sender e), lg_sinks := lg_sinks s2 @ [pe_new_sender e],
                          lg_live := lg_live s2 @ [pe_new_sender e]\<rparr>
                     else s2\<lparr>lg_sinks := lg_sinks s2 @ sinks\<rparr>))"

definition Logger_Open_name ::
    "dwm_io \<Rightarrow> 's process_env \<Rightarrow> string \<Rightarrow> 's list \<Rightarrow> string option \<Rightarrow> 's Logger \<Rightarrow> bool result \<times> 's Logger" where
  "Logger_Open_name io e fac sinks ident s = Logger_Open io e (FacilityValue fac) sinks ident s"

text \<open>\<open>delete _loopbackSender; _loopbackSender = nullptr;\<close>\<close>

definition delete_sender :: "'s Logger \<Rightarrow> 's Logger" where
  "delete_sender s =
     (case lg_loopbackSender s of
        Some p \<Rightarrow> s\<lparr>lg_live := remove1 p (lg_live s), lg_loopbackSender := None\<rparr>
      | None \<Rightarrow> s)"

fun add_sinks :: "'s list \<Rightarrow> bool \<Rightarrow> 's list \<Rightarrow> bool \<times> 's list" where
  "add_sinks [] rc entries = (rc, entries)"
| "add_sinks (sink # sinks) rc entries =
     (if List.find (\<lambda>entry. sink = entry) entries = None then add_sinks sinks True (entries @ [sink])
      else add_sinks sinks rc entries)"

definition Logger_AddSinks :: "'s list \<Rightarrow> 's Logger \<Rightarrow> bool \<times> 's Logger" where
  "Logger_AddSinks sinks s = (let (rc, entries) = add_sinks sinks False (lg_sinks s) in (rc, s\<lparr>lg_sinks := entries\<rparr>))"

fun remove_sinks :: "'s list \<Rightarrow> bool \<Rightarrow> 's list \<Rightarrow> bool \<times> 's list" where
  "remove_sinks [] rc entries = (rc, entries)"
| "remove_sinks (sink # sinks) rc entries =
     (if sink \<in> set entries then remove_sinks sinks True (remove1 sink entries) else remove_sinks sinks rc entries)"

definition Logger_RemoveSinks :: "'s list \<Rightarrow> 's Logger \<Rightarrow> bool \<times> 's Logger" where
  "Logger_RemoveSinks sinks s = (let (rc, entries) = remove_sinks sinks False (lg_sinks s) in (rc, s\<lparr>lg_sinks := entries\<rparr>))"

text \<open>\<open>None\<close> is the null pointer, which only \<open>SetSinks\<close> looks for.\<close>

definition Logger_SetSinks :: "'s option list \<Rightarrow> 's Logger \<Rightarrow> 's Logger" where
  "Logger_SetSinks sinks s =
     (let s1 = delete_sender (s\<lparr>lg_sinks := []\<rparr>) in s1\<lparr>lg_sinks := lg_sinks s1 @ List.map_filter (\<lambda>x. x) sinks\<rparr>)"

definition Logger_Close :: "'s Logger \<Rightarrow> bool \<times> 's Logger" where
  "Logger_Close s =
     (let s1 = delete_sender (s\<lparr>lg_sinks := []\<rparr>)
      in (True, s1\<lparr>lg_origin := (lg_origin s1)\<lparr>hostname := [], appname := [], procid := 0\<rparr>\<rparr>))"

section \<open>Logging\<close>

text \<open>\<open>fs::path::filename\<close>: what follows the last slash.\<close>

definition path_filename :: "string \<Rightarrow> string" where
  "path_filename p = rev (takeWhile (\<lambda>c. c \<noteq> CHR ''/'') (rev p))"

text \<open>Every sink is called, whatever the ones before it returned.\<close>

fun process_sinks :: "('s, 'w) sink_process \<Rightarrow> Message \<Rightarrow> 's list \<Rightarrow> bool \<Rightarrow> 'w \<Rightarrow> bool \<times> 'w" where
  "process_sinks process logmsg [] rc w = (rc, w)"
| "process_sinks process logmsg (sink # sinks) rc w =
     (let (ok, w') = process sink logmsg w in process_sinks process logmsg sinks (rc \<and> ok) w')"

text \<open>\<open>loc\<close>: file name and line of the caller.\<close>

definition located :: "string \<times> nat \<Rightarrow> bool \<Rightarrow> string \<Rightarrow> string" where
  "located loc logLocations msg =
     (if logLocations then msg @ '' {'' @ path_filename (fst loc) @ '':'' @ show_nat (snd loc) @ ''}'' else msg)"

definition Logger_Log ::
    "dwm_io \<Rightarrow> ('s, 'w) sink_process \<Rightarrow> Timestamp \<Rightarrow> severity \<Rightarrow> string \<Rightarrow> string \<times> nat \<Rightarrow> 's Logger \<Rightarrow> 'w \<Rightarrow> bool result \<times> 'w" where
  "Logger_Log io process now sev msg loc s w =
     (if lg_minimumSeverity s < sev then (Inr True, w)
      else if procid (lg_origin s) \<noteq> 0 then
        let hdr = MessageHeader_new now (lg_facility s) sev (lg_origin s)
        in case Message_new io hdr (located loc (lg_logLocations s) msg) of
             Inl ex \<Rightarrow> (Inl ex, w)
           | Inr logmsg \<Rightarrow> let (rc, w') = process_sinks process logmsg (lg_sinks s) True w in (Inr rc, w')
      else (Inr False, w))"

text \<open>With an integer for the severity, as for \<open>syslog\<close>.\<close>

definition Logger_Log_int ::
    "dwm_io \<Rightarrow> ('s, 'w) sink_process \<Rightarrow> Timestamp \<Rightarrow> int \<Rightarrow> string \<Rightarrow> string \<times> nat \<Rightarrow> 's Logger \<Rightarrow> 'w \<Rightarrow> bool result \<times> 'w" where
  "Logger_Log_int io process now sev msg loc s w =
     (if sev \<le> 7 \<and> 0 \<le> sev then Logger_Log io process now (of_int sev) msg loc s w else (Inl AssertionFailed, w))"

section \<open>The registry of sinks\<close>

definition add_one :: "'s \<Rightarrow> 's list \<Rightarrow> bool \<times> 's list" where
  "add_one k ks = add_sinks [k] False ks"

interpretation logger_sinks: sink_registry add_one
  by unfold_locales (auto simp: add_one_def find_None_iff)

lemma add_sinks_all: "snd (add_sinks ks rc es) = add_all add_one ks es"
  by (induction ks rc es rule: add_sinks.induct) (auto simp: add_one_def)

lemma add_sinks_rc: "fst (add_sinks ks rc es) \<longleftrightarrow> rc \<or> \<not> set ks \<subseteq> set es"
  by (induction ks rc es rule: add_sinks.induct) (auto simp: find_None_iff)

lemma remove_sinks_set: "distinct es \<Longrightarrow> set (snd (remove_sinks ks rc es)) = set es - set ks \<and> distinct (snd (remove_sinks ks rc es))"
  by (induction ks rc es rule: remove_sinks.induct) auto

section \<open>Where messages go\<close>

text \<open>A world that records the calls.\<close>

definition recording :: "('s \<Rightarrow> bool) \<Rightarrow> ('s, ('s \<times> Message) list) sink_process" where
  "recording ok sink msg w = (ok sink, w @ [(sink, msg)])"

lemma process_sinks_recording:
  "process_sinks (recording ok) m ks rc w = (rc \<and> list_all ok ks, w @ map (\<lambda>k. (k, m)) ks)"
  by (induction ks arbitrary: rc w) (auto simp: recording_def)

lemma Logger_Open_shape:
  assumes "io_ok io" "length (pe_hostname e) \<le> 255" "length (case ident of None \<Rightarrow> pe_progname e | Some nm \<Rightarrow> nm) \<le> 255"
  shows "Logger_Open io e fac sinks ident s = (Inr True,
    s\<lparr>lg_origin := \<lparr>hostname = pe_hostname e, appname = (case ident of None \<Rightarrow> pe_progname e | Some nm \<Rightarrow> nm),
        procid = of_int (pe_pid e)\<rparr>,
      lg_facility := fac, lg_sinks := (if sinks = [] then [pe_new_sender e] else sinks),
      lg_loopbackSender := (if sinks = [] then Some (pe_new_sender e) else lg_loopbackSender s),
      lg_live := (if sinks = [] then lg_live s @ [pe_new_sender e] else lg_live s)\<rparr>)"
proof -
  have "short io 255 (pe_hostname e) = Inr (pe_hostname e)"
    "short io 255 (case ident of None \<Rightarrow> pe_progname e | Some nm \<Rightarrow> nm) = Inr (case ident of None \<Rightarrow> pe_progname e | Some nm \<Rightarrow> nm)"
    using slen_prims(5)[OF assms(1)] assms(2,3) by blast+
  then show ?thesis by (cases "lg_origin s") (auto simp: Logger_Open_def Let_def split: option.split)
qed

datatype 's logger_op = Add_sinks "'s list" | Remove_sinks "'s list" | Set_minimum severity | Set_locations bool

fun logger_step :: "'s Logger \<Rightarrow> 's logger_op \<Rightarrow> 's Logger" where
  "logger_step s (Add_sinks ks) = snd (Logger_AddSinks ks s)"
| "logger_step s (Remove_sinks ks) = snd (Logger_RemoveSinks ks s)"
| "logger_step s (Set_minimum v) = snd (Logger_MinimumSeverity v s)"
| "logger_step s (Set_locations b) = Logger_LogLocations b s"

definition opened_inv :: "MessageOrigin \<Rightarrow> facility \<Rightarrow> 's Logger \<Rightarrow> bool" where
  "opened_inv org fac s \<longleftrightarrow> lg_origin s = org \<and> lg_facility s = fac \<and> distinct (lg_sinks s)"

lemma logger_step_inv: "opened_inv org fac s \<Longrightarrow> opened_inv org fac (logger_step s op)"
proof (cases op)
  case (Add_sinks ks)
  assume "opened_inv org fac s"
  then show ?thesis
    using logger_sinks.add_all_distinct[of "lg_sinks s" ks] add_sinks_all[of ks False "lg_sinks s"]
    by (simp add: Add_sinks opened_inv_def Logger_AddSinks_def case_prod_beta)
next
  case (Remove_sinks ks)
  assume "opened_inv org fac s"
  then show ?thesis
    using remove_sinks_set[of "lg_sinks s" ks False]
    by (simp add: Remove_sinks opened_inv_def Logger_RemoveSinks_def case_prod_beta)
qed (simp_all add: opened_inv_def Logger_MinimumSeverity_def Logger_LogLocations_def)

interpretation opened_logger: event_machine logger_step "opened_inv org fac" "\<lambda>_. True" for org fac
  by unfold_locales (rule logger_step_inv)

text \<open>
  C34. What the logger does with a message, once it was opened and whatever sinks were added and
  removed since: one less severe than the minimum is dropped, and reported as logged; any other
  goes to every registered sink exactly once, in the order of registration and whatever
  the sinks before it returned, with the facility and the origin given when the logger was opened,
  and is reported as logged if every sink took it. (The text must fit a message.)
\<close>

theorem logger_serves_every_sink:
  assumes io: "io_ok io" and e: "length (pe_hostname e) \<le> 255" "length nm \<le> 255" "(of_int (pe_pid e) :: u32) \<noteq> 0"
    and op: "distinct sinks" "Logger_Open io e fac sinks (Some nm) s0 = (Inr rc, s1)"
    and s: "s = run_events logger_step s1 ops" and t: "length (located loc (lg_logLocations s) msg) \<le> 1500"
    and m: "m = \<lparr>msg_header = MessageHeader_new now fac sev \<lparr>hostname = pe_hostname e, appname = nm, procid = of_int (pe_pid e)\<rparr>,
        msg_data = located loc (lg_logLocations s) msg\<rparr>"
  shows "distinct (lg_sinks s) \<and> Logger_Log io (recording ok) now sev msg loc s [] =
    (if lg_minimumSeverity s < sev then (Inr True, [])
     else (Inr (list_all ok (lg_sinks s)), map (\<lambda>k. (k, m)) (lg_sinks s)))"
proof -
  let ?org = "\<lparr>hostname = pe_hostname e, appname = nm, procid = of_int (pe_pid e)\<rparr>"
  have "opened_inv ?org fac s1" using Logger_Open_shape[OF io e(1), of "Some nm" fac sinks s0] e(2) op by (auto simp: opened_inv_def)
  from opened_logger.inv_run[OF this, of ops] have i: "opened_inv ?org fac s" by (simp add: s list_all_iff)
  have "short io 1500 (located loc (lg_logLocations s) msg) = Inr (located loc (lg_logLocations s) msg)"
    using slen_prims(5)[OF io t] .
  with i e(3) show ?thesis
    by (simp add: opened_inv_def Logger_Log_def Message_new_def m process_sinks_recording Let_def)
qed

section \<open>The sender of its own\<close>

lemma delete_sender_live:
  "lg_live (delete_sender s) = (case lg_loopbackSender s of Some p \<Rightarrow> remove1 p (lg_live s) | None \<Rightarrow> lg_live s)"
  "lg_loopbackSender (delete_sender s) = None"
  by (auto simp: delete_sender_def split: option.split)

text \<open>
  A logger that is opened twice without sinks, as an application may do to change its facility, has
  allocated two senders, and \<open>Close\<close> deletes the second one only. A closed logger that was
  opened once has none left.
\<close>

lemma opened_twice_leaks:
  assumes io: "io_ok io" and e: "length (pe_hostname e) \<le> 255" "length nm \<le> 255" "length (pe_hostname e') \<le> 255"
    and s: "lg_loopbackSender s0 = None" "lg_live s0 = []" "s1 = snd (Logger_Open io e fac [] (Some nm) s0)"
      "s2 = snd (Logger_Open io e' fac' [] (Some nm) s1)" "pe_new_sender e \<noteq> pe_new_sender e'"
  shows "lg_live (snd (Logger_Close s1)) = [] \<and> lg_live (snd (Logger_Close s2)) = [pe_new_sender e]"
  using Logger_Open_shape[OF io e(1), of "Some nm"] Logger_Open_shape[OF io e(3), of "Some nm"] e(2) s
  by (simp add: Logger_Close_def delete_sender_live Let_def)

section \<open>Witnesses\<close>

definition sample_process :: "nat process_env" where
  "sample_process = \<lparr>pe_hostname = ''ns1.lab'', pe_progname = ''cron'', pe_pid = 4711, pe_new_sender = 9\<rparr>"

lemma logger_serves_every_sink_witness:
  "snd (Logger_Log sample_io (recording (\<lambda>k. k = 3)) (Timestamp 1) sev_err ''disk full'' (''src/a/main.cc'', 12)
      (run_events logger_step (snd (Logger_Open sample_io sample_process fac_user [3 :: nat] (Some ''cron'') Logger_new))
        [Add_sinks [4, 3], Set_locations True]) [])
   = map (\<lambda>k. (k, \<lparr>msg_header = \<lparr>timestamp = Timestamp 1, facility = fac_user, severity = sev_err,
        origin = \<lparr>hostname = ''ns1.lab'', appname = ''cron'', procid = 4711\<rparr>\<rparr>, msg_data = ''disk full {main.cc:12}''\<rparr>)) [3, 4]"
proof -
  have line: "show_nat 12 = ''12''" by code_simp
  have io: "io_ok sample_io" by (rule sample_io_ok)
  have op: "Logger_Open sample_io sample_process fac_user [3 :: nat] (Some ''cron'') Logger_new =
      (Inr True, snd (Logger_Open sample_io sample_process fac_user [3] (Some ''cron'') Logger_new))"
    using Logger_Open_shape[OF io, of sample_process "Some ''cron''" fac_user "[3]" Logger_new] by (simp add: sample_process_def)
  have st: "lg_logLocations s \<and> lg_minimumSeverity s = sev_debug \<and> lg_sinks s = [3, 4]"
    if "s = run_events logger_step (snd (Logger_Open sample_io sample_process fac_user [3 :: nat] (Some ''cron'') Logger_new))
        [Add_sinks [4, 3], Set_locations True]" for s
    using Logger_Open_shape[OF io, of sample_process "Some ''cron''" fac_user "[3]" Logger_new] that
    by (simp add: sample_process_def Logger_new_def Logger_AddSinks_def Logger_LogLocations_def)
  show ?thesis
    using logger_serves_every_sink[OF io _ _ _ _ op refl _ refl, of "(''src/a/main.cc'', 12)" "[Add_sinks [4, 3], Set_locations True]"
        "''disk full''" "\<lambda>k. k = 3" "Timestamp 1" sev_err] st[OF refl] line
    by (simp add: sample_process_def located_def path_filename_def MessageHeader_new_def)
qed

end
