(* ===== verification/Mclog.thy ===== *)
theory Mclog
  imports Mclogger ConfigParse Logger
begin

text \<open>
  \<open>apps/mclog/mclog.cc\<close>: the command that prints logged messages, from files or as they arrive from
  the network, if a filter expression accepts them. Its \<open>main\<close> is a function of what \<open>getopt\<close> returned,
  of the names after the options, and of what the system and the compression libraries answer; it
  yields what is printed. Where the loops over a file would not end, the value is \<open>None\<close>. What the
  program logs about itself with \<open>-d\<close> is left out. The lemmas: the loop prints what is
  read and accepted; and what a run over files prints.
\<close>

section \<open>The sink of the monitor\<close>

text \<open>What is printed so far, and the filter, with the tokens it has cached.\<close>

type_synonym printer = "string \<times> MessageFilterDriver option"

definition print_accepted :: "rx_ops \<Rightarrow> timezone \<Rightarrow> Message \<Rightarrow> printer \<Rightarrow> printer" where
  "print_accepted rx z msg w =
     (case snd w of
        None \<Rightarrow> (fst w @ message_put z msg, None)
      | Some drv \<Rightarrow>
          let (r, drv') = driver_parse rx msg drv
          in (if r = Some True then fst w @ message_put z msg else fst w, Some drv'))"

definition MySink_new :: printer where
  "MySink_new = ([], None)"

definition MySink_SetFilter :: "rx_ops \<Rightarrow> Message \<Rightarrow> string \<Rightarrow> printer \<Rightarrow> printer result" where
  "MySink_SetFilter rx msg0 expr w =
     (case MessageFilterDriver_new rx msg0 expr of Inl ex \<Rightarrow> Inl ex | Inr drv \<Rightarrow> Inr (fst w, Some drv))"

definition MySink_Process :: "rx_ops \<Rightarrow> timezone \<Rightarrow> Message \<Rightarrow> printer \<Rightarrow> bool \<times> printer" where
  "MySink_Process rx z msg w = (True, print_accepted rx z msg w)"

section \<open>Files\<close>

text \<open>\<open>while (msg.Read(...)) { use msg }\<close>: the reader tells whether it has read a message.\<close>

partial_function (option) process_loop ::
    "(Message \<Rightarrow> 'f \<Rightarrow> bool \<times> Message \<times> 'f) \<Rightarrow> (Message \<Rightarrow> 'w \<Rightarrow> 'w) \<Rightarrow> Message \<Rightarrow> 'f \<Rightarrow> 'w \<Rightarrow> ('f \<times> 'w) option" where
  "process_loop rd use msg f w =
     (if fst (rd msg f) then
        process_loop rd use (fst (snd (rd msg f))) (snd (snd (rd msg f))) (use (fst (snd (rd msg f))) w)
      else Some (snd (snd (rd msg f)), w))"

definition stream_reader :: "dwm_io \<Rightarrow> Message \<Rightarrow> istream \<Rightarrow> bool \<times> Message \<times> istream" where
  "stream_reader io msg is = (let (m, js) = Message_Read io is msg in (\<not> failb js, m, js))"

type_synonym 'f read_values = "'f \<Rightarrow> MessageHeader \<times> string \<Rightarrow> int \<times> (MessageHeader \<times> string) \<times> 'f"

definition bz_reader :: "'f read_values \<Rightarrow> Message \<Rightarrow> 'f \<Rightarrow> bool \<times> Message \<times> 'f" where
  "bz_reader readv msg f = (let (rc, m, f') = Message_BZRead readv f msg in (0 < rc, m, f'))"

definition gz_reader :: "'f read_values \<Rightarrow> Message \<Rightarrow> 'f \<Rightarrow> bool \<times> Message \<times> 'f" where
  "gz_reader readv msg f = (let (rc, m, f') = Message_GZRead readv f msg in (0 < rc, m, f'))"

text \<open>
  What the program runs on: the two libraries, the files of the disk by name, the time zone,
  regular expressions, and the default-constructed message.
\<close>

record ('f, 'g) mclog_env =
  mx_io :: dwm_io
  mx_rx :: rx_ops
  mx_zone :: timezone
  mx_msg0 :: Message
  mx_bzopen :: "string \<Rightarrow> 'f option"
  mx_bzread :: "'f read_values"
  mx_gzopen :: "string \<Rightarrow> 'g option"
  mx_gzread :: "'g read_values"
  mx_open :: "string \<Rightarrow> bytes option"

abbreviation mclog_print :: "('f, 'g) mclog_env \<Rightarrow> Message \<Rightarrow> printer \<Rightarrow> printer" where
  "mclog_print e \<equiv> print_accepted (mx_rx e) (mx_zone e)"

definition ProcessBZ2File :: "('f, 'g) mclog_env \<Rightarrow> string \<Rightarrow> printer \<Rightarrow> printer option" where
  "ProcessBZ2File e filename w =
     (case mx_bzopen e filename of
        Some bzf \<Rightarrow> map_option snd (process_loop (bz_reader (mx_bzread e)) (mclog_print e) (mx_msg0 e) bzf w)
      | None \<Rightarrow> Some w)"

definition ProcessGZFile :: "('f, 'g) mclog_env \<Rightarrow> string \<Rightarrow> printer \<Rightarrow> printer option" where
  "ProcessGZFile e filename w =
     (case mx_gzopen e filename of
        Some gzf \<Rightarrow> map_option snd (process_loop (gz_reader (mx_gzread e)) (mclog_print e) (mx_msg0 e) gzf w)
      | None \<Rightarrow> Some w)"

definition ProcessIstream :: "('f, 'g) mclog_env \<Rightarrow> istream \<Rightarrow> printer \<Rightarrow> (istream \<times> printer) option" where
  "ProcessIstream e is w = process_loop (stream_reader (mx_io e)) (mclog_print e) (mx_msg0 e) is w"

definition ProcessBinaryFile :: "('f, 'g) mclog_env \<Rightarrow> string \<Rightarrow> printer \<Rightarrow> printer option" where
  "ProcessBinaryFile e filename w =
     (case mx_open e filename of Some s \<Rightarrow> map_option snd (ProcessIstream e (good s) w) | None \<Rightarrow> Some w)"

text \<open>\<open>fs::path::extension\<close>: from the last dot of the file's name, unless the name starts with it or is \<open>..\<close>.\<close>

definition path_extension :: "string \<Rightarrow> string" where
  "path_extension path =
     (let name = path_filename path; ext = rev (takeWhile (\<lambda>c. c \<noteq> CHR ''.'') (rev name))
      in if CHR ''.'' \<notin> set name \<or> name = ''..'' \<or> length name = length ext + 1 then [] else CHR ''.'' # ext)"

text \<open>The standard input is a state that the files share.\<close>

definition ProcessFile :: "('f, 'g) mclog_env \<Rightarrow> string \<Rightarrow> istream \<times> printer \<Rightarrow> (istream \<times> printer) option" where
  "ProcessFile e path cw =
     (if path = ''-'' then ProcessIstream e (fst cw) (snd cw)
      else
        let ext = path_extension path
        in map_option (Pair (fst cw))
             (if ext = ''.bz2'' then ProcessBZ2File e path (snd cw)
              else if ext = ''.gz'' then ProcessGZFile e path (snd cw)
              else ProcessBinaryFile e path (snd cw)))"

fun process_files :: "('f, 'g) mclog_env \<Rightarrow> string list \<Rightarrow> istream \<times> printer \<Rightarrow> (istream \<times> printer) option" where
  "process_files e [] cw = Some cw"
| "process_files e (path # paths) cw = Option.bind (ProcessFile e path cw) (process_files e paths)"

section \<open>The program\<close>

text \<open>The options: debug, the configuration file, the expression; \<open>None\<close> is \<open>exit(1)\<close>.\<close>

fun mclog_options :: "(char \<times> string) list \<Rightarrow> bool \<times> string \<times> string \<Rightarrow> (bool \<times> string \<times> string) option" where
  "mclog_options [] (debug, configFile, filtexpr) = Some (debug, configFile, filtexpr)"
| "mclog_options ((optChar, optarg) # opts) (debug, configFile, filtexpr) =
     (if optChar = CHR ''c'' then mclog_options opts (debug, optarg, filtexpr)
      else if optChar = CHR ''d'' then mclog_options opts (True, configFile, filtexpr)
      else if optChar = CHR ''F'' then mclog_options opts (debug, configFile, optarg)
      else None)"

text \<open>
  Without files: the receiver of the network, with \<open>MySink\<close> its only sink. \<open>config0\<close> is the
  default-constructed configuration.
\<close>

definition mclog_monitor ::
    "('f, 'g) mclog_env \<Rightarrow> ('a4, 'a6) cfg_env \<Rightarrow> receiver_open_env \<Rightarrow> ('a4, 'a6) Config \<Rightarrow> string \<Rightarrow> string
     \<Rightarrow> (('a4, 'a6, 'a, unit, 'q) MulticastReceiver \<times> printer) program_end" where
  "mclog_monitor e ce roe config0 configFile filtexpr =
     (case Config_Parse ce (mx_open e configFile) config0 of
        (Inl ex, config) \<Rightarrow> Uncaught ex
      | (Inr False, config) \<Rightarrow> Exit 0
      | (Inr True, config) \<Rightarrow>
          let config = config\<lparr>cf_service := (cf_service config)\<lparr>sc_keyDirectory := ''~/.credence''\<rparr>\<rparr>
          in case Receiver_Open (ce_addr ce) roe config True (MulticastReceiver_new config0) of
               Inl ex \<Rightarrow> Uncaught ex
             | Inr (False, mcastRecv) \<Rightarrow> Exit 0
             | Inr (True, mcastRecv) \<Rightarrow>
                 (case (if filtexpr \<noteq> [] then MySink_SetFilter (mx_rx e) (mx_msg0 e) filtexpr MySink_new else Inr MySink_new) of
                    Inl ex \<Rightarrow> Uncaught ex
                  | Inr mysink \<Rightarrow> let (rc, mcastRecv) = Receiver_AddSink () mcastRecv in Running (mcastRecv, mysink)))"

definition mclog_main ::
    "('f, 'g) mclog_env \<Rightarrow> ('a4, 'a6) cfg_env \<Rightarrow> receiver_open_env \<Rightarrow> ('a4, 'a6) Config \<Rightarrow> string \<Rightarrow> istream
     \<Rightarrow> (char \<times> string) list \<Rightarrow> string list
     \<Rightarrow> ((('a4, 'a6, 'a, unit, 'q) MulticastReceiver \<times> printer) program_end \<times> string) option" where
  "mclog_main e ce roe config0 default_path cin opts args =
     (case mclog_options opts (False, default_path, []) of
        None \<Rightarrow> Some (Exit 1, [])
      | Some (debug, configFile, filtexpr) \<Rightarrow>
          (case (if filtexpr \<noteq> [] then map_sum (\<lambda>ex. ex) Some (MessageFilterDriver_new (mx_rx e) (mx_msg0 e) filtexpr) else Inr None) of
             Inl ex \<Rightarrow> Some (Uncaught ex, [])
           | Inr flt \<Rightarrow>
               if args \<noteq> [] then
                 map_option (\<lambda>(cin', w). (Exit 0, fst w)) (process_files e args (cin, ([], flt)))
               else Some (mclog_monitor e ce roe config0 configFile filtexpr, [])))"

section \<open>Lemmas\<close>

text \<open>A reader that delivers these messages and then no more, whatever its message object holds.\<close>

inductive reader_holds :: "(Message \<Rightarrow> 'f \<Rightarrow> bool \<times> Message \<times> 'f) \<Rightarrow> 'f \<Rightarrow> Message list \<Rightarrow> bool"
  for rd where
  at_end: "(\<And>x. \<not> fst (rd x f)) \<Longrightarrow> reader_holds rd f []"
| one_more: "(\<And>x. rd x f = (True, m, f')) \<Longrightarrow> reader_holds rd f' ms \<Longrightarrow> reader_holds rd f (m # ms)"

inductive_cases reader_holds_Cons: "reader_holds rd f (m # ms)"

lemma process_loop_holds: "reader_holds rd f ms \<Longrightarrow> \<exists>f'. process_loop rd use x f w = Some (f', fold use ms w)"
proof (induction arbitrary: x w rule: reader_holds.induct)
  case (at_end f)
  then show ?case by (subst process_loop.simps) simp
next
  case (one_more f m f' ms)
  have "process_loop rd use x f w = process_loop rd use m f' (use m w)"
    by (subst process_loop.simps) (simp add: one_more(1))
  with one_more(3)[of m "use m w"] show ?case by simp
qed

lemma stream_holds:
  assumes "io_ok io"
  shows "\<forall>m\<in>set ms. message_ok m \<Longrightarrow> reader_holds (stream_reader io) (good (concat (map (Message_enc io) ms))) ms"
proof (induction ms)
  case Nil
  show ?case using message_codec.rd_empty[OF assms]
    by (auto simp: stream_reader_def case_prod_beta intro: reader_holds.at_end)
next
  case (Cons m ms)
  show ?case
    using Cons message_codec.rd_wr[OF assms, of m "concat (map (Message_enc io) ms)"]
    by (auto simp: stream_reader_def intro!: reader_holds.one_more)
qed

text \<open>A filter as it is after construction, and a filter that is not there.\<close>

definition settled_filter :: "rx_ops \<Rightarrow> (Message \<Rightarrow> bool) \<Rightarrow> MessageFilterDriver option \<Rightarrow> bool" where
  "settled_filter rx acc flt \<longleftrightarrow>
     (case flt of None \<Rightarrow> (\<forall>m. acc m) | Some drv \<Rightarrow> (\<forall>m. driver_parse rx m drv = (Some (acc m), drv)))"

lemma fold_print:
  assumes "settled_filter rx acc flt"
  shows "fold (print_accepted rx z) ms (out, flt) = (out @ concat (map (message_put z) (List.filter acc ms)), flt)"
proof (induction ms arbitrary: out)
  case (Cons m ms)
  have "print_accepted rx z m (out, flt) = (if acc m then out @ message_put z m else out, flt)"
    using assms by (auto simp: settled_filter_def print_accepted_def split: option.splits)
  then show ?case by (simp add: Cons)
qed simp

text \<open>What a path stands for: the messages of a file it names, none when it cannot be opened.\<close>

definition file_holds :: "('f, 'g) mclog_env \<Rightarrow> string \<Rightarrow> Message list \<Rightarrow> bool" where
  "file_holds e path ms \<longleftrightarrow> path \<noteq> ''-'' \<and>
     (if path_extension path = ''.bz2'' then
        (case mx_bzopen e path of Some f \<Rightarrow> reader_holds (bz_reader (mx_bzread e)) f ms | None \<Rightarrow> ms = [])
      else if path_extension path = ''.gz'' then
        (case mx_gzopen e path of Some f \<Rightarrow> reader_holds (gz_reader (mx_gzread e)) f ms | None \<Rightarrow> ms = [])
      else
        (case mx_open e path of
           Some s \<Rightarrow> s = concat (map (Message_enc (mx_io e)) ms) \<and> (\<forall>m\<in>set ms. message_ok m)
         | None \<Rightarrow> ms = []))"

lemma process_loop_snd: "reader_holds rd f ms \<Longrightarrow> map_option snd (process_loop rd use x f w) = Some (fold use ms w)"
  using process_loop_holds[of rd f ms use x w] by auto

lemma ProcessFile_holds:
  assumes "io_ok (mx_io e)" "file_holds e path ms"
  shows "ProcessFile e path (cin, w) = Some (cin, fold (mclog_print e) ms w)"
proof -
  consider (bz2) "path_extension path = ''.bz2''" | (gz) "path_extension path = ''.gz''"
    | (other) "path_extension path \<noteq> ''.bz2''" "path_extension path \<noteq> ''.gz''" by blast
  then show ?thesis
  proof cases
    case bz2
    then have "ProcessBZ2File e path w = Some (fold (mclog_print e) ms w)"
      using assms(2) by (cases "mx_bzopen e path") (simp_all add: file_holds_def ProcessBZ2File_def process_loop_snd del: map_option_eq_Some)
    with bz2 assms(2) show ?thesis by (simp add: ProcessFile_def file_holds_def)
  next
    case gz
    then have "ProcessGZFile e path w = Some (fold (mclog_print e) ms w)"
      using assms(2) by (cases "mx_gzopen e path") (simp_all add: file_holds_def ProcessGZFile_def process_loop_snd del: map_option_eq_Some)
    with gz assms(2) show ?thesis by (simp add: ProcessFile_def file_holds_def)
  next
    case other
    then have "ProcessBinaryFile e path w = Some (fold (mclog_print e) ms w)"
      using assms by (cases "mx_open e path")
        (simp_all add: file_holds_def ProcessBinaryFile_def ProcessIstream_def process_loop_snd stream_holds del: map_option_eq_Some)
    with other assms(2) show ?thesis by (simp add: ProcessFile_def file_holds_def)
  qed
qed

lemma process_files_holds:
  assumes "io_ok (mx_io e)"
  shows "list_all2 (file_holds e) paths mss \<Longrightarrow>
    process_files e paths (cin, w) = Some (cin, fold (mclog_print e) (concat mss) w)"
  by (induction arbitrary: w rule: list_all2_induct) (simp_all add: ProcessFile_holds[OF assms])

text \<open>The expression after \<open>-F\<close> accepts these messages: no expression accepts them all.\<close>

definition accepted_by :: "rx_ops \<Rightarrow> string \<Rightarrow> (Message \<Rightarrow> bool) \<Rightarrow> bool" where
  "accepted_by rx expr acc \<longleftrightarrow>
     (if expr = [] then \<forall>m. acc m else \<exists>x. fexpr_ok rx x \<and> expr = fexpr_text x \<and> acc = (\<lambda>m. eval_fexpr rx m x))"

lemma accepted_by_filter:
  assumes "accepted_by rx expr acc"
  obtains flt where "(if expr \<noteq> [] then map_sum (\<lambda>ex. ex) Some (MessageFilterDriver_new rx msg0 expr) else Inr None) = Inr flt"
    "settled_filter rx acc flt" "(if expr \<noteq> [] then MySink_SetFilter rx msg0 expr MySink_new else Inr MySink_new) = Inr ([], flt)"
proof (cases "expr = []")
  case True
  with assms show thesis by (intro that[of None]) (simp_all add: accepted_by_def settled_filter_def MySink_new_def)
next
  case False
  then obtain x where x: "fexpr_ok rx x" "expr = fexpr_text x" "acc = (\<lambda>m. eval_fexpr rx m x)"
    using assms by (auto simp: accepted_by_def)
  with False driver_of_fexpr[OF x(1)] show thesis
    by (intro that[of "Some _"]) (auto simp: settled_filter_def MySink_SetFilter_def MySink_new_def)
qed

section \<open>Properties\<close>

text \<open>
  C15. Given files, \<open>mclog\<close> prints exactly the messages of the files that the expression accepts, in the
  order of the files and of the messages in them, and ends: compressed files by their extension, others
  as the binary stream a log file is written as. A file that cannot be opened is passed over in silence
  and the exit status is 0 nevertheless.
\<close>

theorem mclog_prints_accepted:
  assumes "io_ok (mx_io e)" "mclog_options opts (False, default_path, []) = Some (debug, configFile, expr)"
    "accepted_by (mx_rx e) expr acc" "list_all2 (file_holds e) paths mss" "paths \<noteq> []"
  shows "mclog_main e ce roe config0 default_path cin opts paths
    = Some (Exit 0, concat (map (message_put (mx_zone e)) (List.filter acc (concat mss))))"
proof -
  obtain flt where f: "(if expr \<noteq> [] then map_sum (\<lambda>ex. ex) Some (MessageFilterDriver_new (mx_rx e) (mx_msg0 e) expr) else Inr None) = Inr flt"
    "settled_filter (mx_rx e) acc flt" using accepted_by_filter[OF assms(3)] by metis
  show ?thesis
    by (simp only: mclog_main_def assms(2) option.case prod.case f(1) sum.case assms(5) if_True not_False_eq_True simp_thms
        process_files_holds[OF assms(1,4)] fold_print[OF f(2)] option.map fst_conv append_Nil)
qed

text \<open>
  Given no files, \<open>mclog\<close> either ends or keeps running with its receiver, whose only sink prints, and
  that accepts messages of the local host; of any messages the sink is then handed, exactly those the
  expression accepts are printed, in their order.
\<close>

theorem mclog_monitor_prints_accepted:
  assumes "mclog_main e ce roe config0 default_path cin opts [] = Some (Running (r, sink), out)"
    "mclog_options opts (False, default_path, []) = Some (debug, configFile, expr)" "accepted_by (mx_rx e) expr acc"
  shows "out = [] \<and> mr_sinks r = [()] \<and> mr_acceptLocal r
    \<and> fst (fold (\<lambda>m w. snd (MySink_Process (mx_rx e) (mx_zone e) m w)) ms sink)
        = concat (map (message_put (mx_zone e)) (List.filter acc ms))"
proof -
  obtain flt where f: "(if expr \<noteq> [] then map_sum (\<lambda>ex. ex) Some (MessageFilterDriver_new (mx_rx e) (mx_msg0 e) expr) else Inr None) = Inr flt"
    "settled_filter (mx_rx e) acc flt" "(if expr \<noteq> [] then MySink_SetFilter (mx_rx e) (mx_msg0 e) expr MySink_new else Inr MySink_new) = Inr ([], flt)"
    using accepted_by_filter[OF assms(3)] by metis
  have m: "mclog_monitor e ce roe config0 configFile expr = Running (r, sink)" "out = []"
    using assms(1) by (simp_all add: mclog_main_def assms(2) f(1))
  from m(1) obtain cfg r0 where o: "Receiver_Open (ce_addr ce) roe cfg True (MulticastReceiver_new config0) = Inr (True, r0)"
    "r = snd (Receiver_AddSink () r0)" "sink = ([], flt)"
    unfolding mclog_monitor_def f(3) by (auto simp: Let_def split: prod.splits sum.splits bool.splits)
  from Open_keeps[OF o(1)] have "mr_sinks r = [()]" "mr_acceptLocal r"
    by (simp_all add: o(2) Receiver_AddSink_def add_sink_def MulticastReceiver_new_def case_prod_beta)
  then show ?thesis using m(2) fold_print[OF f(2)] by (simp add: MySink_Process_def o(3))
qed

section \<open>Witnesses\<close>

text \<open>A compressed file is here the list of its messages.\<close>

definition sample_readv :: "Message list read_values" where
  "sample_readv f v = (case f of [] \<Rightarrow> (0, v, []) | m # ms \<Rightarrow> (1, (msg_header m, msg_data m), ms))"

definition sample_mclog_env :: "(Message list, Message list) mclog_env" where
  "sample_mclog_env =
     \<lparr>mx_io = sample_io, mx_rx = sample_rx, mx_zone = sample_zone, mx_msg0 = sample_message,
      mx_bzopen = [''log.bz2'' \<mapsto> [sample_message]], mx_bzread = sample_readv, mx_gzopen = Map.empty, mx_gzread = sample_readv,
      mx_open = [''log'' \<mapsto> Message_enc sample_io sample_message,
        ''cfg'' \<mapsto> show_config (ce_addr sample_cfg_env) show_nat show_nat sample_file_config]\<rparr>"

lemma sample_reader_holds: "reader_holds (bz_reader sample_readv) ms ms"
  by (induction ms) (auto intro!: reader_holds.intros simp: bz_reader_def sample_readv_def Message_BZRead_def)

lemma sample_files_hold:
  "list_all2 (file_holds sample_mclog_env) [''log'', ''log.bz2'', ''absent''] [[sample_message], [sample_message], []]"
  using sample_reader_holds[of "[sample_message]"]
  by (simp add: file_holds_def sample_mclog_env_def path_extension_def path_filename_def sample_message_ok)

lemma mclog_prints_accepted_witness:
  "mclog_main sample_mclog_env sample_cfg_env sample_receiver_env sample_file_config ''cfg'' (good [])
     [(CHR ''F'', fexpr_text (TextIs Ident True ''cron-d''))] [''log'', ''log.bz2'', ''absent'']
   = Some (Exit 0 :: ((nat, nat, nat, unit, nat) MulticastReceiver \<times> printer) program_end,
       message_put sample_zone sample_message @ message_put sample_zone sample_message)"
proof -
  let ?x = "TextIs Ident True ''cron-d''"
  have a: "accepted_by (mx_rx sample_mclog_env) (fexpr_text ?x) (\<lambda>m. eval_fexpr sample_rx m ?x)"
  proof -
    have "fexpr_ok (mx_rx sample_mclog_env) ?x" by simp
    moreover have "fexpr_text ?x \<noteq> []" by (simp add: fexpr_text_def)
    moreover have "mx_rx sample_mclog_env = sample_rx" by (simp add: sample_mclog_env_def)
    ultimately show ?thesis unfolding accepted_by_def by metis
  qed
  have t: "eval_fexpr sample_rx sample_message ?x" by (simp add: sample_message_def)
  have io: "io_ok (mx_io sample_mclog_env)" by (simp add: sample_mclog_env_def sample_io_ok)
  have o: "mclog_options [(CHR ''F'', fexpr_text ?x)] (False, ''cfg'', []) = Some (False, ''cfg'', fexpr_text ?x)" by simp
  from mclog_prints_accepted[OF io o a sample_files_hold] t show ?thesis by (simp add: sample_mclog_env_def)
qed

lemma mclog_monitor_prints_accepted_witness:
  "\<exists>r sink. mclog_main sample_mclog_env sample_cfg_env sample_receiver_env sample_file_config ''cfg'' (good []) [] []
       = Some (Running (r :: (nat, nat, nat, unit, nat) MulticastReceiver, sink), [])
     \<and> mr_run r \<and> fst (snd (MySink_Process sample_rx sample_zone sample_message sink)) = message_put sample_zone sample_message"
proof -
  have c: "Config_Parse sample_cfg_env (mx_open sample_mclog_env ''cfg'') sample_file_config = (Inr True, sample_file_config)"
    using Config_Parse_shown[OF sample_cfg_laws sample_file_config_ok, of sample_file_config]
    by (simp add: sample_mclog_env_def sample_file_config_def)
  let ?cfg = "sample_file_config\<lparr>cf_service := (cf_service sample_file_config)\<lparr>sc_keyDirectory := ''~/.credence''\<rparr>\<rparr>"
  let ?open = "Receiver_Open (ce_addr sample_cfg_env) sample_receiver_env ?cfg True
      (MulticastReceiver_new sample_file_config :: (nat, nat, nat, unit, nat) MulticastReceiver)"
  have p: "isl ?open = False" "fst (projr ?open)" "mr_run (snd (projr ?open))"
    by (simp_all add: Receiver_Open_def Receiver_Open4_def Receiver_Open6_def Let_def sample_file_config_def sample_cfg_env_def sample_addrs_def MulticastReceiver_new_def
        sample_receiver_env_def Receiver_BindSocket_def Receiver_JoinGroup_def)
  obtain r0 where o: "?open = Inr (True, r0)" "mr_run r0"
    using p by (cases ?open) auto
  define r where "r = snd (Receiver_AddSink () r0)"
  have run: "mr_run r" using o(2) by (simp add: r_def Receiver_AddSink_def case_prod_beta)
  have r: "mclog_main sample_mclog_env sample_cfg_env sample_receiver_env sample_file_config ''cfg'' (good []) [] [] = Some (Running (r, MySink_new), [])"
    by (simp add: mclog_main_def mclog_monitor_def c Let_def o(1) r_def case_prod_beta)
  have a: "accepted_by (mx_rx sample_mclog_env) [] (\<lambda>_. True)" by (simp add: accepted_by_def)
  have op: "mclog_options [] (False, ''cfg'', []) = Some (False, ''cfg'', [])" by simp
  from mclog_monitor_prints_accepted[OF r op a, of "[sample_message]"] r run show ?thesis by (auto simp: sample_mclog_env_def)
qed

end
