(* ===== verification/KeyRequestListener.thy ===== *)
theory KeyRequestListener
  imports KeyExchange
begin

text \<open>
  \<open>DwmMclogKeyRequestListener.{hh,cc}\<close>: the thread of a multicast sender that answers key
  requests on its sockets, with one state machine (\<open>KeyExchange\<close>) per end point and a list of
  those that got the key. One turn of its loop is one \<open>select\<close>, with what it and \<open>recvfrom\<close>
  answer as an argument. The lemmas: the key leaves for known peers only, whoever else
  talks to the listener meanwhile; no client outlives five silent seconds; and what a failing
  \<open>recvfrom\<close> does.
\<close>

section \<open>State\<close>

text \<open>A pointer to a string is the string, \<open>None\<close> the null pointer.\<close>

record ('a, 'k) KeyRequestListener =
  kl_keyDir :: "string option"
  kl_mcastKey :: "bytes option"
  kl_fd :: int
  kl_fd6 :: int
  kl_stopfds :: "int \<times> int"
  kl_thread :: bool
  kl_run :: bool
  kl_clients :: "'a UdpEndpoint \<rightharpoonup> 'k KeyRequestClientState"
  kl_clientsDone :: "('a UdpEndpoint \<times> 'k KeyRequestClientState) list"

definition KeyRequestListener_new :: "('a, 'k) KeyRequestListener" where
  "KeyRequestListener_new =
     \<lparr>kl_keyDir = None, kl_mcastKey = None, kl_fd = -1, kl_fd6 = -1, kl_stopfds = (-1, -1), kl_thread = False,
      kl_run = False, kl_clients = Map.empty, kl_clientsDone = []\<rparr>"

definition Listener_Listen :: "('a, 'k) KeyRequestListener \<Rightarrow> bool" where
  "Listener_Listen s \<longleftrightarrow> 0 \<le> kl_fd s \<or> 0 \<le> kl_fd6 s"

definition Listener_ClearExpired :: "int \<Rightarrow> ('a, 'k) KeyRequestListener \<Rightarrow> ('a, 'k) KeyRequestListener" where
  "Listener_ClearExpired now s =
     (let expTime = now - 5
      in s\<lparr>kl_clientsDone := filter (\<lambda>c. \<not> cl_lastStateChangeTime (snd c) < expTime) (kl_clientsDone s),
           kl_clients := (\<lambda>ep. case kl_clients s ep of
                                 Some c \<Rightarrow> if cl_lastStateChangeTime c < expTime then None else Some c
                               | None \<Rightarrow> None)\<rparr>)"

text \<open>\<open>pfds\<close> is what \<open>pipe\<close> delivers, \<open>None\<close> when it fails.\<close>

definition aead_KEYBYTES :: nat where "aead_KEYBYTES = 32"

definition Listener_Start ::
    "(int \<times> int) option \<Rightarrow> int \<Rightarrow> int \<Rightarrow> string \<Rightarrow> bytes \<Rightarrow> ('a, 'k) KeyRequestListener
     \<Rightarrow> (bool \<times> ('a, 'k) KeyRequestListener) result" where
  "Listener_Start pfds fd fd6 keyDir mcastKey s =
     (if \<not> (0 \<le> fd \<or> 0 \<le> fd6) \<or> length mcastKey \<noteq> aead_KEYBYTES then Inl AssertionFailed
      else if \<not> kl_run s then
        let s1 = s\<lparr>kl_keyDir := Some keyDir, kl_mcastKey := Some mcastKey\<rparr>
        in case pfds of
             Some p \<Rightarrow> Inr (True, s1\<lparr>kl_stopfds := p, kl_fd := fd, kl_fd6 := fd6, kl_run := True, kl_thread := True\<rparr>)
           | None \<Rightarrow> Inr (False, s1)
      else Inr (False, s))"

text \<open>The byte written to the pipe ends the thread's \<open>select\<close>; \<open>join\<close> waits for it.\<close>

definition Listener_Stop :: "('a, 'k) KeyRequestListener \<Rightarrow> bool \<times> ('a, 'k) KeyRequestListener" where
  "Listener_Stop s =
     (if kl_run s then (True, s\<lparr>kl_run := False, kl_thread := False, kl_stopfds := (-1, -1)\<rparr>) else (False, s))"

section \<open>The thread\<close>

text \<open>
  What one descriptor has for us: nothing, an error of \<open>recvfrom\<close>, or a datagram with its source,
  the answers of the calls made while handling it, and a fresh key pair for a new client.
\<close>

datatype ('a, 'k) received = Not_set | Recv_error | Received "'a UdpEndpoint" bytes "'a kx_env" 'k

record ('a, 'k) listen_turn =
  lt_selected :: bool
  lt_stop :: bool
  lt_fd :: "('a, 'k) received"
  lt_fd6 :: "('a, 'k) received"
  lt_now :: int

text \<open>Both branches after \<open>recvfrom\<close>: look up or insert the client, and let it process the packet.\<close>

definition handle_request ::
    "'k credence \<Rightarrow> 'a UdpEndpoint \<Rightarrow> bytes \<Rightarrow> 'a kx_env \<Rightarrow> 'k \<Rightarrow> ('a, 'k) KeyRequestListener
     \<Rightarrow> (('a, 'k) KeyRequestListener \<times> 'a sends) result" where
  "handle_request cr src d e kp s =
     (let c = (case kl_clients s src of
                 Some c \<Rightarrow> c
               | None \<Rightarrow> KeyRequestClientState_new (kx_now e) kp (the (kl_keyDir s)) (the (kl_mcastKey s)))
      in case client_ProcessPacket cr e src d c of
           Inl ex \<Rightarrow> Inl ex
         | Inr (rc, c', out) \<Rightarrow>
             if rc \<and> client_Success c' then
               Inr (s\<lparr>kl_clients := (kl_clients s)(src := None), kl_clientsDone := kl_clientsDone s @ [(src, c')]\<rparr>, out)
             else Inr (s\<lparr>kl_clients := (kl_clients s)(src \<mapsto> c')\<rparr>, out))"

text \<open>
  The IPv4 branch tests \<open>recvrc\<close> for truth: with -1 it goes on to \<open>std::string(buf, -1)\<close>, which
  throws. The IPv6 branch tests \<open>recvrc > 0\<close>. Datagrams are cut at 1500 bytes.
\<close>

definition handle_fd ::
    "'k credence \<Rightarrow> ('a, 'k) received \<Rightarrow> ('a, 'k) KeyRequestListener \<Rightarrow> (('a, 'k) KeyRequestListener \<times> 'a sends) result" where
  "handle_fd cr r s =
     (if 0 \<le> kl_fd s then
        (case r of
           Not_set \<Rightarrow> Inr (s, [])
         | Recv_error \<Rightarrow> Inl LengthError
         | Received src d e kp \<Rightarrow> if take 1500 d \<noteq> [] then handle_request cr src (take 1500 d) e kp s else Inr (s, []))
      else Inr (s, []))"

definition handle_fd6 ::
    "'k credence \<Rightarrow> ('a, 'k) received \<Rightarrow> ('a, 'k) KeyRequestListener \<Rightarrow> (('a, 'k) KeyRequestListener \<times> 'a sends) result" where
  "handle_fd6 cr r s =
     (if 0 \<le> kl_fd6 s then
        (case r of
           Not_set \<Rightarrow> Inr (s, [])
         | Recv_error \<Rightarrow> Inr (s, [])
         | Received src d e kp \<Rightarrow> if take 1500 d \<noteq> [] then handle_request cr src (take 1500 d) e kp s else Inr (s, []))
      else Inr (s, []))"

text \<open>One turn: whether the loop goes on, the state, what was sent.\<close>

definition Listener_turn ::
    "'k credence \<Rightarrow> ('a, 'k) listen_turn \<Rightarrow> ('a, 'k) KeyRequestListener
     \<Rightarrow> (bool \<times> ('a, 'k) KeyRequestListener \<times> 'a sends) result" where
  "Listener_turn cr t s =
     (if lt_selected t then
        if lt_stop t then Inr (False, s, [])
        else case handle_fd cr (lt_fd t) s of
               Inl ex \<Rightarrow> Inl ex
             | Inr (s1, out1) \<Rightarrow>
                 (case handle_fd6 cr (lt_fd6 t) s1 of
                    Inl ex \<Rightarrow> Inl ex
                  | Inr (s2, out2) \<Rightarrow> Inr (True, Listener_ClearExpired (lt_now t) s2, out1 @ out2))
      else Inr (True, Listener_ClearExpired (lt_now t) s, []))"

text \<open>The loop over a list of turns; \<open>None\<close>: it still runs when the list is used up.\<close>

fun Listener_Run ::
    "'k credence \<Rightarrow> ('a, 'k) listen_turn list \<Rightarrow> ('a, 'k) KeyRequestListener
     \<Rightarrow> (('a, 'k) KeyRequestListener \<times> 'a sends) result option" where
  "Listener_Run cr ts s =
     (if \<not> Listener_Listen s \<or> \<not> kl_run s then Some (Inr (s, []))
      else case ts of
             [] \<Rightarrow> None
           | t # ts' \<Rightarrow>
               (case Listener_turn cr t s of
                  Inl ex \<Rightarrow> Some (Inl ex)
                | Inr (False, s', out) \<Rightarrow> Some (Inr (s', out))
                | Inr (True, s', out) \<Rightarrow> map_option (map_sum (\<lambda>x. x) (apsnd ((@) out))) (Listener_Run cr ts' s')))"

declare Listener_Run.simps [simp del]

section \<open>Who is served\<close>

text \<open>
  A client in the table has not got the key yet; one in the list has, after signing the public
  key of its own exchange with a key known for its id.
\<close>

definition waiting_client :: "string \<Rightarrow> bytes \<Rightarrow> 'k KeyRequestClientState \<Rightarrow> bool" where
  "waiting_client dir mk c \<longleftrightarrow> cl_keyDir c = dir \<and> cl_mcastKey c = mk \<and> \<not> client_Success c"

definition served_client :: "'k credence \<Rightarrow> string \<Rightarrow> 'k KeyRequestClientState \<Rightarrow> bool" where
  "served_client cr dir c \<longleftrightarrow> client_Success c \<and> signed_by_known cr dir (cr_public cr (cl_keyPair c))"

definition listener_inv :: "'k credence \<Rightarrow> string \<Rightarrow> bytes \<Rightarrow> ('a, 'k) KeyRequestListener \<Rightarrow> bool" where
  "listener_inv cr dir mk s \<longleftrightarrow> kl_keyDir s = Some dir \<and> kl_mcastKey s = Some mk
     \<and> (\<forall>ep c. kl_clients s ep = Some c \<longrightarrow> waiting_client dir mk c)
     \<and> (\<forall>(ep, c)\<in>set (kl_clientsDone s). served_client cr dir c)"

lemma client_packet_spec:
  assumes "client_ProcessPacket cr e src d c = Inr (rc, c', out)" "waiting_client dir mk c"
  shows "cl_keyDir c' = dir \<and> cl_mcastKey c' = mk \<and> (client_Success c' \<longrightarrow> rc \<and> served_client cr dir c')"
proof -
  have m: "cl_mcastKey c' = cl_mcastKey c"
    using assms(1) by (auto simp: client_ProcessPacket_def client_Initial_def client_KXKeySent_def client_ChangeState_def Let_def
        split: client_state.splits sum.splits id_and_sig.splits prod.splits if_splits)
  show ?thesis
  proof (cases "cl_state c")
    case C_Initial
    then have "client_Initial cr e src d c = (rc, c', out)" using assms(1) by (simp add: client_ProcessPacket_def)
    from client_Initial_frame[OF this] m assms(2) show ?thesis by (simp add: waiting_client_def)
  next
    case C_KXKeySent
    then have k: "client_KXKeySent cr e src d c = Inr (rc, c', out)" using assms(1) by (simp add: client_ProcessPacket_def)
    have "client_Success c' \<Longrightarrow> rc"
      using k C_KXKeySent by (auto simp: client_KXKeySent_def client_ChangeState_def client_Success_def Let_def
          split: sum.splits id_and_sig.splits prod.splits if_splits)
    with client_KXKeySent_spec[OF k C_KXKeySent] m assms(2) show ?thesis
      by (auto simp: waiting_client_def served_client_def)
  qed (use assms in \<open>auto simp: client_ProcessPacket_def waiting_client_def client_Success_def\<close>)
qed

lemma handle_request_inv:
  assumes "listener_inv cr dir mk s" "handle_request cr src d e kp s = Inr (s', out)"
  shows "listener_inv cr dir mk s' \<and> (\<forall>ep. ep \<noteq> src \<longrightarrow> kl_clients s' ep = kl_clients s ep)"
proof -
  define c where "c = (case kl_clients s src of Some c \<Rightarrow> c
    | None \<Rightarrow> KeyRequestClientState_new (kx_now e) kp (the (kl_keyDir s)) (the (kl_mcastKey s)))"
  have w: "waiting_client dir mk c"
    using assms(1) by (auto simp: c_def listener_inv_def waiting_client_def KeyRequestClientState_new_def client_Success_def
        split: option.split)
  obtain rc c' out' where p: "client_ProcessPacket cr e src d c = Inr (rc, c', out')"
    using assms(2) by (auto simp: handle_request_def Let_def simp flip: c_def split: sum.splits)
  note spec = client_packet_spec[OF p w]
  show ?thesis
  proof (cases "client_Success c'")
    case True
    then have "s' = s\<lparr>kl_clients := (kl_clients s)(src := None), kl_clientsDone := kl_clientsDone s @ [(src, c')]\<rparr>"
      using assms(2) p spec by (auto simp: handle_request_def Let_def simp flip: c_def)
    with assms(1) spec True show ?thesis by (auto simp: listener_inv_def)
  next
    case False
    then have "s' = s\<lparr>kl_clients := (kl_clients s)(src \<mapsto> c')\<rparr>"
      using assms(2) p by (auto simp: handle_request_def Let_def simp flip: c_def)
    with assms(1) spec False show ?thesis by (auto simp: listener_inv_def waiting_client_def)
  qed
qed

lemma handle_fd_inv:
  "listener_inv cr dir mk s \<Longrightarrow> handle_fd cr r s = Inr (s', out) \<Longrightarrow> listener_inv cr dir mk s'"
  "listener_inv cr dir mk s \<Longrightarrow> handle_fd6 cr r s = Inr (s', out) \<Longrightarrow> listener_inv cr dir mk s'"
  by (auto simp: handle_fd_def handle_fd6_def dest: handle_request_inv split: received.splits if_splits)

lemma ClearExpired_inv:
  "listener_inv cr dir mk s \<Longrightarrow> listener_inv cr dir mk (Listener_ClearExpired now s)"
  by (auto simp: listener_inv_def Listener_ClearExpired_def Let_def split: option.splits if_splits)

definition listener_step :: "'k credence \<Rightarrow> ('a, 'k) KeyRequestListener \<Rightarrow> ('a, 'k) listen_turn \<Rightarrow> ('a, 'k) KeyRequestListener" where
  "listener_step cr s t = (case Listener_turn cr t s of Inl _ \<Rightarrow> s | Inr (_, s', _) \<Rightarrow> s')"

lemma Listener_turn_inv:
  assumes "listener_inv cr dir mk s" "Listener_turn cr t s = Inr (go, s', out)"
  shows "listener_inv cr dir mk s'"
proof (cases "lt_selected t \<and> \<not> lt_stop t")
  case True
  with assms(2) obtain s1 o1 s2 o2 where "handle_fd cr (lt_fd t) s = Inr (s1, o1)" "handle_fd6 cr (lt_fd6 t) s1 = Inr (s2, o2)"
    "s' = Listener_ClearExpired (lt_now t) s2"
    by (auto simp: Listener_turn_def split: sum.splits)
  with assms(1) show ?thesis by (auto intro!: ClearExpired_inv dest: handle_fd_inv)
qed (use assms in \<open>auto simp: Listener_turn_def ClearExpired_inv split: if_splits\<close>)

lemma listener_step_inv: "listener_inv cr dir mk s \<Longrightarrow> listener_inv cr dir mk (listener_step cr s t)"
  by (auto simp: listener_step_def dest: Listener_turn_inv split: sum.split)

interpretation listener: event_machine "listener_step cr" "listener_inv cr dir mk" "\<lambda>_. True" for cr dir mk
  by unfold_locales (rule listener_step_inv)

lemma turn_clears: "Listener_turn cr t s = Inr (True, s', out) \<Longrightarrow> kl_clients s' ep = Some c \<Longrightarrow>
    lt_now t - 5 \<le> cl_lastStateChangeTime c"
  by (auto simp: Listener_turn_def Listener_ClearExpired_def Let_def split: if_splits sum.splits option.splits)

text \<open>
  C13. The listener serves known peers only: once started, over any turns, with packets from any
  number of end points interleaved in any way, every end point it lists as served has signed the
  public key of its own exchange with a key known for its id, no client that still waits has
  been sent the key, and after a turn no waiting client is older than five seconds.
\<close>

theorem listener_serves_known_peers:
  assumes "Listener_Start pfds fd fd6 dir mk KeyRequestListener_new = Inr (True, s0)" "s = run_events (listener_step cr) s0 ts"
  shows "(\<forall>(ep, c)\<in>set (kl_clientsDone s). client_Success c \<and> signed_by_known cr dir (cr_public cr (cl_keyPair c)))
    \<and> (\<forall>ep c. kl_clients s ep = Some c \<longrightarrow> \<not> client_Success c)
    \<and> (\<forall>t s' out ep c. Listener_turn cr t s = Inr (True, s', out) \<and> kl_clients s' ep = Some c
         \<longrightarrow> lt_now t - 5 \<le> cl_lastStateChangeTime c)"
proof -
  have "listener_inv cr dir mk s0"
    using assms(1) by (auto simp: Listener_Start_def KeyRequestListener_new_def listener_inv_def Let_def split: if_splits option.splits)
  from listener.inv_run[OF this, of ts] have "listener_inv cr dir mk s" by (simp add: assms(2) list_all_iff)
  then show ?thesis using turn_clears by (fastforce simp: listener_inv_def waiting_client_def served_client_def)
qed

text \<open>
  A failing \<open>recvfrom\<close> kills the process on the IPv4 socket and is ignored on the IPv6 one:
  the first is taken for a datagram of length -1, and the exception of \<open>std::string\<close> leaves the
  thread.
\<close>

theorem listener_receive_error:
  assumes "Listener_Listen s" "kl_run s" "lt_selected t" "\<not> lt_stop t" "lt_fd t = Not_set" "lt_fd6 t = Recv_error"
  shows "(0 \<le> kl_fd s \<longrightarrow> Listener_Run cr (t\<lparr>lt_fd := Recv_error\<rparr> # ts) s = Some (Inl LengthError))
    \<and> Listener_turn cr t s = Inr (True, Listener_ClearExpired (lt_now t) s, [])"
  using assms
  by (subst Listener_Run.simps) (simp add: Listener_turn_def handle_fd_def handle_fd6_def)

lemma listener_serves_known_peers_witness:
  "\<exists>s0 :: (nat, nat) KeyRequestListener. Listener_Start (Some (5, 6)) 3 (-1) ''s'' (replicate 32 CHR ''m'') KeyRequestListener_new = Inr (True, s0)
    \<and> (\<forall>(ep, c)\<in>set (kl_clientsDone (run_events (listener_step sample_cr) s0
           [\<lparr>lt_selected = True, lt_stop = False, lt_fd = Received (UdpEndpoint 7 1) ''x'' sample_kx_env 1, lt_fd6 = Not_set, lt_now = 5\<rparr>])).
        client_Success c)"
proof -
  define s0 :: "(nat, nat) KeyRequestListener" where "s0 = snd (projr (Listener_Start (Some (5, 6)) 3 (-1) ''s'' (replicate 32 CHR ''m'') KeyRequestListener_new))"
  have s0: "Listener_Start (Some (5, 6)) 3 (-1) ''s'' (replicate 32 CHR ''m'') KeyRequestListener_new = Inr (True, s0)"
    by (simp add: s0_def Listener_Start_def KeyRequestListener_new_def aead_KEYBYTES_def Let_def)
  from listener_serves_known_peers[OF s0 refl, of sample_cr
      "[\<lparr>lt_selected = True, lt_stop = False, lt_fd = Received (UdpEndpoint 7 1) ''x'' sample_kx_env 1, lt_fd6 = Not_set, lt_now = 5\<rparr>]"] s0
  show ?thesis by blast
qed

lemma listener_receive_error_witness:
  "Listener_Run sample_cr [\<lparr>lt_selected = True, lt_stop = False, lt_fd = Recv_error, lt_fd6 = Recv_error, lt_now = 5\<rparr>]
     ((KeyRequestListener_new :: (nat, nat) KeyRequestListener)\<lparr>kl_fd := 3, kl_run := True\<rparr>) = Some (Inl LengthError)"
  using listener_receive_error[of "(KeyRequestListener_new :: (nat, nat) KeyRequestListener)\<lparr>kl_fd := 3, kl_run := True\<rparr>"
      "\<lparr>lt_selected = True, lt_stop = False, lt_fd = Not_set, lt_fd6 = Recv_error, lt_now = 5\<rparr>" sample_cr "[]"]
  by (simp add: Listener_Listen_def KeyRequestListener_new_def)

end
