(* ===== verification/MulticastSender.thy ===== *)
theory MulticastSender
  imports PacketSender KeyRequestListener Config MessageFilter
begin

text \<open>
  \<open>DwmMclogMulticastSender.{hh,cc}\<close>: the sink of \<open>mclogd\<close> that sends messages, encrypted, to the
  multicast groups. \<open>Process\<close> filters and queues; the thread of \<open>PacketSender\<close> packs; one
  \<open>SendPacket\<close> encrypts once and sends to each open socket. The answers of the socket calls,
  the nonces and the key are arguments. The lemmas: it is a packet sender, so it
  keeps every message it accepts in order; and what is lost when it is closed.
\<close>

section \<open>State\<close>

record ('a4, 'a6, 'a, 'q) sender_ctx =
  xc_addr :: "('a4, 'a6) addr_consts"
  xc_ip4 :: "'a4 \<Rightarrow> 'a"
  xc_ip6 :: "'a6 \<Rightarrow> 'a"
  xc_rx :: rx_ops
  xc_msg :: Message
  xc_queue :: "(Message, 'q) queue_ops"
  xc_io :: dwm_io
  xc_aead :: aead

record ('a4, 'a6, 'a, 'q, 'k) MulticastSender =
  mt_fd :: int
  mt_fd6 :: int
  mt_thread :: "('q, 'a sends) sender_thread"
  mt_config :: "('a4, 'a6) Config"
  mt_dstEndpoint :: "'a UdpEndpoint"
  mt_dstEndpoint6 :: "'a UdpEndpoint"
  mt_key :: bytes
  mt_keyRequestListener :: "('a, 'k) KeyRequestListener"
  mt_filterDriver :: "MessageFilterDriver option"

text \<open>
  The constructor: \<open>key\<close> is the shared key of two fresh key pairs, \<open>cfg\<close> the default
  configuration. The default end points are never sent to before \<open>Open\<close> sets them.
\<close>

definition MulticastSender_new ::
    "('a4, 'a6, 'a, 'q) sender_ctx \<Rightarrow> bytes \<Rightarrow> ('a4, 'a6) Config \<Rightarrow> 'a UdpEndpoint \<Rightarrow> ('a4, 'a6, 'a, 'q, 'k) MulticastSender" where
  "MulticastSender_new c key cfg ep0 =
     \<lparr>mt_fd = -1, mt_fd6 = -1,
      mt_thread = \<lparr>th_run = False, th_queue = q_max_length (xc_queue c) 1000 (q_empty (xc_queue c)), th_pkt = packet_1200,
                   th_pc = Finished, th_sent = [], th_accepted = []\<rparr>,
      mt_config = cfg, mt_dstEndpoint = ep0, mt_dstEndpoint6 = ep0, mt_key = key,
      mt_keyRequestListener = KeyRequestListener_new, mt_filterDriver = None\<rparr>"

section \<open>Opening and closing\<close>

text \<open>What the calls for one socket answer.\<close>

record socket_env =
  so_socket :: int
  so_ifindex :: nat
  so_setsockopt :: bool
  so_bind :: bool

definition MulticastSender_OpenSocket ::
    "socket_env \<Rightarrow> ('a4, 'a6, 'a, 'q, 'k) MulticastSender \<Rightarrow> bool \<times> ('a4, 'a6, 'a, 'q, 'k) MulticastSender" where
  "MulticastSender_OpenSocket e s =
     (let s1 = s\<lparr>mt_fd := so_socket e\<rparr>
      in if 0 \<le> mt_fd s1 then
           if so_setsockopt e then
             if so_bind e then (True, s1) else (False, s1\<lparr>mt_fd := -1\<rparr>)
           else (False, s1\<lparr>mt_fd := -1\<rparr>)
         else (False, s1))"

definition MulticastSender_OpenSocket6 ::
    "socket_env \<Rightarrow> ('a4, 'a6, 'a, 'q, 'k) MulticastSender \<Rightarrow> bool \<times> ('a4, 'a6, 'a, 'q, 'k) MulticastSender" where
  "MulticastSender_OpenSocket6 e s =
     (if mc_intfName (cf_mcast (mt_config s)) = [] then (False, s)
      else
        let s1 = s\<lparr>mt_fd6 := so_socket e\<rparr>
        in if 0 \<le> mt_fd6 s1 then
             if 0 < so_ifindex e then
               if so_setsockopt e then
                 if so_bind e then (True, s1) else (False, s1\<lparr>mt_fd6 := -1\<rparr>)
               else (False, s1\<lparr>mt_fd6 := -1\<rparr>)
             else (False, s1\<lparr>mt_fd6 := -1\<rparr>)
           else (False, s1))"

definition DesiredSocketsOpen :: "('a4, 'a6, 'a, 'q) sender_ctx \<Rightarrow> ('a4, 'a6, 'a, 'q, 'k) MulticastSender \<Rightarrow> bool" where
  "DesiredSocketsOpen c s \<longleftrightarrow>
     (let mc = cf_mcast (mt_config s);
          v4ok = (if MulticastConfig_ShouldSendIpv4 (xc_addr c) mc then 0 \<le> mt_fd s else mt_fd s < 0);
          v6ok = (if MulticastConfig_ShouldSendIpv6 (xc_addr c) mc then 0 \<le> mt_fd6 s else mt_fd6 s < 0)
      in v4ok \<and> v6ok)"

record open_env =
  oe_v4 :: socket_env
  oe_v6 :: socket_env
  oe_pipe :: "(int \<times> int) option"

text \<open>
  A filter that does not parse throws out of \<open>Open\<close>. The new thread starts with an empty packet
  and whatever the queue holds.
\<close>

definition MulticastSender_Open ::
    "('a4, 'a6, 'a, 'q) sender_ctx \<Rightarrow> open_env \<Rightarrow> ('a4, 'a6) Config \<Rightarrow> ('a4, 'a6, 'a, 'q, 'k) MulticastSender
     \<Rightarrow> (bool \<times> ('a4, 'a6, 'a, 'q, 'k) MulticastSender) result" where
  "MulticastSender_Open c e config s =
     (let mc = cf_mcast config;
          s1 = s\<lparr>mt_config := config, mt_dstEndpoint := UdpEndpoint (xc_ip4 c (mc_groupAddr mc)) (mc_dstPort mc),
                 mt_dstEndpoint6 := UdpEndpoint (xc_ip6 c (mc_groupAddr6 mc)) (mc_dstPort mc)\<rparr>
      in case (if mc_outFilter mc \<noteq> [] then map_sum (\<lambda>x. x) Some (MessageFilterDriver_new (xc_rx c) (xc_msg c) (mc_outFilter mc))
               else Inr None) of
           Inl ex \<Rightarrow> Inl ex
         | Inr drv \<Rightarrow>
             let s2 = s1\<lparr>mt_filterDriver := drv\<rparr>
             in if \<not> ShouldRunSender (xc_addr c) mc then Inr (True, s2)
                else
                  let s3 = (if MulticastConfig_ShouldSendIpv4 (xc_addr c) mc \<and> mt_fd s2 < 0
                            then snd (MulticastSender_OpenSocket (oe_v4 e) s2) else s2);
                      s4 = (if MulticastConfig_ShouldSendIpv6 (xc_addr c) mc \<and> mt_fd6 s3 < 0
                            then snd (MulticastSender_OpenSocket6 (oe_v6 e) s3) else s3)
                  in if DesiredSocketsOpen c s4 then
                       (case Listener_Start (oe_pipe e) (mt_fd s4) (mt_fd6 s4) (sc_keyDirectory (cf_service (mt_config s4)))
                               (mt_key s4) (mt_keyRequestListener s4) of
                          Inl ex \<Rightarrow> Inl ex
                        | Inr (started, l) \<Rightarrow>
                            let s5 = s4\<lparr>mt_keyRequestListener := l\<rparr>
                            in if started then
                                 Inr (True, s5\<lparr>mt_thread := (mt_thread s5)\<lparr>th_run := True, th_pkt := packet_1200, th_pc := AtTop\<rparr>\<rparr>)
                               else Inr (False, s5))
                     else Inr (False, s4))"

section \<open>Processing and sending\<close>

definition PassesFilter ::
    "('a4, 'a6, 'a, 'q) sender_ctx \<Rightarrow> Message \<Rightarrow> ('a4, 'a6, 'a, 'q, 'k) MulticastSender
     \<Rightarrow> bool \<times> ('a4, 'a6, 'a, 'q, 'k) MulticastSender" where
  "PassesFilter c msg s =
     (case mt_filterDriver s of
        None \<Rightarrow> (True, s)
      | Some drv \<Rightarrow>
          let (r, drv') = driver_parse (xc_rx c) msg drv; s' = s\<lparr>mt_filterDriver := Some drv'\<rparr>
          in case r of Some filterPassed \<Rightarrow> (filterPassed, s') | None \<Rightarrow> (False, s'))"

definition MulticastSender_Process ::
    "('a4, 'a6, 'a, 'q) sender_ctx \<Rightarrow> Message \<Rightarrow> ('a4, 'a6, 'a, 'q, 'k) MulticastSender
     \<Rightarrow> bool \<times> ('a4, 'a6, 'a, 'q, 'k) MulticastSender" where
  "MulticastSender_Process c msg s =
     (let (passes, s1) = PassesFilter c msg s
      in if passes then let (ok, t) = enqueue (xc_queue c) msg (mt_thread s1) in (ok, s1\<lparr>mt_thread := t\<rparr>)
         else (False, s1))"

text \<open>The random nonce, and the answer of \<open>sendto\<close> on a descriptor.\<close>

record 'a send_env =
  sn_nonce :: bytes
  sn_sendto :: "int \<Rightarrow> bytes \<Rightarrow> 'a UdpEndpoint \<Rightarrow> int"

definition MulticastSender_SendPacket ::
    "aead \<Rightarrow> bytes \<Rightarrow> int \<Rightarrow> int \<Rightarrow> 'a UdpEndpoint \<Rightarrow> 'a UdpEndpoint \<Rightarrow> ('a send_env, 'a sends) send_op" where
  "MulticastSender_SendPacket ae key fd fd6 dst dst6 n pkt =
     (let (encrypted, p1) = Encrypt ae (sn_nonce n) key pkt;
          (ip4rc, out4) = (if encrypted \<and> 0 \<le> fd then SendTo (sn_sendto n fd) dst p1 else (-1, []));
          (ip6rc, out6) = (if encrypted \<and> 0 \<le> fd6 then SendTo (sn_sendto n fd6) dst6 p1 else (-1, []));
          rc = ((if 0 \<le> fd then ip4rc > 0 else True) \<and> (if 0 \<le> fd6 then ip6rc > 0 else True))
      in (rc, out4 @ out6, Reset p1))"

text \<open>\<open>Run\<close>, which sends nothing more once its loop has ended.\<close>

definition MulticastSender_Run ::
    "('a4, 'a6, 'a, 'q) sender_ctx \<Rightarrow> ('a4, 'a6, 'a, 'q, 'k) MulticastSender \<Rightarrow> 'a send_env sender_event
     \<Rightarrow> ('q, 'a sends) sender_thread" where
  "MulticastSender_Run c s ev =
     thread_step (xc_queue c) (xc_io c)
       (MulticastSender_SendPacket (xc_aead c) (mt_key s) (mt_fd s) (mt_fd6 s) (mt_dstEndpoint s) (mt_dstEndpoint6 s))
       False (mt_thread s) ev"

text \<open>A call of \<open>Process\<close>, or a step of the thread.\<close>

definition multicast_step ::
    "('a4, 'a6, 'a, 'q) sender_ctx \<Rightarrow> ('a4, 'a6, 'a, 'q, 'k) MulticastSender \<Rightarrow> 'a send_env sender_event
     \<Rightarrow> ('a4, 'a6, 'a, 'q, 'k) MulticastSender" where
  "multicast_step c s ev =
     (case ev of
        Process_call msg \<Rightarrow> snd (MulticastSender_Process c msg s)
      | _ \<Rightarrow> s\<lparr>mt_thread := MulticastSender_Run c s ev\<rparr>)"

text \<open>
  \<open>Close\<close> signals the thread and joins it: \<open>evs\<close> are the steps it still makes, and \<open>None\<close> says
  that it has not ended after them.
\<close>

definition MulticastSender_Close ::
    "('a4, 'a6, 'a, 'q) sender_ctx \<Rightarrow> 'a send_env sender_event list \<Rightarrow> ('a4, 'a6, 'a, 'q, 'k) MulticastSender
     \<Rightarrow> ('a4, 'a6, 'a, 'q, 'k) MulticastSender option" where
  "MulticastSender_Close c evs s =
     (let s1 = s\<lparr>mt_keyRequestListener := snd (Listener_Stop (mt_keyRequestListener s)),
                 mt_thread := (mt_thread s)\<lparr>th_run := False\<rparr>\<rparr>;
          s2 = run_events (multicast_step c) s1 evs
      in if th_pc (mt_thread s2) = Finished then
           let s3 = (if 0 \<le> mt_fd s2 then s2\<lparr>mt_fd := -1\<rparr> else s2)
           in Some (if 0 \<le> mt_fd6 s3 then s3\<lparr>mt_fd6 := -1\<rparr> else s3)
         else None)"

definition MulticastSender_Restart ::
    "('a4, 'a6, 'a, 'q) sender_ctx \<Rightarrow> 'a send_env sender_event list \<Rightarrow> open_env \<Rightarrow> ('a4, 'a6) Config
     \<Rightarrow> ('a4, 'a6, 'a, 'q, 'k) MulticastSender \<Rightarrow> (bool \<times> ('a4, 'a6, 'a, 'q, 'k) MulticastSender) result option" where
  "MulticastSender_Restart c evs e config s = map_option (MulticastSender_Open c e config) (MulticastSender_Close c evs s)"

section \<open>It is a packet sender\<close>

text \<open>What the first of the datagrams of one \<open>SendPacket\<close> decrypts to.\<close>

definition sealed_payload :: "aead \<Rightarrow> bytes \<Rightarrow> 'a sends \<Rightarrow> bytes" where
  "sealed_payload ae key out =
     (case out of
        [] \<Rightarrow> []
      | (dst, d) # _ \<Rightarrow>
          (case aead_dec ae (take k_nonceLen d) key (drop k_nonceLen d) of Some x \<Rightarrow> x | None \<Rightarrow> []))"

definition send_env_ok :: "aead \<Rightarrow> int \<Rightarrow> int \<Rightarrow> 'a send_env \<Rightarrow> bool" where
  "send_env_ok ae fd fd6 n \<longleftrightarrow> aead_ok ae \<and> (0 \<le> fd \<or> 0 \<le> fd6) \<and> length (sn_nonce n) = k_nonceLen"

interpretation multicast: packet_sender "MulticastSender_SendPacket ae key fd fd6 dst dst6" "sealed_payload ae key"
  "send_env_ok ae fd fd6" for ae key fd fd6 dst dst6
proof
  fix pk n rc d pk'
  assume wf: "packet_wf pk" and n: "send_env_ok ae fd fd6 n"
    and send: "MulticastSender_SendPacket ae key fd fd6 dst dst6 n pk = (rc, d, pk')"
  have ae: "aead_ok ae" "0 \<le> fd \<or> 0 \<le> fd6" "length (sn_nonce n) = k_nonceLen" using n by (auto simp: send_env_ok_def)
  obtain p' c where p': "Encrypt ae (sn_nonce n) key pk = (True, p')" "aead_enc ae (sn_nonce n) key (payload_bytes pk) = Some c"
    "datagram p' = sn_nonce n @ c" "packet_wf p'" "length (pk_buf p') = length (pk_buf pk)"
    using Encrypt_datagram[OF ae(1) wf ae(3)] by metis
  have "aead_dec ae (sn_nonce n) key c = Some (payload_bytes pk)"
    using ae(1) p'(2) unfolding aead_ok_def by (metis option.inject)
  then have s: "sealed_payload ae key ((dst', sn_nonce n @ c) # out) = payload_bytes pk" for dst' and out :: "('b UdpEndpoint \<times> bytes) list"
    using ae(3) by (simp add: sealed_payload_def)
  have "pk_len p' = pk_len pk" using wf p'(4,5) by (simp add: packet_wf_def)
  then show "sealed_payload ae key d = payload_bytes pk \<and> packet_wf pk' \<and> payload_bytes pk' = [] \<and> pk_len pk' = pk_len pk"
    using send p'(1,3) s Reset_wf[OF p'(4)] ae(2)
    by (auto simp: MulticastSender_SendPacket_def SendTo_def Let_def Reset_def split: if_splits)
qed

text \<open>A filter of the constructor's making has read its expression; parsing does not change it.\<close>

definition filter_settled :: "MessageFilterDriver option \<Rightarrow> bool" where
  "filter_settled d = (case d of None \<Rightarrow> True | Some drv \<Rightarrow> drv_tokenized drv)"

definition filter_accepts :: "rx_ops \<Rightarrow> MessageFilterDriver option \<Rightarrow> Message \<Rightarrow> bool" where
  "filter_accepts rx d msg = (case d of None \<Rightarrow> True | Some drv \<Rightarrow> fst (driver_parse rx msg drv) = Some True)"

lemma PassesFilter_settled:
  assumes "filter_settled (mt_filterDriver s)"
  shows "PassesFilter c msg s = (filter_accepts (xc_rx c) (mt_filterDriver s) msg, s)"
proof (cases "mt_filterDriver s")
  case (Some drv)
  with assms have "s\<lparr>mt_filterDriver := Some drv\<rparr> = s" by (cases s) simp
  with assms Some show ?thesis
    by (auto simp: PassesFilter_def filter_accepts_def filter_settled_def driver_parse_def Let_def split: option.split)
qed (simp add: PassesFilter_def filter_accepts_def)

lemma MessageFilterDriver_new_tokenized: "MessageFilterDriver_new rx m0 e = Inr drv \<Longrightarrow> drv_tokenized drv"
  by (auto simp: MessageFilterDriver_new_def driver_is_valid_def driver_parse_def Let_def split: if_splits)

text \<open>The invariant of a running sender, and what its steps do not touch.\<close>

definition multicast_inv :: "('a4, 'a6, 'a, 'q) sender_ctx \<Rightarrow> ('a4, 'a6, 'a, 'q, 'k) MulticastSender \<Rightarrow> bool" where
  "multicast_inv c s \<longleftrightarrow> queue_ok (xc_queue c) \<and> aead_ok (xc_aead c) \<and> (0 \<le> mt_fd s \<or> 0 \<le> mt_fd6 s)
     \<and> filter_settled (mt_filterDriver s)
     \<and> thread_inv (xc_queue c) (xc_io c) (sealed_payload (xc_aead c) (mt_key s)) (mt_thread s)
     \<and> (\<forall>m\<in>set (th_accepted (mt_thread s)). filter_accepts (xc_rx c) (mt_filterDriver s) m)"

definition nonces_fit :: "dwm_io \<Rightarrow> 'a send_env sender_event \<Rightarrow> bool" where
  "nonces_fit io ev \<longleftrightarrow> event_fits io (\<lambda>n. length (sn_nonce n) = k_nonceLen) ev"

lemma multicast_step_thread:
  assumes "filter_settled (mt_filterDriver s)"
  shows "multicast_step c s ev =
    (if \<exists>m. ev = Process_call m \<and> \<not> filter_accepts (xc_rx c) (mt_filterDriver s) m then s
     else s\<lparr>mt_thread := MulticastSender_Run c s ev\<rparr>)"
  using assms
  by (cases ev) (simp_all add: multicast_step_def MulticastSender_Process_def PassesFilter_settled MulticastSender_Run_def
      split: prod.split)

lemma thread_step_accepted:
  "th_accepted (thread_step qo io send flush s ev) = th_accepted s \<or>
   (\<exists>m. ev = Process_call m \<and> th_accepted (thread_step qo io send flush s ev) = th_accepted s @ [m])"
  by (cases ev) (auto simp: enqueue_def send_now_def pack_message_frame split: prod.split option.split)

lemma multicast_step_inv:
  assumes "multicast_inv c s" "nonces_fit (xc_io c) ev"
  shows "multicast_inv c (multicast_step c s ev)"
proof (cases "\<exists>m. ev = Process_call m \<and> \<not> filter_accepts (xc_rx c) (mt_filterDriver s) m")
  case True
  with assms show ?thesis by (subst multicast_step_thread) (auto simp: multicast_inv_def)
next
  case False
  let ?n = "send_env_ok (xc_aead c) (mt_fd s) (mt_fd6 s)"
  have "event_fits (xc_io c) ?n ev"
    using assms by (auto simp: nonces_fit_def event_fits_def send_env_ok_def multicast_inv_def split: sender_event.splits)
  then have "thread_inv (xc_queue c) (xc_io c) (sealed_payload (xc_aead c) (mt_key s)) (MulticastSender_Run c s ev)"
    using assms(1) unfolding MulticastSender_Run_def multicast_inv_def by (intro multicast.thread_step_inv) auto
  moreover have "\<forall>m\<in>set (th_accepted (MulticastSender_Run c s ev)). filter_accepts (xc_rx c) (mt_filterDriver s) m"
    using assms(1) False thread_step_accepted[of "xc_queue c" "xc_io c" "MulticastSender_SendPacket (xc_aead c) (mt_key s) (mt_fd s) (mt_fd6 s)
        (mt_dstEndpoint s) (mt_dstEndpoint6 s)" False "mt_thread s" ev]
    by (auto simp: MulticastSender_Run_def multicast_inv_def)
  ultimately show ?thesis using assms(1) False by (subst multicast_step_thread) (auto simp: multicast_inv_def)
qed

interpretation multicast_run: event_machine "multicast_step c" "multicast_inv c" "nonces_fit (xc_io c)" for c
  by unfold_locales (rule multicast_step_inv)

lemma run_events_key: "mt_key (run_events (multicast_step c) s evs) = mt_key s"
proof (induction evs arbitrary: s)
  case (Cons ev evs)
  have "mt_key (multicast_step c s ev) = mt_key s"
    by (cases ev) (auto simp: multicast_step_def MulticastSender_Process_def PassesFilter_def Let_def split: prod.splits option.splits)
  with Cons.IH show ?case by simp
qed simp

section \<open>Opening\<close>

text \<open>A first \<open>Open\<close> of a configuration that sends, if it succeeds: a running sender.\<close>

lemma OpenSocket_frame:
  "mt_thread (snd (MulticastSender_OpenSocket e s)) = mt_thread s" "mt_key (snd (MulticastSender_OpenSocket e s)) = mt_key s"
  "mt_config (snd (MulticastSender_OpenSocket e s)) = mt_config s"
  "mt_filterDriver (snd (MulticastSender_OpenSocket e s)) = mt_filterDriver s"
  "mt_thread (snd (MulticastSender_OpenSocket6 e s)) = mt_thread s" "mt_key (snd (MulticastSender_OpenSocket6 e s)) = mt_key s"
  "mt_config (snd (MulticastSender_OpenSocket6 e s)) = mt_config s"
  "mt_filterDriver (snd (MulticastSender_OpenSocket6 e s)) = mt_filterDriver s"
  by (simp_all add: MulticastSender_OpenSocket_def MulticastSender_OpenSocket6_def Let_def)

lemma Open_runs:
  fixes s :: "('a4, 'a6, 'a, 'q, 'k) MulticastSender"
  assumes "MulticastSender_Open c e cfg s = Inr (True, s')" "ShouldRunSender (xc_addr c) (cf_mcast cfg)"
  obtains t :: "('a4, 'a6, 'a, 'q, 'k) MulticastSender" where "DesiredSocketsOpen c t" "mt_config t = cfg" "filter_settled (mt_filterDriver t)" "mt_key t = mt_key s"
    "mt_fd s' = mt_fd t" "mt_fd6 s' = mt_fd6 t" "mt_filterDriver s' = mt_filterDriver t" "mt_key s' = mt_key s"
    "mt_thread s' = (mt_thread s)\<lparr>th_run := True, th_pkt := packet_1200, th_pc := AtTop\<rparr>"
proof -
  define drv where "drv = (if mc_outFilter (cf_mcast cfg) \<noteq> []
    then map_sum (\<lambda>x. x) Some (MessageFilterDriver_new (xc_rx c) (xc_msg c) (mc_outFilter (cf_mcast cfg))) else Inr None)"
  obtain d where d: "drv = Inr d"
    using assms(1) by (auto simp: MulticastSender_Open_def Let_def simp flip: drv_def split: sum.splits)
  have fs: "filter_settled d"
    using d MessageFilterDriver_new_tokenized[of "xc_rx c" "xc_msg c" "mc_outFilter (cf_mcast cfg)"]
    by (cases "MessageFilterDriver_new (xc_rx c) (xc_msg c) (mc_outFilter (cf_mcast cfg))")
       (auto simp: drv_def filter_settled_def split: if_splits)
  define s2 where "s2 = s\<lparr>mt_config := cfg, mt_dstEndpoint := UdpEndpoint (xc_ip4 c (mc_groupAddr (cf_mcast cfg))) (mc_dstPort (cf_mcast cfg)),
      mt_dstEndpoint6 := UdpEndpoint (xc_ip6 c (mc_groupAddr6 (cf_mcast cfg))) (mc_dstPort (cf_mcast cfg)), mt_filterDriver := d\<rparr>"
  define s3 where "s3 = (if MulticastConfig_ShouldSendIpv4 (xc_addr c) (cf_mcast cfg) \<and> mt_fd s2 < 0
      then snd (MulticastSender_OpenSocket (oe_v4 e) s2) else s2)"
  define t where "t = (if MulticastConfig_ShouldSendIpv6 (xc_addr c) (cf_mcast cfg) \<and> mt_fd6 s3 < 0
      then snd (MulticastSender_OpenSocket6 (oe_v6 e) s3) else s3)"
  have f: "mt_thread t = mt_thread s" "mt_key t = mt_key s" "mt_config t = cfg" "mt_filterDriver t = d"
    by (simp_all add: t_def s3_def s2_def OpenSocket_frame)
  have o: "MulticastSender_Open c e cfg s = (if DesiredSocketsOpen c t then
      (case Listener_Start (oe_pipe e) (mt_fd t) (mt_fd6 t) (sc_keyDirectory (cf_service (mt_config t)))
             (mt_key t) (mt_keyRequestListener t) of
        Inl ex \<Rightarrow> Inl ex
      | Inr (started, l) \<Rightarrow>
          let s5 = t\<lparr>mt_keyRequestListener := l\<rparr>
          in if started then Inr (True, s5\<lparr>mt_thread := (mt_thread s5)\<lparr>th_run := True, th_pkt := packet_1200, th_pc := AtTop\<rparr>\<rparr>)
             else Inr (False, s5))
      else Inr (False, t))"
    using assms(2) d unfolding MulticastSender_Open_def Let_def t_def s3_def s2_def drv_def by simp
  then obtain l where "DesiredSocketsOpen c t"
    "s' = t\<lparr>mt_keyRequestListener := l, mt_thread := (mt_thread t)\<lparr>th_run := True, th_pkt := packet_1200, th_pc := AtTop\<rparr>\<rparr>"
    using assms(1) by (auto simp: Let_def split: if_splits sum.splits)
  then show thesis using f fs by (intro that[of t]) simp_all
qed

lemma Open_inv:
  fixes s :: "('a4, 'a6, 'a, 'q, 'k) MulticastSender"
  assumes "MulticastSender_Open c e cfg (MulticastSender_new c key cfg0 ep0) = Inr (True, s)"
    "ShouldRunSender (xc_addr c) (cf_mcast cfg)" "queue_ok (xc_queue c)" "aead_ok (xc_aead c)"
  shows "multicast_inv c s \<and> mt_key s = key \<and> th_pc (mt_thread s) = AtTop \<and> th_run (mt_thread s)
    \<and> th_accepted (mt_thread s) = []"
proof -
  obtain t :: "('a4, 'a6, 'a, 'q, 'k) MulticastSender" where t: "DesiredSocketsOpen c t" "mt_config t = cfg" "filter_settled (mt_filterDriver t)"
    "mt_fd s = mt_fd t" "mt_fd6 s = mt_fd6 t" "mt_filterDriver s = mt_filterDriver t" "mt_key s = key"
    "mt_thread s = thread_start (q_max_length (xc_queue c) 1000 (q_empty (xc_queue c)))"
    using Open_runs[OF assms(1,2)] by (auto simp: MulticastSender_new_def thread_start_def)
  have "0 \<le> mt_fd s \<or> 0 \<le> mt_fd6 s"
    using t(1,2,4,5) assms(2) by (auto simp: DesiredSocketsOpen_def ShouldRunSender_def Let_def split: if_splits)
  moreover have "thread_inv (xc_queue c) (xc_io c) (sealed_payload (xc_aead c) key) (mt_thread s)"
    unfolding t(8) using assms(3) by (intro multicast.thread_start_inv) (simp_all add: queue_ok_def)
  ultimately show ?thesis using t assms(3,4) by (simp add: multicast_inv_def thread_start_def)
qed

section \<open>Properties\<close>


text \<open>A message that waits alone in the packet when the sender is told to stop.\<close>

lemma lone_message:
  assumes qo: "queue_ok qo" and s: "th_pc s = AtTop" "th_run s" "q_items qo (th_queue s) = []" "packet_wf (th_pkt s)"
      "payload_bytes (th_pkt s) = []" "pk_len (th_pkt s) = 1160"
    and m: "fits_packet io m" "fst (q_push qo m (th_queue s))"
  obtains p q where
    "run_events (thread_step qo io send False) s [Process_call m, Test_run n, Wait_returns True n, Pop_next n, Pop_next n]
      = s\<lparr>th_queue := q, th_accepted := th_accepted s @ [m], th_pkt := p, th_pc := AtTop\<rparr>"
    "payload_bytes p = Message_enc io m" "q_items qo q = []"
proof -
  obtain q1 where q1: "q_push qo m (th_queue s) = (True, q1)" using m(2) by (cases "q_push qo m (th_queue s)") auto
  have i1: "q_items qo q1 = [m]" using qo q1 s(3) by (auto simp: queue_ok_def)
  then obtain q2 where q2: "q_pop qo q1 = Some (m, q2)" "q_items qo q2 = []"
    using qo unfolding queue_ok_def by (metis list.inject list.distinct(1) not_Some_eq surj_pair)
  have q3: "q_pop qo q2 = None" using qo q2(2) by (simp add: queue_ok_def)
  have "pk_pos (th_pkt s) = 0" using s(4,5) payload_bytes_length[OF s(4)] by (simp add: packet_wf_def)
  then have "pk_pos (th_pkt s) + length (Message_enc io m) \<le> pk_len (th_pkt s)"
    using m(1) s(6) by (simp add: fits_packet_def)
  then obtain p where "Add (Message_Write io m) (th_pkt s) = (True, p)" "payload_bytes p = payload_bytes (th_pkt s) @ Message_enc io m"
    using Add_fits[OF s(4) Message_Write_enc] by blast
  then have p: "Add (Message_Write io m) (th_pkt s) = (True, p)" "payload_bytes p = Message_enc io m" using s(5) by simp_all
  show thesis
    by (rule that[of p q2]) (use s(1,2) q1 q2 q3 p in \<open>simp_all add: enqueue_def pack_message_def\<close>)
qed

lemma run_events_multicast:
  assumes "filter_settled (mt_filterDriver s)" "\<forall>m. Process_call m \<in> set evs \<longrightarrow> filter_accepts (xc_rx c) (mt_filterDriver s) m"
  shows "run_events (multicast_step c) s evs = s\<lparr>mt_thread := run_events
     (thread_step (xc_queue c) (xc_io c)
       (MulticastSender_SendPacket (xc_aead c) (mt_key s) (mt_fd s) (mt_fd6 s) (mt_dstEndpoint s) (mt_dstEndpoint6 s)) False)
     (mt_thread s) evs\<rparr>"
  using assms
proof (induction evs arbitrary: s)
  case (Cons ev evs)
  then have e: "multicast_step c s ev = s\<lparr>mt_thread := MulticastSender_Run c s ev\<rparr>" by (subst multicast_step_thread) auto
  have "filter_settled (mt_filterDriver (multicast_step c s ev))" using Cons.prems(1) e by simp
  from Cons.IH[OF this] Cons.prems(2) e show ?case by (simp add: MulticastSender_Run_def)
qed simp

text \<open>
  \<open>Close\<close> drops what is in the packet: a message accepted within the last second, already
  taken from the queue, is neither sent nor kept when the sender is closed; its next \<open>Open\<close>
  begins with an empty packet. (\<open>LoopbackSender\<close> sends such a packet before it ends.)
\<close>

theorem multicast_close_drops_packet:
  assumes "multicast_inv c s" "th_pc (mt_thread s) = AtTop" "th_run (mt_thread s)"
    "q_items (xc_queue c) (th_queue (mt_thread s)) = []" "\<not> HasPayload (th_pkt (mt_thread s))"
    "fits_packet (xc_io c) m" "fst (q_push (xc_queue c) m (th_queue (mt_thread s)))" "filter_accepts (xc_rx c) (mt_filterDriver s) m"
    "s1 = run_events (multicast_step c) s [Process_call m, Test_run n, Wait_returns True n, Pop_next n, Pop_next n]"
  shows "\<exists>s2. MulticastSender_Close c [Test_run n] s1 = Some s2 \<and> th_accepted (mt_thread s2) = th_accepted (mt_thread s) @ [m]
    \<and> th_sent (mt_thread s2) = th_sent (mt_thread s) \<and> q_items (xc_queue c) (th_queue (mt_thread s2)) = []
    \<and> mt_fd s2 < 0 \<and> mt_fd6 s2 < 0"
proof -
  have i: "queue_ok (xc_queue c)" "filter_settled (mt_filterDriver s)" using assms(1) by (auto simp: multicast_inv_def)
  obtain gs g where w: "packet_wf (th_pkt (mt_thread s))" "pk_len (th_pkt (mt_thread s)) = 1160"
    using assms(1) by (auto simp: multicast_inv_def elim: thread_invE)
  then have p: "payload_bytes (th_pkt (mt_thread s)) = []" using assms(5) HasPayload_iff by blast
  let ?send = "MulticastSender_SendPacket (xc_aead c) (mt_key s) (mt_fd s) (mt_fd6 s) (mt_dstEndpoint s) (mt_dstEndpoint6 s)"
  obtain pk q where l: "run_events (thread_step (xc_queue c) (xc_io c) ?send False) (mt_thread s)
      [Process_call m, Test_run n, Wait_returns True n, Pop_next n, Pop_next n]
      = (mt_thread s)\<lparr>th_queue := q, th_accepted := th_accepted (mt_thread s) @ [m], th_pkt := pk, th_pc := AtTop\<rparr>"
    "q_items (xc_queue c) q = []"
    using lone_message[OF i(1) assms(2,3,4) w(1) p w(2) assms(6,7)] by metis
  have s1: "s1 = s\<lparr>mt_thread := (mt_thread s)\<lparr>th_queue := q, th_accepted := th_accepted (mt_thread s) @ [m], th_pkt := pk, th_pc := AtTop\<rparr>\<rparr>"
    using run_events_multicast[OF i(2), of "[Process_call m, Test_run n, Wait_returns True n, Pop_next n, Pop_next n]" c] assms(8,9) l(1)
    by simp
  show ?thesis
    using l(2) i(2) by (simp add: s1 MulticastSender_Close_def multicast_step_thread MulticastSender_Run_def Let_def)
qed

text \<open>After a drain every accepted message has left in a datagram.\<close>

lemma multicast_drains:
  assumes "multicast_inv c s" "th_pc (mt_thread s) = AtTop" "th_run (mt_thread s)" "io_ok (xc_io c)"
    "\<forall>m\<in>set (th_accepted (mt_thread s)). message_ok m" "length (sn_nonce n) = k_nonceLen"
    "s' = run_events (multicast_step c) s (drain_schedule (length (q_items (xc_queue c) (th_queue (mt_thread s)))) n)"
  obtains gs where "map (sealed_payload (xc_aead c) (mt_key s)) (th_sent (mt_thread s')) = map (\<lambda>ms. concat (map (Message_enc (xc_io c)) ms)) gs"
    "[] \<notin> set gs" "concat gs = th_accepted (mt_thread s)" "th_accepted (mt_thread s') = th_accepted (mt_thread s)"
    "\<forall>out\<in>set (th_sent (mt_thread s')). length (sealed_payload (xc_aead c) (mt_key s) out) \<le> 1160"
proof -
  let ?k = "length (q_items (xc_queue c) (th_queue (mt_thread s)))"
  let ?send = "MulticastSender_SendPacket (xc_aead c) (mt_key s) (mt_fd s) (mt_fd6 s) (mt_dstEndpoint s) (mt_dstEndpoint6 s)"
  have i: "queue_ok (xc_queue c)" "filter_settled (mt_filterDriver s)"
    "thread_inv (xc_queue c) (xc_io c) (sealed_payload (xc_aead c) (mt_key s)) (mt_thread s)"
    "send_env_ok (xc_aead c) (mt_fd s) (mt_fd6 s) n"
    using assms(1,6) by (auto simp: multicast_inv_def send_env_ok_def)
  have np: "\<forall>m. Process_call m \<in> set (drain_schedule ?k n) \<longrightarrow> filter_accepts (xc_rx c) (mt_filterDriver s) m"
    by (auto simp: drain_schedule_def)
  define t where "t = run_events (thread_step (xc_queue c) (xc_io c) ?send False) (mt_thread s) (drain_schedule ?k n)"
  have s': "mt_thread s' = t" by (simp add: assms(7) run_events_multicast[OF i(2) np] t_def)
  obtain gs where "packed (xc_queue c) (xc_io c) (sealed_payload (xc_aead c) (mt_key s)) t gs []" "concat gs = th_accepted (mt_thread s)"
    "th_accepted t = th_accepted (mt_thread s)"
    using multicast.drain_empties[OF i(1,3) assms(2,3) i(4) assms(4,5) t_def] by metis
  then show thesis using that[of gs] by (simp add: packed_def s')
qed

section \<open>Witnesses\<close>

definition sample_sender_ctx :: "(nat, nat, nat, nat \<times> Message list) sender_ctx" where
  "sample_sender_ctx =
     \<lparr>xc_addr = \<lparr>addr4_default = 0, addr6_default = 0, addr4_group = 239, addr6_group = 240\<rparr>, xc_ip4 = \<lambda>a. a, xc_ip6 = \<lambda>a. a,
      xc_rx = sample_rx, xc_msg = sample_message, xc_queue = sample_queue, xc_io = sample_io, xc_aead = sample_aead\<rparr>"

definition sample_config :: "(nat, nat) Config" where
  "sample_config =
     \<lparr>cf_loopback = LoopbackConfig_Init,
      cf_mcast = (MulticastConfig_Init (xc_addr sample_sender_ctx))\<lparr>mc_intfAddr := 5\<rparr>,
      cf_service = ServiceConfig_Init, cf_filters = [], cf_files = FilesConfig_Init\<rparr>"

definition sample_open :: open_env where
  "sample_open =
     \<lparr>oe_v4 = \<lparr>so_socket = 3, so_ifindex = 1, so_setsockopt = True, so_bind = True\<rparr>,
      oe_v6 = \<lparr>so_socket = -1, so_ifindex = 0, so_setsockopt = False, so_bind = False\<rparr>, oe_pipe = Some (4, 5)\<rparr>"

definition sample_key :: bytes where "sample_key = replicate 32 CHR ''k''"

definition sample_sender :: "(nat, nat, nat, nat \<times> Message list, nat) MulticastSender" where
  "sample_sender = snd (projr (MulticastSender_Open sample_sender_ctx sample_open sample_config
     (MulticastSender_new sample_sender_ctx sample_key sample_config (UdpEndpoint 0 0))))"

definition sample_nonce :: "nat send_env" where
  "sample_nonce = \<lparr>sn_nonce = replicate 24 CHR 0x01, sn_sendto = \<lambda>fd d a. int (length d)\<rparr>"

lemma sample_sender_open:
  "MulticastSender_Open sample_sender_ctx sample_open sample_config
     (MulticastSender_new sample_sender_ctx sample_key sample_config (UdpEndpoint 0 0)) = Inr (True, sample_sender)"
  by (simp add: sample_sender_def MulticastSender_Open_def sample_config_def sample_sender_ctx_def MulticastConfig_Init_def
      ShouldRunSender_def MulticastConfig_ShouldSendIpv4_def MulticastConfig_ShouldSendIpv6_def MulticastSender_new_def
      MulticastSender_OpenSocket_def sample_open_def DesiredSocketsOpen_def Listener_Start_def KeyRequestListener_new_def
      sample_key_def aead_KEYBYTES_def Let_def)

lemma sample_sender_runs: "ShouldRunSender (xc_addr sample_sender_ctx) (cf_mcast sample_config)"
  by (simp add: ShouldRunSender_def MulticastConfig_ShouldSendIpv4_def sample_config_def sample_sender_ctx_def MulticastConfig_Init_def)

lemma sample_sender_laws: "queue_ok (xc_queue sample_sender_ctx)" "aead_ok (xc_aead sample_sender_ctx)" "io_ok (xc_io sample_sender_ctx)"
  by (simp_all add: sample_sender_ctx_def sample_queue_ok sample_aead_ok sample_io_ok)

lemmas sample_sender_inv = Open_inv[OF sample_sender_open sample_sender_runs sample_sender_laws(1,2)]

lemma sample_sender_state:
  "mt_thread sample_sender = thread_start (1000, [])" "mt_filterDriver sample_sender = None"
  by (simp_all add: sample_sender_def MulticastSender_Open_def sample_config_def sample_sender_ctx_def MulticastConfig_Init_def
      ShouldRunSender_def MulticastConfig_ShouldSendIpv4_def MulticastConfig_ShouldSendIpv6_def MulticastSender_new_def
      MulticastSender_OpenSocket_def sample_open_def DesiredSocketsOpen_def Listener_Start_def KeyRequestListener_new_def
      sample_key_def aead_KEYBYTES_def sample_queue_def thread_start_def Let_def)

lemma sample_fits_packet: "fits_packet sample_io sample_message"
  by (simp add: fits_packet_def sample_message_length)


lemma multicast_close_drops_packet_witness:
  "\<exists>s2. MulticastSender_Close sample_sender_ctx [Test_run sample_nonce] (run_events (multicast_step sample_sender_ctx) sample_sender
      [Process_call sample_message, Test_run sample_nonce, Wait_returns True sample_nonce, Pop_next sample_nonce, Pop_next sample_nonce]) = Some s2
    \<and> th_accepted (mt_thread s2) = [sample_message] \<and> th_sent (mt_thread s2) = []"
proof -
  have "\<not> HasPayload (th_pkt (mt_thread sample_sender))" "q_items (xc_queue sample_sender_ctx) (th_queue (mt_thread sample_sender)) = []"
    "fst (q_push (xc_queue sample_sender_ctx) sample_message (th_queue (mt_thread sample_sender)))"
    "filter_accepts (xc_rx sample_sender_ctx) (mt_filterDriver sample_sender) sample_message"
    by (simp_all add: sample_sender_state thread_start_def HasPayload_def packet_1200_def sample_sender_ctx_def sample_queue_def
        filter_accepts_def)
  moreover have "fits_packet (xc_io sample_sender_ctx) sample_message" using sample_fits_packet by (simp add: sample_sender_ctx_def)
  ultimately show ?thesis
    using multicast_close_drops_packet[of sample_sender_ctx sample_sender sample_message _ sample_nonce] sample_sender_inv
    by (auto simp: sample_sender_state thread_start_def)
qed

end
