(* ===== verification/Mclogd.thy ===== *)
theory Mclogd
  imports Mclogger ConfigParse Logger FileLogger MulticastSender
begin

text \<open>
  \<open>apps/mclogd/mclogd.cc\<close>: the daemon that owns the components, wires them together as sinks of one
  another, and restarts or stops them on signals. The components are the global objects of the
  program; between signals they receive, queue, send and write, one event at a time. What the system
  answers is an argument of each step. What the program itself prints is left out, as is the fork of
  libDwm. The lemmas: how the components stay wired, so that what comes from the network is never sent
  back to it; and what a restart leaves behind.
\<close>

section \<open>The global objects\<close>

text \<open>The pointers handed to \<open>AddSink\<close> and \<open>Open\<close>.\<close>

datatype daemon_sink = Sink_files | Sink_mcast | Sink_cerr

text \<open>The last three members are the process id files of the disk, the disk of the logs and the error stream.\<close>

record ('a4, 'a6, 'a, 'q, 'k, 'r, 'p) mclogd =
  md_config :: "('a4, 'a6) Config"
  md_loopbackReceiver :: "('a4, 'a6, daemon_sink) LoopbackReceiver"
  md_mcastSender :: "('a4, 'a6, 'a, 'q, 'k) MulticastSender"
  md_mcastReceiver :: "('a4, 'a6, 'a, daemon_sink, 'r) MulticastReceiver"
  md_fileLogger :: "'p FileLogger"
  md_logger :: "daemon_sink Logger"
  md_pidFile :: string
  md_pids :: "string \<rightharpoonup> string"
  md_disk :: disk
  md_cerr :: ostream

record ('a4, 'a6, 'a, 'q, 'p) daemon_ctx =
  dc_cfg :: "('a4, 'a6) cfg_env"
  dc_sender :: "('a4, 'a6, 'a, 'q) sender_ctx"
  dc_files :: "'p file_ctx"
  dc_io :: dwm_io
  dc_zone :: timezone

text \<open>Before \<open>main\<close>: \<open>key\<close> is the fresh key of the sender, \<open>cfg0\<close> a default-constructed configuration.\<close>

definition mclogd_globals ::
    "('a4, 'a6, 'a, 'q, 'p) daemon_ctx \<Rightarrow> bytes \<Rightarrow> ('a4, 'a6) Config \<Rightarrow> 'a UdpEndpoint \<Rightarrow> int \<times> int \<Rightarrow> (string \<rightharpoonup> string)
     \<Rightarrow> disk \<Rightarrow> ostream \<Rightarrow> ('a4, 'a6, 'a, 'q, 'k, 'r, 'p) mclogd" where
  "mclogd_globals c key cfg0 ep0 garbage pids dk os =
     \<lparr>md_config = cfg0, md_loopbackReceiver = LoopbackReceiver_new cfg0 garbage, md_mcastSender = MulticastSender_new (dc_sender c) key cfg0 ep0,
      md_mcastReceiver = MulticastReceiver_new cfg0, md_fileLogger = FileLogger_new (dc_files c), md_logger = Logger_new,
      md_pidFile = [], md_pids = pids, md_disk = dk, md_cerr = os\<rparr>"

text \<open>\<open>Process\<close> of the sinks.\<close>

definition daemon_process ::
    "('a4, 'a6, 'a, 'q, 'p) daemon_ctx \<Rightarrow> (daemon_sink, ('a4, 'a6, 'a, 'q, 'k, 'r, 'p) mclogd) sink_process" where
  "daemon_process c sink msg d =
     (case sink of
        Sink_files \<Rightarrow> let (ok, fl) = FileLogger_Process (dc_files c) msg (md_fileLogger d) in (ok, d\<lparr>md_fileLogger := fl\<rparr>)
      | Sink_mcast \<Rightarrow> let (ok, s) = MulticastSender_Process (dc_sender c) msg (md_mcastSender d) in (ok, d\<lparr>md_mcastSender := s\<rparr>)
      | Sink_cerr \<Rightarrow> let (ok, os) = OstreamSink_Process (dc_zone c) msg (md_cerr d) in (ok, d\<lparr>md_cerr := os\<rparr>))"

definition daemon_deliver ::
    "('a4, 'a6, 'a, 'q, 'p) daemon_ctx \<Rightarrow> (daemon_sink \<times> Message) list \<Rightarrow> ('a4, 'a6, 'a, 'q, 'k, 'r, 'p) mclogd
     \<Rightarrow> ('a4, 'a6, 'a, 'q, 'k, 'r, 'p) mclogd" where
  "daemon_deliver c out d = foldl (\<lambda>d (sink, msg). snd (daemon_process c sink msg d)) d out"

section \<open>Restart\<close>

text \<open>
  What a restart meets: the contents of the configuration file, the steps the threads still make while
  they are joined, the sockets and pipes opened.
\<close>

record 'a restart_env =
  re_file :: "string option"
  re_file_events :: "file_event list"
  re_sender_events :: "'a send_env sender_event list"
  re_sender_open :: open_env
  re_receiver_open :: receiver_open_env
  re_pipe :: "(int \<times> int) option"

text \<open>\<open>None\<close>: a thread has not ended yet. \<open>Inl\<close>: an exception ends the process.\<close>

definition mclogd_Restart ::
    "('a4, 'a6, 'a, 'q, 'p) daemon_ctx \<Rightarrow> 'a restart_env \<Rightarrow> ('a4, 'a6, 'a, 'q, 'k, 'r, 'p) mclogd
     \<Rightarrow> (bool \<times> ('a4, 'a6, 'a, 'q, 'k, 'r, 'p) mclogd) result option" where
  "mclogd_Restart c e d =
     (let d1 = d\<lparr>md_loopbackReceiver := LoopbackReceiver_Stop (md_loopbackReceiver d)\<rparr>;
          (parsed, g) = Config_Parse (dc_cfg c) (re_file e) (md_config d1);
          d2 = d1\<lparr>md_config := g\<rparr>
      in case parsed of
           Inl ex \<Rightarrow> Some (Inl ex)
         | Inr False \<Rightarrow> Some (Inr (False, d2))
         | Inr True \<Rightarrow>
             (case FileLogger_Restart (dc_files c) (re_file_events e) (cf_files g) (md_fileLogger d2, md_disk d2) of
                None \<Rightarrow> None
              | Some (Inl ex, dk) \<Rightarrow> Some (Inl ex)
              | Some (Inr (False, fl), dk) \<Rightarrow> Some (Inr (False, d2\<lparr>md_fileLogger := fl, md_disk := dk\<rparr>))
              | Some (Inr (True, fl), dk) \<Rightarrow>
                  let d3 = d2\<lparr>md_fileLogger := fl, md_disk := dk\<rparr>
                  in case MulticastSender_Restart (dc_sender c) (re_sender_events e) (re_sender_open e) g (md_mcastSender d3) of
                       None \<Rightarrow> None
                     | Some (Inl ex) \<Rightarrow> Some (Inl ex)
                     | Some (Inr (False, s)) \<Rightarrow> Some (Inr (False, d3\<lparr>md_mcastSender := s\<rparr>))
                     | Some (Inr (True, s)) \<Rightarrow>
                         let d4 = d3\<lparr>md_mcastSender := s\<rparr>
                         in case Receiver_Restart (ce_addr (dc_cfg c)) (re_receiver_open e) g (md_mcastReceiver d4) of
                              Inl ex \<Rightarrow> Some (Inl ex)
                            | Inr (False, r) \<Rightarrow> Some (Inr (False, d4\<lparr>md_mcastReceiver := r\<rparr>))
                            | Inr (True, r) \<Rightarrow>
                                let d5 = d4\<lparr>md_mcastReceiver := r\<rparr>
                                in Some (map_sum (\<lambda>x. x) (\<lambda>(rc, l). (rc, d5\<lparr>md_loopbackReceiver := l\<rparr>))
                                     (LoopbackReceiver_Restart (re_pipe e) g (md_loopbackReceiver d5)))))"

section \<open>Starting up\<close>

definition SavePID :: "nat \<Rightarrow> bool \<Rightarrow> nat \<Rightarrow> string \<Rightarrow> ('a4, 'a6, 'a, 'q, 'k, 'r, 'p) mclogd \<Rightarrow> ('a4, 'a6, 'a, 'q, 'k, 'r, 'p) mclogd" where
  "SavePID pid opened written pidFile d =
     (let d1 = d\<lparr>md_pidFile := pidFile\<rparr>; pidstr = show_nat pid @ [CHR ''\<newline>'']
      in if opened then d1\<lparr>md_pids := (md_pids d1)(md_pidFile d1 \<mapsto> take written pidstr)\<rparr> else d1)"

definition RemovePID :: "('a4, 'a6, 'a, 'q, 'k, 'r, 'p) mclogd \<Rightarrow> ('a4, 'a6, 'a, 'q, 'k, 'r, 'p) mclogd" where
  "RemovePID d = (if md_pidFile d \<noteq> [] then d\<lparr>md_pids := (md_pids d)(md_pidFile d := None)\<rparr> else d)"

text \<open>Whether to become a daemon, debugging, the process id file, the configuration file; \<open>None\<close> is \<open>exit(1)\<close>.\<close>

fun mclogd_options ::
    "(char \<times> string) list \<Rightarrow> bool \<times> bool \<times> string \<times> string \<Rightarrow> (bool \<times> bool \<times> string \<times> string) option" where
  "mclogd_options [] settings = Some settings"
| "mclogd_options ((optChar, optarg) # opts) (daemonize, debug, pidFile, configPath) =
     (if optChar = CHR ''c'' then mclogd_options opts (daemonize, debug, pidFile, optarg)
      else if optChar = CHR ''d'' then mclogd_options opts (False, debug, pidFile, configPath)
      else if optChar = CHR ''D'' then mclogd_options opts (daemonize, True, pidFile, configPath)
      else if optChar = CHR ''p'' then mclogd_options opts (daemonize, debug, optarg, configPath)
      else None)"

record startup_env =
  se_process :: "daemon_sink process_env"
  se_files :: "string \<Rightarrow> string option"
  se_pid_opened :: bool
  se_pid_written :: nat
  se_sender_open :: open_env
  se_receiver_open :: receiver_open_env
  se_pipe :: "(int \<times> int) option"

text \<open>Up to the loop over the signals. What the operations return is not looked at.\<close>

definition mclogd_main ::
    "('a4, 'a6, 'a, 'q, 'p) daemon_ctx \<Rightarrow> startup_env \<Rightarrow> string \<Rightarrow> (char \<times> string) list \<Rightarrow> ('a4, 'a6, 'a, 'q, 'k, 'r, 'p) mclogd
     \<Rightarrow> ('a4, 'a6, 'a, 'q, 'k, 'r, 'p) mclogd program_end" where
  "mclogd_main c e default_path opts d =
     (case mclogd_options opts (True, False, ''/var/run/mclogd.pid'', default_path) of
        None \<Rightarrow> Exit 1
      | Some (daemonize, debug, pidFile, configPath) \<Rightarrow>
          let lg1 = (if \<not> debug then snd (Logger_MinimumSeverity sev_info (md_logger d)) else md_logger d);
              lg2 = Logger_LogLocations True lg1;
              sinks = (if daemonize \<or> \<not> debug then [Sink_files, Sink_mcast] else [Sink_files, Sink_mcast, Sink_cerr])
          in case Logger_Open (dc_io c) (se_process e) fac_local0 sinks None lg2 of
               (Inl ex, lg) \<Rightarrow> Uncaught ex
             | (Inr _, lg) \<Rightarrow>
                 (case Config_Parse (dc_cfg c) (se_files e configPath) (md_config d) of
                    (Inl ex, g) \<Rightarrow> Uncaught ex
                  | (Inr False, g) \<Rightarrow> Exit 0
                  | (Inr True, g) \<Rightarrow>
                      let d1 = SavePID (nat (pe_pid (se_process e))) (se_pid_opened e) (se_pid_written e) pidFile
                                 (d\<lparr>md_logger := lg, md_config := g\<rparr>)
                      in case MulticastSender_Open (dc_sender c) (se_sender_open e) g (md_mcastSender d1) of
                           Inl ex \<Rightarrow> Uncaught ex
                         | Inr (_, s) \<Rightarrow>
                             (case FileLogger_Start (dc_files c) (cf_files g) (md_fileLogger d1) of
                                Inl ex \<Rightarrow> Uncaught ex
                              | Inr (_, fl) \<Rightarrow>
                                  let l1 = snd (LoopbackReceiver_AddSink Sink_mcast (md_loopbackReceiver d1));
                                      l2 = snd (LoopbackReceiver_AddSink Sink_files l1)
                                  in case LoopbackReceiver_Start (se_pipe e) g l2 of
                                       Inl ex \<Rightarrow> Uncaught ex
                                     | Inr (_, l3) \<Rightarrow>
                                         let r1 = snd (Receiver_AddSink Sink_files (md_mcastReceiver d1))
                                         in case Receiver_Open (ce_addr (dc_cfg c)) (se_receiver_open e) g False r1 of
                                              Inl ex \<Rightarrow> Uncaught ex
                                            | Inr (_, r2) \<Rightarrow>
                                                Running (d1\<lparr>md_mcastSender := s, md_fileLogger := fl, md_loopbackReceiver := l3,
                                                            md_mcastReceiver := r2\<rparr>))))"

section \<open>Running\<close>

text \<open>
  What happens while \<open>main\<close> waits for a signal: the receivers' threads deliver messages, the program logs
  one of its own, the threads of the sender and of the file logger make a step; or \<open>SIGHUP\<close>.
\<close>

datatype 'a daemon_event =
    Local_messages "Message list"
  | Network_messages "Message list"
  | Own_log Timestamp severity string "string \<times> nat"
  | Sender_turn "'a send_env sender_event"
  | Files_turn file_event
  | Sighup "'a restart_env"

text \<open>\<open>None\<close>: the process has ended, or still waits for a thread to end.\<close>

fun daemon_step ::
    "('a4, 'a6, 'a, 'q, 'p) daemon_ctx \<Rightarrow> 'a daemon_event \<Rightarrow> ('a4, 'a6, 'a, 'q, 'k, 'r, 'p) mclogd
     \<Rightarrow> ('a4, 'a6, 'a, 'q, 'k, 'r, 'p) mclogd option" where
  "daemon_step c (Local_messages ms) d =
     Some (if lr_thread (md_loopbackReceiver d) then daemon_deliver c (deliver (Some (lr_sinks (md_loopbackReceiver d))) ms) d else d)"
| "daemon_step c (Network_messages ms) d =
     Some (if mr_thread (md_mcastReceiver d) then daemon_deliver c (deliver (Some (mr_sinks (md_mcastReceiver d))) ms) d else d)"
| "daemon_step c (Own_log now sev text loc) d =
     (case Logger_Log (dc_io c) (daemon_process c) now sev text loc (md_logger d) d of (Inl ex, d') \<Rightarrow> None | (Inr rc, d') \<Rightarrow> Some d')"
| "daemon_step c (Sender_turn ev) d = Some (d\<lparr>md_mcastSender := multicast_step (dc_sender c) (md_mcastSender d) ev\<rparr>)"
| "daemon_step c (Files_turn ev) d =
     (let (fl, dk) = FileLogger_Run (dc_files c) (md_fileLogger d, md_disk d) ev in Some (d\<lparr>md_fileLogger := fl, md_disk := dk\<rparr>))"
| "daemon_step c (Sighup e) d =
     (case mclogd_Restart c e d of Some (Inr (rc, d')) \<Rightarrow> Some d' | _ \<Rightarrow> None)"

fun daemon_run ::
    "('a4, 'a6, 'a, 'q, 'p) daemon_ctx \<Rightarrow> 'a daemon_event list \<Rightarrow> ('a4, 'a6, 'a, 'q, 'k, 'r, 'p) mclogd
     \<Rightarrow> ('a4, 'a6, 'a, 'q, 'k, 'r, 'p) mclogd option" where
  "daemon_run c [] d = Some d"
| "daemon_run c (ev # evs) d = Option.bind (daemon_step c ev d) (daemon_run c evs)"

text \<open>\<open>SIGTERM\<close> or \<open>SIGINT\<close>: stop all, then \<open>exit(0)\<close> with the function registered by \<open>atexit\<close>.\<close>

definition mclogd_shutdown ::
    "('a4, 'a6, 'a, 'q, 'p) daemon_ctx \<Rightarrow> 'a send_env sender_event list \<Rightarrow> file_event list \<Rightarrow> ('a4, 'a6, 'a, 'q, 'k, 'r, 'p) mclogd
     \<Rightarrow> ('a4, 'a6, 'a, 'q, 'k, 'r, 'p) mclogd option" where
  "mclogd_shutdown c sevs fevs d =
     (let d1 = d\<lparr>md_loopbackReceiver := LoopbackReceiver_Stop (md_loopbackReceiver d)\<rparr>
      in case MulticastSender_Close (dc_sender c) sevs (md_mcastSender d1) of
           None \<Rightarrow> None
         | Some s \<Rightarrow>
             let d2 = d1\<lparr>md_mcastSender := s\<rparr>
             in (case FileLogger_Stop (dc_files c) fevs (md_fileLogger d2, md_disk d2) of
                   None \<Rightarrow> None
                 | Some (_, fl, dk) \<Rightarrow>
                     let d3 = d2\<lparr>md_fileLogger := fl, md_disk := dk\<rparr>
                     in Some (RemovePID (d3\<lparr>md_mcastReceiver := Receiver_Close (md_mcastReceiver d3)\<rparr>))))"

section \<open>Frames of the operations\<close>

abbreviation sender_accepted :: "('a4, 'a6, 'a, 'q, 'k) MulticastSender \<Rightarrow> Message set" where
  "sender_accepted s \<equiv> set (th_accepted (mt_thread s))"

definition calls :: "'n sender_event list \<Rightarrow> Message set" where
  "calls evs = {m. Process_call m \<in> set evs}"

lemma Process_frame:
  "sender_accepted (snd (MulticastSender_Process c msg s)) \<subseteq> insert msg (sender_accepted s)"
  "mt_config (snd (MulticastSender_Process c msg s)) = mt_config s"
  by (auto simp: MulticastSender_Process_def PassesFilter_def enqueue_def Let_def split: prod.splits option.splits if_splits)

lemma sender_step_frame:
  "sender_accepted (multicast_step c s ev) \<subseteq> sender_accepted s \<union> calls [ev]"
  "mt_config (multicast_step c s ev) = mt_config s"
proof -
  have "sender_accepted (s\<lparr>mt_thread := MulticastSender_Run c s ev\<rparr>) \<subseteq> sender_accepted s \<union> calls [ev]" for ev
    using thread_step_accepted[of "xc_queue c" "xc_io c" "MulticastSender_SendPacket (xc_aead c) (mt_key s) (mt_fd s) (mt_fd6 s)
        (mt_dstEndpoint s) (mt_dstEndpoint6 s)" False "mt_thread s" ev]
    by (auto simp: MulticastSender_Run_def calls_def)
  then show "sender_accepted (multicast_step c s ev) \<subseteq> sender_accepted s \<union> calls [ev]"
    using Process_frame(1)[of c _ s] by (cases ev) (auto simp: multicast_step_def calls_def)
  show "mt_config (multicast_step c s ev) = mt_config s"
    by (cases ev) (simp_all add: multicast_step_def Process_frame(2))
qed

lemma sender_run_frame: "sender_accepted (run_events (multicast_step c) s evs) \<subseteq> sender_accepted s \<union> calls evs"
proof (induction evs arbitrary: s)
  case (Cons ev evs)
  then show ?case using sender_step_frame(1)[of c s ev] by (fastforce simp: calls_def)
qed simp

lemma sender_close_frame:
  assumes "MulticastSender_Close c evs s = Some s'"
  shows "sender_accepted s' \<subseteq> sender_accepted s \<union> calls evs"
proof -
  let ?s1 = "s\<lparr>mt_keyRequestListener := snd (Listener_Stop (mt_keyRequestListener s)), mt_thread := (mt_thread s)\<lparr>th_run := False\<rparr>\<rparr>"
  have "mt_thread s' = mt_thread (run_events (multicast_step c) ?s1 evs)"
    using assms by (auto simp: MulticastSender_Close_def Let_def split: if_splits)
  then show ?thesis using sender_run_frame[of c ?s1 evs] by simp
qed

lemma sender_open_frame:
  fixes s :: "('a4, 'a6, 'a, 'q, 'k) MulticastSender"
  assumes "MulticastSender_Open c e cfg s = Inr (rc, s')"
  shows "th_accepted (mt_thread s') = th_accepted (mt_thread s) \<and> mt_config s' = cfg"
proof -
  define drv where "drv = (if mc_outFilter (cf_mcast cfg) \<noteq> []
    then map_sum (\<lambda>x. x) Some (MessageFilterDriver_new (xc_rx c) (xc_msg c) (mc_outFilter (cf_mcast cfg))) else Inr None)"
  obtain d where d: "drv = Inr d"
    using assms by (auto simp: MulticastSender_Open_def Let_def simp flip: drv_def split: sum.splits)
  define s2 where "s2 = s\<lparr>mt_config := cfg, mt_dstEndpoint := UdpEndpoint (xc_ip4 c (mc_groupAddr (cf_mcast cfg))) (mc_dstPort (cf_mcast cfg)),
      mt_dstEndpoint6 := UdpEndpoint (xc_ip6 c (mc_groupAddr6 (cf_mcast cfg))) (mc_dstPort (cf_mcast cfg)), mt_filterDriver := d\<rparr>"
  define s3 where "s3 = (if MulticastConfig_ShouldSendIpv4 (xc_addr c) (cf_mcast cfg) \<and> mt_fd s2 < 0
      then snd (MulticastSender_OpenSocket (oe_v4 e) s2) else s2)"
  define t where "t = (if MulticastConfig_ShouldSendIpv6 (xc_addr c) (cf_mcast cfg) \<and> mt_fd6 s3 < 0
      then snd (MulticastSender_OpenSocket6 (oe_v6 e) s3) else s3)"
  have f: "mt_thread s2 = mt_thread s" "mt_config s2 = cfg" "mt_thread t = mt_thread s" "mt_config t = cfg"
    by (simp_all add: t_def s3_def s2_def OpenSocket_frame)
  have "MulticastSender_Open c e cfg s = (if \<not> ShouldRunSender (xc_addr c) (cf_mcast cfg) then Inr (True, s2)
      else if DesiredSocketsOpen c t then
      (case Listener_Start (oe_pipe e) (mt_fd t) (mt_fd6 t) (sc_keyDirectory (cf_service (mt_config t)))
             (mt_key t) (mt_keyRequestListener t) of
        Inl ex \<Rightarrow> Inl ex
      | Inr (started, l) \<Rightarrow>
          let s5 = t\<lparr>mt_keyRequestListener := l\<rparr>
          in if started then Inr (True, s5\<lparr>mt_thread := (mt_thread s5)\<lparr>th_run := True, th_pkt := packet_1200, th_pc := AtTop\<rparr>\<rparr>)
             else Inr (False, s5))
      else Inr (False, t))"
    using d unfolding MulticastSender_Open_def Let_def t_def s3_def s2_def drv_def by simp
  with assms f show ?thesis by (auto simp: Let_def split: if_splits sum.splits)
qed

lemma sender_restart_frame:
  assumes "MulticastSender_Restart c evs e cfg s = Some (Inr (rc, s'))"
  shows "sender_accepted s' \<subseteq> sender_accepted s \<union> calls evs" "mt_config s' = cfg"
proof -
  obtain t where t: "MulticastSender_Close c evs s = Some t" "MulticastSender_Open c e cfg t = Inr (rc, s')"
    using assms by (auto simp: MulticastSender_Restart_def)
  from sender_close_frame[OF t(1)] sender_open_frame[OF t(2)]
  show "sender_accepted s' \<subseteq> sender_accepted s \<union> calls evs" "mt_config s' = cfg" by simp_all
qed

text \<open>How far a restart gets.\<close>

lemma Restart_cases:
  fixes d :: "('a4, 'a6, 'a, 'q, 'k, 'r, 'p) mclogd"
  assumes "mclogd_Restart c e d = Some (Inr (rc, d'))"
  defines "d1 \<equiv> d\<lparr>md_loopbackReceiver := LoopbackReceiver_Stop (md_loopbackReceiver d)\<rparr>"
  obtains (refused) g where "Config_Parse (dc_cfg c) (re_file e) (md_config d) = (Inr False, g)" "\<not> rc" "d' = d1\<lparr>md_config := g\<rparr>"
  | (files) g fl dk where "\<not> rc" "d' = d1\<lparr>md_config := g, md_fileLogger := fl, md_disk := dk\<rparr>"
  | (sender) g fl dk s where "\<not> rc" "MulticastSender_Restart (dc_sender c) (re_sender_events e) (re_sender_open e) g (md_mcastSender d) = Some (Inr (False, s))"
      "d' = d1\<lparr>md_config := g, md_fileLogger := fl, md_disk := dk, md_mcastSender := s\<rparr>"
  | (receiver) g fl dk s rok r where "rok \<longrightarrow> Config_Parse (dc_cfg c) (re_file e) (md_config d) = (Inr True, g)"
      "MulticastSender_Restart (dc_sender c) (re_sender_events e) (re_sender_open e) g (md_mcastSender d) = Some (Inr (True, s))"
      "Receiver_Restart (ce_addr (dc_cfg c)) (re_receiver_open e) g (md_mcastReceiver d) = Inr (rok, r)"
      "if rok then \<exists>l. LoopbackReceiver_Restart (re_pipe e) g (md_loopbackReceiver d1) = Inr (rc, l)
          \<and> d' = d1\<lparr>md_config := g, md_fileLogger := fl, md_disk := dk, md_mcastSender := s, md_mcastReceiver := r, md_loopbackReceiver := l\<rparr>
       else \<not> rc \<and> d' = d1\<lparr>md_config := g, md_fileLogger := fl, md_disk := dk, md_mcastSender := s, md_mcastReceiver := r\<rparr>"
proof -
  obtain parsed g where p: "Config_Parse (dc_cfg c) (re_file e) (md_config d) = (parsed, g)" by (cases "Config_Parse (dc_cfg c) (re_file e) (md_config d)")
  note R = assms(1)[unfolded mclogd_Restart_def Let_def]
  show thesis
  proof (cases parsed)
    case (Inl ex)
    with R p show thesis by simp
  next
    case (Inr ok)
    show thesis
    proof (cases ok)
      case False
      with R p Inr show thesis by (intro refused) (auto simp: d1_def)
    next
      case True
      have p': "Config_Parse (dc_cfg c) (re_file e) (md_config d) = (Inr True, g)" using p Inr True by simp
      obtain fres dk where f: "FileLogger_Restart (dc_files c) (re_file_events e) (cf_files g) (md_fileLogger d, md_disk d) = Some (fres, dk)"
        using R p' by (auto split: option.splits)
      obtain fok fl where fl: "fres = Inr (fok, fl)" using R p' f by (cases fres) auto
      show thesis
      proof (cases fok)
        case False
        with R p' f fl show thesis by (intro files) (auto simp: d1_def)
      next
        case True
        obtain sres where s: "MulticastSender_Restart (dc_sender c) (re_sender_events e) (re_sender_open e) g (md_mcastSender d) = Some sres"
          using R p' f fl True by (auto split: option.splits)
        obtain sok s' where s': "sres = Inr (sok, s')" using R p' f fl True s by (cases sres) auto
        show thesis
        proof (cases sok)
          case False
          with R p' f fl True s s' show thesis by (intro sender) (auto simp: d1_def)
        next
          case sok: True
          obtain rok r where r: "Receiver_Restart (ce_addr (dc_cfg c)) (re_receiver_open e) g (md_mcastReceiver d) = Inr (rok, r)"
            using R p' f fl True s s' sok by (cases "Receiver_Restart (ce_addr (dc_cfg c)) (re_receiver_open e) g (md_mcastReceiver d)") auto
          show thesis
            by (rule receiver[of rok g s' r dk fl])
              (use R p' f fl True s s' sok r in \<open>auto simp: d1_def map_sum_def split: sum.splits bool.splits if_splits\<close>)
        qed
      qed
    qed
  qed
qed

lemma Receiver_Restart_keeps:
  "Receiver_Restart ad e cfg r = Inr (rc, r') \<Longrightarrow> mr_sinks r' = mr_sinks r \<and> mr_acceptLocal r' = mr_acceptLocal r \<and> mr_config r' = cfg"
  by (auto simp: Receiver_Restart_def Let_def Close_sinks dest!: Open_keeps)

lemma Loopback_frames:
  "lr_sinks (LoopbackReceiver_Stop l) = lr_sinks l" "\<not> lr_thread (LoopbackReceiver_Stop l)" "\<not> lr_run (LoopbackReceiver_Stop l)"
  "LoopbackReceiver_Start p cfg l = Inr (rc, l') \<Longrightarrow> lr_sinks l' = lr_sinks l \<and> lr_config l' = cfg"
  "LoopbackReceiver_Restart p cfg l = Inr (rc, l') \<Longrightarrow> lr_sinks l' = lr_sinks l \<and> lr_config l' = cfg \<and> (lr_thread l' \<longleftrightarrow> rc) \<and> (rc \<longrightarrow> lr_run l')"
  by (auto simp: LoopbackReceiver_Stop_def LoopbackReceiver_Start_def LoopbackReceiver_Restart_def Let_def split: option.splits if_splits)

section \<open>The wiring\<close>

definition wired :: "('a4, 'a6, 'a, 'q, 'k, 'r, 'p) mclogd \<Rightarrow> bool" where
  "wired d \<longleftrightarrow> lr_sinks (md_loopbackReceiver d) = [Sink_mcast, Sink_files] \<and> mr_sinks (md_mcastReceiver d) = [Sink_files]
     \<and> \<not> mr_acceptLocal (md_mcastReceiver d)"

lemma Restart_wired:
  assumes "mclogd_Restart c e d = Some (Inr (rc, d'))" "wired d"
  shows "wired d' \<and> md_logger d' = md_logger d
    \<and> sender_accepted (md_mcastSender d') \<subseteq> sender_accepted (md_mcastSender d) \<union> calls (re_sender_events e)"
  using assms(1)
proof (cases rule: Restart_cases)
  case (receiver g fl dk s rok r)
  have "sender_accepted s \<subseteq> sender_accepted (md_mcastSender d) \<union> calls (re_sender_events e)"
    using sender_restart_frame(1)[OF receiver(2)] .
  with receiver(4) Receiver_Restart_keeps[OF receiver(3)] assms(2) show ?thesis
    by (cases rok) (auto simp: wired_def Loopback_frames(1) dest!: Loopback_frames(5))
next
  case (sender g fl dk s)
  with sender_restart_frame(1)[OF sender(2)] assms(2) show ?thesis by (simp add: wired_def Loopback_frames)
qed (use assms(2) in \<open>simp_all add: wired_def Loopback_frames\<close>)

text \<open>Delivering changes only what the sinks hold; only the multicast sender's \<open>Process\<close> adds to what it has accepted.\<close>

lemma daemon_process_frame:
  "md_loopbackReceiver (snd (daemon_process c sink msg d)) = md_loopbackReceiver d"
  "md_mcastReceiver (snd (daemon_process c sink msg d)) = md_mcastReceiver d"
  "md_logger (snd (daemon_process c sink msg d)) = md_logger d"
  "sender_accepted (md_mcastSender (snd (daemon_process c sink msg d)))
     \<subseteq> sender_accepted (md_mcastSender d) \<union> (if sink = Sink_mcast then {msg} else {})"
  using Process_frame(1)[of "dc_sender c" msg "md_mcastSender d"]
  by (cases sink; auto simp: daemon_process_def split: prod.splits)+

lemma wired_process: "wired (snd (daemon_process c sink msg d)) = wired d"
  by (simp add: wired_def daemon_process_frame)

lemma deliver_frame:
  "wired d \<Longrightarrow> wired (daemon_deliver c out d) \<and> md_logger (daemon_deliver c out d) = md_logger d
   \<and> sender_accepted (md_mcastSender (daemon_deliver c out d)) \<subseteq> sender_accepted (md_mcastSender d) \<union> {m. (Sink_mcast, m) \<in> set out}"
proof (induction out arbitrary: d)
  case (Cons x out)
  obtain sink m where x: "x = (sink, m)" by (cases x)
  have "wired (snd (daemon_process c sink m d))" using Cons.prems by (simp add: wired_process)
  from Cons.IH[OF this] daemon_process_frame(3,4)[of c sink m d] show ?case
    by (auto simp: daemon_deliver_def x split: if_splits)
qed (simp add: daemon_deliver_def)

lemma process_sinks_frame:
  "wired d \<Longrightarrow> wired (snd (process_sinks (daemon_process c) m sinks rc d)) \<and> md_logger (snd (process_sinks (daemon_process c) m sinks rc d)) = md_logger d
   \<and> sender_accepted (md_mcastSender (snd (process_sinks (daemon_process c) m sinks rc d))) \<subseteq> insert m (sender_accepted (md_mcastSender d))"
proof (induction sinks arbitrary: rc d)
  case (Cons sink sinks)
  obtain ok d1 where o: "daemon_process c sink m d = (ok, d1)" by (cases "daemon_process c sink m d")
  have "wired d1" using Cons.prems wired_process[of c sink m d] o by simp
  from Cons.IH[OF this, of "rc \<and> ok"] daemon_process_frame(3,4)[of c sink m d] o show ?case by (auto split: if_splits)
qed auto

lemma own_log_frame:
  assumes "Logger_Log io (daemon_process c) now sev msg loc (md_logger d) d = (Inr rc, d')" "wired d"
  shows "wired d' \<and> md_logger d' = md_logger d
    \<and> sender_accepted (md_mcastSender d') \<subseteq> sender_accepted (md_mcastSender d) \<union> {m. origin (msg_header m) = lg_origin (md_logger d)}"
proof -
  let ?lg = "md_logger d"
  let ?hdr = "MessageHeader_new now (lg_facility ?lg) sev (lg_origin ?lg)"
  let ?new = "Message_new io ?hdr (located loc (lg_logLocations ?lg) msg)"
  show ?thesis
  proof (cases "lg_minimumSeverity ?lg < sev \<or> procid (lg_origin ?lg) = 0")
    case True
    then have "d' = d" using assms(1) by (auto simp: Logger_Log_def split: if_splits)
    with assms(2) show ?thesis by simp
  next
    case False
    show ?thesis
    proof (cases ?new)
      case (Inl ex)
      with False assms(1) show ?thesis by (simp add: Logger_Log_def Let_def)
    next
      case (Inr m)
      then have "msg_header m = ?hdr" by (auto simp: Message_new_def split: sum.splits)
      then have m: "origin (msg_header m) = lg_origin ?lg" by (simp add: MessageHeader_new_def)
      have "d' = snd (process_sinks (daemon_process c) m (lg_sinks ?lg) True d)"
        using False Inr assms(1) by (simp add: Logger_Log_def Let_def split: prod.splits)
      with process_sinks_frame[OF assms(2), of c m "lg_sinks ?lg" True] m show ?thesis by auto
    qed
  qed
qed

text \<open>
  The messages local applications bring; and that, while a thread runs, only the logger of the program calls
  \<open>Process\<close> of the multicast sender.
\<close>

definition local_of :: "'a daemon_event \<Rightarrow> Message list" where
  "local_of ev = (case ev of Local_messages ms \<Rightarrow> ms | _ \<Rightarrow> [])"

definition event_own :: "MessageOrigin \<Rightarrow> 'a daemon_event \<Rightarrow> bool" where
  "event_own org ev =
     (case ev of
        Sender_turn e \<Rightarrow> (\<forall>m. m \<in> calls [e] \<longrightarrow> origin (msg_header m) = org)
      | Sighup e \<Rightarrow> (\<forall>m. m \<in> calls (re_sender_events e) \<longrightarrow> origin (msg_header m) = org)
      | _ \<Rightarrow> True)"

lemma daemon_step_frame:
  assumes "daemon_step c ev d = Some d'" "wired d" "event_own (lg_origin (md_logger d)) ev"
  shows "wired d' \<and> md_logger d' = md_logger d
    \<and> sender_accepted (md_mcastSender d') \<subseteq> sender_accepted (md_mcastSender d)
        \<union> {m. origin (msg_header m) = lg_origin (md_logger d)} \<union> set (local_of ev)"
proof (cases ev)
  case (Local_messages ms)
  have "{m. (Sink_mcast, m) \<in> set (deliver (Some (lr_sinks (md_loopbackReceiver d))) ms)} \<subseteq> set ms" by (auto simp: deliver_def)
  with Local_messages assms(1,2) deliver_frame[OF assms(2), of c "deliver (Some (lr_sinks (md_loopbackReceiver d))) ms"]
  show ?thesis by (auto simp: local_of_def split: if_splits)
next
  case (Network_messages ms)
  have "{m. (Sink_mcast, m) \<in> set (deliver (Some (mr_sinks (md_mcastReceiver d))) ms)} = {}"
    using assms(2) by (auto simp: deliver_def wired_def)
  with Network_messages assms(1,2) deliver_frame[OF assms(2), of c "deliver (Some (mr_sinks (md_mcastReceiver d))) ms"]
  show ?thesis by (auto split: if_splits)
next
  case (Own_log now sev msg loc)
  with assms(1) obtain rc where "Logger_Log (dc_io c) (daemon_process c) now sev msg loc (md_logger d) d = (Inr rc, d')"
    by (auto split: prod.splits sum.splits)
  from own_log_frame[OF this assms(2)] show ?thesis by auto
next
  case (Sender_turn e)
  with assms sender_step_frame(1)[of "dc_sender c" "md_mcastSender d" e] show ?thesis
    by (auto simp: wired_def event_own_def)
next
  case (Files_turn e)
  with assms show ?thesis by (auto simp: wired_def split: prod.splits)
next
  case (Sighup e)
  with assms(1) obtain rc where "mclogd_Restart c e d = Some (Inr (rc, d'))"
    by (auto split: option.splits sum.splits prod.splits)
  from Restart_wired[OF this assms(2)] assms(3) show ?thesis by (auto simp: Sighup event_own_def)
qed

lemma daemon_run_frame:
  assumes "wired d" "daemon_run c evs d = Some d'" "list_all (event_own (lg_origin (md_logger d))) evs"
  shows "wired d' \<and> sender_accepted (md_mcastSender d') \<subseteq> sender_accepted (md_mcastSender d)
        \<union> {m. origin (msg_header m) = lg_origin (md_logger d)} \<union> set (concat (map local_of evs))"
  using assms
proof (induction evs arbitrary: d)
  case (Cons ev evs)
  obtain d1 where d1: "daemon_step c ev d = Some d1" "daemon_run c evs d1 = Some d'"
    using Cons.prems(2) by (auto simp: bind_eq_Some_conv)
  from daemon_step_frame[OF d1(1) Cons.prems(1)] Cons.prems(3)
  have s: "wired d1" "md_logger d1 = md_logger d" "sender_accepted (md_mcastSender d1) \<subseteq> sender_accepted (md_mcastSender d)
        \<union> {m. origin (msg_header m) = lg_origin (md_logger d)} \<union> set (local_of ev)" by simp_all
  from Cons.IH[OF s(1) d1(2)] Cons.prems(3) s show ?case by auto
qed simp

lemma main_Running:
  fixes d :: "('a4, 'a6, 'a, 'q, 'k, 'r, 'p) mclogd"
  assumes "mclogd_main c e path opts (mclogd_globals c key cfg0 ep0 garbage pids dk os) = Running d"
  shows "wired d \<and> sender_accepted (md_mcastSender d) = {}"
proof -
  define d0 :: "('a4, 'a6, 'a, 'q, 'k, 'r, 'p) mclogd" where "d0 = mclogd_globals c key cfg0 ep0 garbage pids dk os"
  note R = assms[folded d0_def, unfolded mclogd_main_def Let_def]
  obtain daemonize debug pidFile configPath where o: "mclogd_options opts (True, False, ''/var/run/mclogd.pid'', path) = Some (daemonize, debug, pidFile, configPath)"
    using R by (cases "mclogd_options opts (True, False, ''/var/run/mclogd.pid'', path)") auto
  define sinks where "sinks = (if daemonize \<or> \<not> debug then [Sink_files, Sink_mcast] else [Sink_files, Sink_mcast, Sink_cerr])"
  define lg2 where "lg2 = Logger_LogLocations True (if \<not> debug then snd (Logger_MinimumSeverity sev_info (md_logger d0)) else md_logger d0)"
  note R = R[unfolded o option.case prod.case, folded sinks_def lg2_def]
  obtain lgr lg where lg: "Logger_Open (dc_io c) (se_process e) fac_local0 sinks None lg2 = (lgr, lg)"
    by (cases "Logger_Open (dc_io c) (se_process e) fac_local0 sinks None lg2")
  obtain b where b: "lgr = Inr b" using R lg by (cases lgr) auto
  obtain pr g where g: "Config_Parse (dc_cfg c) (se_files e configPath) (md_config d0) = (pr, g)"
    by (cases "Config_Parse (dc_cfg c) (se_files e configPath) (md_config d0)")
  have pr: "pr = Inr True" using R lg b g by (cases pr; cases "projr pr") auto
  define d1 where "d1 = SavePID (nat (pe_pid (se_process e))) (se_pid_opened e) (se_pid_written e) pidFile (d0\<lparr>md_logger := lg, md_config := g\<rparr>)"
  note R = R[unfolded lg b g pr prod.case sum.case bool.case, folded d1_def]
  have f: "md_mcastSender d1 = md_mcastSender d0" "md_loopbackReceiver d1 = md_loopbackReceiver d0" "md_mcastReceiver d1 = md_mcastReceiver d0"
    by (simp_all add: d1_def SavePID_def Let_def)
  obtain rc1 s where s: "MulticastSender_Open (dc_sender c) (se_sender_open e) g (md_mcastSender d1) = Inr (rc1, s)"
    using R by (cases "MulticastSender_Open (dc_sender c) (se_sender_open e) g (md_mcastSender d1)") auto
  obtain rc2 fl where fl: "FileLogger_Start (dc_files c) (cf_files g) (md_fileLogger d1) = Inr (rc2, fl)"
    using R s by (cases "FileLogger_Start (dc_files c) (cf_files g) (md_fileLogger d1)") auto
  let ?l2 = "snd (LoopbackReceiver_AddSink Sink_files (snd (LoopbackReceiver_AddSink Sink_mcast (md_loopbackReceiver d1))))"
  obtain rc3 l3 where l: "LoopbackReceiver_Start (se_pipe e) g ?l2 = Inr (rc3, l3)"
    using R s fl by (cases "LoopbackReceiver_Start (se_pipe e) g ?l2") auto
  let ?r1 = "snd (Receiver_AddSink Sink_files (md_mcastReceiver d1))"
  obtain rc4 r2 where r: "Receiver_Open (ce_addr (dc_cfg c)) (se_receiver_open e) g False ?r1 = Inr (rc4, r2)"
    using R s fl l by (cases "Receiver_Open (ce_addr (dc_cfg c)) (se_receiver_open e) g False ?r1") auto
  have d: "d = d1\<lparr>md_mcastSender := s, md_fileLogger := fl, md_loopbackReceiver := l3, md_mcastReceiver := r2\<rparr>"
    using R s fl l r by simp
  have "lr_sinks ?l2 = [Sink_mcast, Sink_files]" "mr_sinks ?r1 = [Sink_files]"
    by (simp_all add: f d0_def mclogd_globals_def LoopbackReceiver_AddSink_def LoopbackReceiver_new_def Receiver_AddSink_def
        MulticastReceiver_new_def add_sink_def)
  with Loopback_frames(4)[OF l] Open_keeps[OF r] sender_open_frame[OF s] show ?thesis
    by (simp add: d wired_def f d0_def mclogd_globals_def MulticastSender_new_def)
qed

section \<open>Properties\<close>

text \<open>
  C4. \<open>mclogd\<close> is no relay: from its start, through any messages, threads' steps and restarts, its components stay
  wired as \<open>main\<close> wired them, and every message the multicast sender has accepted was brought by a
  local application or is one of the daemon's own. What arrives from the network, in particular from another
  \<open>mclogd\<close>, is never sent on, so that no message can circulate.
\<close>

theorem daemon_forwards_nothing:
  assumes "mclogd_main c e path opts (mclogd_globals c key cfg0 ep0 garbage pids dk os) = Running d"
    "list_all (event_own (lg_origin (md_logger d))) evs" "daemon_run c evs d = Some d'"
  shows "wired d' \<and> sender_accepted (md_mcastSender d')
    \<subseteq> set (concat (map local_of evs)) \<union> {m. origin (msg_header m) = lg_origin (md_logger d)}"
proof -
  have m: "wired d" "sender_accepted (md_mcastSender d) = {}" using main_Running[OF assms(1)] by simp_all
  from daemon_run_frame[OF m(1) assms(3,2)] show ?thesis unfolding m(2) by (simp only: Un_empty_left Un_commute)
qed


text \<open>
  Where messages go while the daemon runs as wired: those of local applications are handed, in their order, to
  the multicast sender and to the file logger; those of the network to the file logger alone.
\<close>

theorem daemon_routes_messages:
  assumes "wired d" "lr_thread (md_loopbackReceiver d)" "mr_thread (md_mcastReceiver d)"
  shows "\<exists>d1 d2. daemon_step c (Local_messages ms) d = Some d1 \<and> daemon_step c (Network_messages ms) d = Some d2
    \<and> md_mcastSender d1 = foldl (\<lambda>s m. snd (MulticastSender_Process (dc_sender c) m s)) (md_mcastSender d) ms
    \<and> md_fileLogger d1 = foldl (\<lambda>fl m. snd (FileLogger_Process (dc_files c) m fl)) (md_fileLogger d) ms
    \<and> md_mcastSender d2 = md_mcastSender d
    \<and> md_fileLogger d2 = foldl (\<lambda>fl m. snd (FileLogger_Process (dc_files c) m fl)) (md_fileLogger d) ms"
proof -
  have one: "daemon_deliver c (deliver (Some [Sink_mcast, Sink_files]) ms) d =
      d\<lparr>md_mcastSender := foldl (\<lambda>s m. snd (MulticastSender_Process (dc_sender c) m s)) (md_mcastSender d) ms,
        md_fileLogger := foldl (\<lambda>fl m. snd (FileLogger_Process (dc_files c) m fl)) (md_fileLogger d) ms\<rparr>" for d :: "('a, 'b, 'c, 'd, 'e, 'f, 'g) mclogd"
    by (induction ms arbitrary: d) (simp_all add: daemon_deliver_def deliver_def daemon_process_def case_prod_beta)
  have two: "daemon_deliver c (deliver (Some [Sink_files]) ms) d =
      d\<lparr>md_fileLogger := foldl (\<lambda>fl m. snd (FileLogger_Process (dc_files c) m fl)) (md_fileLogger d) ms\<rparr>" for d :: "('a, 'b, 'c, 'd, 'e, 'f, 'g) mclogd"
    by (induction ms arbitrary: d) (simp_all add: daemon_deliver_def deliver_def daemon_process_def case_prod_beta)
  show ?thesis using assms by (simp add: wired_def one two)
qed

section \<open>Witnesses\<close>

definition sample_daemon_config :: "(nat, nat) Config" where
  "sample_daemon_config = sample_file_config\<lparr>cf_mcast := (cf_mcast sample_file_config)\<lparr>mc_intfAddr := 0\<rparr>\<rparr>"

definition sample_daemon_ctx :: "(nat, nat, nat, nat \<times> Message list, nat \<times> Message list) daemon_ctx" where
  "sample_daemon_ctx =
     \<lparr>dc_cfg = sample_cfg_env, dc_sender = sample_sender_ctx, dc_files = sample_file_ctx, dc_io = sample_io, dc_zone = sample_zone\<rparr>"

definition sample_startup :: startup_env where
  "sample_startup =
     \<lparr>se_process = \<lparr>pe_hostname = ''ns1.lab'', pe_progname = ''mclogd'', pe_pid = 17, pe_new_sender = Sink_cerr\<rparr>,
      se_files = [''mclogd.cfg'' \<mapsto> show_config (ce_addr sample_cfg_env) show_nat show_nat sample_daemon_config],
      se_pid_opened = True, se_pid_written = 3, se_sender_open = sample_open, se_receiver_open = sample_receiver_env, se_pipe = Some (8, 9)\<rparr>"

definition sample_globals :: "(nat, nat, nat, nat \<times> Message list, nat, nat, nat \<times> Message list) mclogd" where
  "sample_globals =
     mclogd_globals sample_daemon_ctx sample_key sample_file_config (UdpEndpoint 0 0) (0, 0) Map.empty sample_disk (os_growing [])"

lemma sample_daemon_parse: "Config_Parse sample_cfg_env (se_files sample_startup ''mclogd.cfg'') sample_file_config = (Inr True, sample_daemon_config)"
proof -
  have "config_ok sample_cfg_env sample_daemon_config"
    by (simp add: config_ok_def sample_daemon_config_def sample_file_config_def sample_cfg_env_def sample_addrs_def mcast_ok_def log_ok_def plain_filter_def
        quotable_def filter_name_def IsValidIpv4MulticastAddr_def IsValidIpv6MulticastAddr_def LogFileConfig_Init_def)
  from Config_Parse_shown[OF sample_cfg_laws this, of sample_file_config] show ?thesis
    by (simp add: sample_startup_def sample_daemon_config_def sample_file_config_def)
qed

lemma sample_main:
  obtains d where "mclogd_main sample_daemon_ctx sample_startup ''mclogd.cfg'' [] sample_globals = Running d"
proof -
  have lg: "\<exists>lg. Logger_Open sample_io (se_process sample_startup) fac_local0 sinks None s = (Inr True, lg)" for s sinks
    using Logger_Open_shape[OF sample_io_ok, of "se_process sample_startup" None fac_local0 sinks s] by (simp add: sample_startup_def)
  have s: "\<exists>s'. MulticastSender_Open sample_sender_ctx oe sample_daemon_config s = Inr (True, s')"
    for oe and s :: "(nat, nat, nat, nat \<times> Message list, nat) MulticastSender"
    by (simp add: MulticastSender_Open_def Let_def sample_daemon_config_def sample_file_config_def ShouldRunSender_def
        MulticastConfig_ShouldSendIpv4_def MulticastConfig_ShouldSendIpv6_def sample_sender_ctx_def sample_addr_def)
  have f: "\<exists>b fl. FileLogger_Start sample_file_ctx cfg (FileLogger_new sample_file_ctx) = Inr (b, fl)" for cfg
    by (auto simp: FileLogger_Start_def FileLogger_new_def Let_def)
  have l: "\<exists>b l. LoopbackReceiver_Start p cfg s = Inr (b, l)" if "\<not> lr_thread s" for p cfg and s :: "(nat, nat, daemon_sink) LoopbackReceiver"
    using that by (auto simp: LoopbackReceiver_Start_def Let_def split: option.split)
  have r: "\<exists>b r. Receiver_Open sample_addrs roe sample_daemon_config al s = Inr (b, r)"
    for roe al and s :: "(nat, nat, nat, daemon_sink, nat) MulticastReceiver"
    by (simp add: Receiver_Open_def Receiver_Open4_def Receiver_Open6_def Let_def sample_daemon_config_def sample_file_config_def sample_addrs_def) auto
  define lg where "lg = snd (Logger_Open sample_io (se_process sample_startup) fac_local0 [Sink_files, Sink_mcast] None
      (Logger_LogLocations True (snd (Logger_MinimumSeverity sev_info (md_logger sample_globals)))))"
  have lg': "Logger_Open sample_io (se_process sample_startup) fac_local0 [Sink_files, Sink_mcast] None
      (Logger_LogLocations True (snd (Logger_MinimumSeverity sev_info (md_logger sample_globals)))) = (Inr True, lg)"
    using lg[of "[Sink_files, Sink_mcast]" "Logger_LogLocations True (snd (Logger_MinimumSeverity sev_info (md_logger sample_globals)))"]
    by (auto simp: lg_def)
  define d1 where "d1 = SavePID (nat (pe_pid (se_process sample_startup))) (se_pid_opened sample_startup) (se_pid_written sample_startup)
      ''/var/run/mclogd.pid'' (sample_globals\<lparr>md_logger := lg, md_config := sample_daemon_config\<rparr>)"
  have fl: "md_fileLogger d1 = FileLogger_new sample_file_ctx" "\<not> lr_thread (md_loopbackReceiver d1)" "md_config sample_globals = sample_file_config"
    by (simp_all add: d1_def SavePID_def Let_def sample_globals_def mclogd_globals_def sample_daemon_ctx_def LoopbackReceiver_new_def)
  have c: "dc_io sample_daemon_ctx = sample_io" "dc_cfg sample_daemon_ctx = sample_cfg_env" "dc_sender sample_daemon_ctx = sample_sender_ctx"
    "dc_files sample_daemon_ctx = sample_file_ctx" "ce_addr sample_cfg_env = sample_addrs" by (simp_all add: sample_daemon_ctx_def sample_cfg_env_def)
  let ?l2 = "snd (LoopbackReceiver_AddSink Sink_files (snd (LoopbackReceiver_AddSink Sink_mcast (md_loopbackReceiver d1))))"
  have "\<not> lr_thread ?l2" using fl(2) by (simp add: LoopbackReceiver_AddSink_def case_prod_beta)
  from l[OF this, of "se_pipe sample_startup" sample_daemon_config] obtain bl l3 where
    l3: "LoopbackReceiver_Start (se_pipe sample_startup) sample_daemon_config ?l2 = Inr (bl, l3)" by auto
  obtain s' where s': "MulticastSender_Open sample_sender_ctx (se_sender_open sample_startup) sample_daemon_config (md_mcastSender d1) = Inr (True, s')"
    using s by blast
  obtain bf f' where f': "FileLogger_Start sample_file_ctx (cf_files sample_daemon_config) (md_fileLogger d1) = Inr (bf, f')"
    unfolding fl(1) using f[of "cf_files sample_daemon_config"] by blast
  obtain br r' where r': "Receiver_Open sample_addrs (se_receiver_open sample_startup) sample_daemon_config False
      (snd (Receiver_AddSink Sink_files (md_mcastReceiver d1))) = Inr (br, r')"
    using r by blast
  have o: "mclogd_options [] (True, False, ''/var/run/mclogd.pid'', ''mclogd.cfg'') = Some (True, False, ''/var/run/mclogd.pid'', ''mclogd.cfg'')"
    by simp
  show thesis
    by (rule that[of "d1\<lparr>md_mcastSender := s', md_fileLogger := f', md_loopbackReceiver := l3, md_mcastReceiver := r'\<rparr>"])
      (simp add: mclogd_main_def Let_def c lg' fl(3) sample_daemon_parse s' f' l3 r' flip: d1_def)
qed

lemma daemon_forwards_nothing_witness:
  "\<exists>d d'. mclogd_main sample_daemon_ctx sample_startup ''mclogd.cfg'' [] sample_globals = Running d
    \<and> daemon_run sample_daemon_ctx [Local_messages [sample_message], Network_messages [sample_message]] d = Some d' \<and> wired d'"
proof -
  obtain d where d: "mclogd_main sample_daemon_ctx sample_startup ''mclogd.cfg'' [] sample_globals = Running d" by (rule sample_main)
  let ?evs = "[Local_messages [sample_message], Network_messages [sample_message]] :: nat daemon_event list"
  obtain d' where d': "daemon_run sample_daemon_ctx ?evs d = Some d'" by simp
  have o: "list_all (event_own (lg_origin (md_logger d))) ?evs" by (simp add: event_own_def)
  from daemon_forwards_nothing[OF d[unfolded sample_globals_def] o d'] d d' show ?thesis by blast
qed


lemma daemon_routes_messages_witness:
  "\<exists>d1. daemon_step sample_daemon_ctx (Local_messages [sample_message])
       (sample_globals\<lparr>md_loopbackReceiver := (md_loopbackReceiver sample_globals)\<lparr>lr_thread := True, lr_sinks := [Sink_mcast, Sink_files]\<rparr>,
          md_mcastReceiver := (md_mcastReceiver sample_globals)\<lparr>mr_thread := True, mr_sinks := [Sink_files], mr_acceptLocal := False\<rparr>\<rparr>) = Some d1
     \<and> fl_accepted (md_fileLogger d1) = [sample_message]"
proof -
  let ?d = "sample_globals\<lparr>md_loopbackReceiver := (md_loopbackReceiver sample_globals)\<lparr>lr_thread := True, lr_sinks := [Sink_mcast, Sink_files]\<rparr>,
      md_mcastReceiver := (md_mcastReceiver sample_globals)\<lparr>mr_thread := True, mr_sinks := [Sink_files], mr_acceptLocal := False\<rparr>\<rparr>"
  have w: "wired ?d" "lr_thread (md_loopbackReceiver ?d)" "mr_thread (md_mcastReceiver ?d)" by (simp_all add: wired_def)
  have "fl_accepted (snd (FileLogger_Process sample_file_ctx sample_message (FileLogger_new sample_file_ctx))) = [sample_message]"
    by (simp add: FileLogger_Process_def FileLogger_new_def sample_file_ctx_def sample_swap_def sample_queue_def)
  then have "fl_accepted (snd (FileLogger_Process (dc_files sample_daemon_ctx) sample_message (md_fileLogger ?d))) = [sample_message]"
    by (simp add: sample_globals_def mclogd_globals_def sample_daemon_ctx_def)
  with daemon_routes_messages[OF w, of sample_daemon_ctx "[sample_message]"] show ?thesis by auto
qed

end
