(* ===== verification/UnixReceiver.thy ===== *)
theory UnixReceiver
  imports LoopbackReceiver
begin

text \<open>
  \<open>apps/mclogd/DwmMclogUnixReceiver.{hh,cc}\<close>: a receiver of datagrams on a socket of the file system. It is
  built into \<open>mclogd\<close>, whose \<open>main\<close> does not start it. Its sinks are queues; what it delivers is
  the list of what is pushed to which. One turn of the loop is one \<open>select\<close>. The
  lemma: of each datagram the first message is delivered, and what is left behind when the
  receiver ends.
\<close>

section \<open>State\<close>

text \<open>\<open>ur_path\<close> is no member: whether the socket's name exists in the file system.\<close>

record 's UnixReceiver =
  ur_ifd :: int
  ur_stopfds :: "int \<times> int"
  ur_run :: bool
  ur_thread :: bool
  ur_sinks :: "'s list"
  ur_path :: bool

definition UnixReceiver_Start :: "(int \<times> int) option \<Rightarrow> 's UnixReceiver \<Rightarrow> (bool \<times> 's UnixReceiver) result" where
  "UnixReceiver_Start p s =
     (let s1 = s\<lparr>ur_run := True\<rparr>
      in case p of
           Some fds \<Rightarrow> if ur_thread s1 then Inl Terminated else Inr (True, s1\<lparr>ur_stopfds := fds, ur_thread := True\<rparr>)
         | None \<Rightarrow> Inr (False, s1))"

definition UnixReceiver_Stop :: "'s UnixReceiver \<Rightarrow> 's UnixReceiver" where
  "UnixReceiver_Stop s =
     (let s1 = s\<lparr>ur_run := False\<rparr> in if ur_thread s1 then s1\<lparr>ur_thread := False, ur_stopfds := (-1, -1)\<rparr> else s1)"

definition UnixReceiver_Restart :: "(int \<times> int) option \<Rightarrow> 's UnixReceiver \<Rightarrow> (bool \<times> 's UnixReceiver) result" where
  "UnixReceiver_Restart p s = UnixReceiver_Start p (UnixReceiver_Stop s)"

definition UnixReceiver_AddSink :: "'s \<Rightarrow> 's UnixReceiver \<Rightarrow> bool \<times> 's UnixReceiver" where
  "UnixReceiver_AddSink sink s = (let (rc, sinks) = add_sink sink (ur_sinks s) in (rc, s\<lparr>ur_sinks := sinks\<rparr>))"

section \<open>The thread\<close>

text \<open>
  One turn: \<open>_run\<close> at the test of the loop, whether \<open>select\<close> found something, what \<open>recvfrom\<close>
  delivers if the socket is set (\<open>None\<close>, that it fails), and whether the pipe is set.
\<close>

record unix_turn =
  ut_run :: bool
  ut_selected :: bool
  ut_fd :: "bytes option option"
  ut_stop :: bool

text \<open>Whether the loop goes on, the \<open>Message\<close> of the loop, and what the sinks got. 1500 bytes are received at most.\<close>

definition UnixReceiver_turn :: "dwm_io \<Rightarrow> 's list \<Rightarrow> unix_turn \<Rightarrow> Message \<Rightarrow> bool \<times> Message \<times> ('s \<times> Message) list" where
  "UnixReceiver_turn io sinks t msg =
     (if ut_selected t then
        (case ut_fd t of
           Some recvd \<Rightarrow>
             (case recvd of
                Some d \<Rightarrow>
                  let r = take 1500 d
                  in if r \<noteq> [] then
                       let (msg', is) = Message_Read io (good r) msg
                       in (True, msg', if failb is then [] else map (\<lambda>sink. (sink, msg')) sinks)
                     else (True, msg, [])
              | None \<Rightarrow> (True, msg, []))
         | None \<Rightarrow> (\<not> ut_stop t, msg, []))
      else (True, msg, []))"

text \<open>\<open>None\<close>: the loop still runs when the turns are used up.\<close>

fun UnixReceiver_loop :: "dwm_io \<Rightarrow> 's list \<Rightarrow> unix_turn list \<Rightarrow> Message \<Rightarrow> ('s \<times> Message) list option" where
  "UnixReceiver_loop io sinks [] msg = None"
| "UnixReceiver_loop io sinks (t # ts) msg =
     (if ut_run t then
        let (on, msg', out) = UnixReceiver_turn io sinks t msg
        in if on then map_option ((@) out) (UnixReceiver_loop io sinks ts msg') else Some out
      else Some [])"

text \<open>\<open>bind\<close> fails when the name exists already; the name is removed in either case.\<close>

definition UnixReceiver_Run ::
    "dwm_io \<Rightarrow> int \<Rightarrow> bool \<Rightarrow> unix_turn list \<Rightarrow> Message \<Rightarrow> 's UnixReceiver \<Rightarrow> ('s UnixReceiver \<times> ('s \<times> Message) list) option" where
  "UnixReceiver_Run io socketrc bindrc ts msg s =
     (let s1 = s\<lparr>ur_ifd := socketrc\<rparr>
      in if 0 \<le> ur_ifd s1 then
           let bound = (bindrc \<and> \<not> ur_path s1)
           in map_option (\<lambda>out. (s1\<lparr>ur_ifd := -1, ur_path := False, ur_run := False\<rparr>, out))
                (if bound then UnixReceiver_loop io (ur_sinks s1) ts msg else Some [])
         else Some (s1\<lparr>ur_run := False\<rparr>, []))"

section \<open>Properties\<close>

definition unix_turn_of :: "bytes \<Rightarrow> unix_turn" where
  "unix_turn_of d = \<lparr>ut_run = True, ut_selected = True, ut_fd = Some (Some d), ut_stop = False\<rparr>"

definition unix_stop :: unix_turn where
  "unix_stop = \<lparr>ut_run = True, ut_selected = True, ut_fd = None, ut_stop = True\<rparr>"

lemma unix_loop_first:
  assumes "io_ok io" "\<forall>m\<in>set ms. message_ok m" "list_all2 (\<lambda>m d. length d \<le> 1500 \<and> (\<exists>r. d = Message_enc io m @ r)) ms ds"
  shows "UnixReceiver_loop io sinks (map unix_turn_of ds @ [unix_stop]) msg = Some (deliver (Some sinks) ms)"
  using assms(3,2)
proof (induction arbitrary: msg rule: list_all2_induct)
  case Nil
  then show ?case by (simp add: UnixReceiver_turn_def unix_stop_def deliver_def)
next
  case (Cons m ms d ds)
  then obtain r where d: "d = Message_enc io m @ r" "length d \<le> 1500" by auto
  have m: "message_ok m" using Cons.prems by simp
  have "Message_Read io (good d) msg = (m, good r)" unfolding d(1) using m by (rule message_codec.rd_wr[OF assms(1)])
  moreover have "d \<noteq> []" using message_codec.wr_nonempty[OF assms(1) m] by (simp add: d(1))
  ultimately have "UnixReceiver_turn io sinks (unix_turn_of d) msg = (True, m, map (\<lambda>sink. (sink, m)) sinks)"
    using d(2) by (simp add: UnixReceiver_turn_def unix_turn_of_def)
  moreover have "UnixReceiver_loop io sinks (map unix_turn_of ds @ [unix_stop]) m = Some (deliver (Some sinks) ms)"
    using Cons by simp
  ultimately show ?case by (simp add: deliver_def) (simp add: unix_turn_of_def)
qed

text \<open>
  A receiver on a socket of the file system hands each sink the first message of each datagram,
  whatever follows it in the datagram. However the attempt to bind the socket ends, its name is gone
  afterwards: the receiver of a process that cannot bind because another has the name takes the
  name away from the other.
\<close>

theorem unix_receiver_takes_first:
  assumes "io_ok io" "\<forall>m\<in>set ms. message_ok m" "list_all2 (\<lambda>m d. length d \<le> 1500 \<and> (\<exists>r. d = Message_enc io m @ r)) ms ds"
    "0 \<le> socketrc"
  shows "(\<not> ur_path s \<longrightarrow> (\<exists>s'. UnixReceiver_Run io socketrc True (map unix_turn_of ds @ [unix_stop]) msg s
             = Some (s', deliver (Some (ur_sinks s)) ms) \<and> \<not> ur_path s' \<and> ur_ifd s' < 0))
    \<and> (ur_path s \<longrightarrow> (\<exists>s'. UnixReceiver_Run io socketrc bindrc ts msg s = Some (s', []) \<and> \<not> ur_path s'))"
  using assms(4) by (simp add: UnixReceiver_Run_def Let_def unix_loop_first[OF assms(1-3)])

lemma unix_receiver_takes_first_witness:
  "\<exists>s'. UnixReceiver_Run sample_io 3 True [unix_turn_of (Message_enc sample_io sample_message @ ''rest''), unix_stop] sample_message
      \<lparr>ur_ifd = -1, ur_stopfds = (4, 5), ur_run = True, ur_thread = True, ur_sinks = [7 :: nat], ur_path = False\<rparr>
    = Some (s', [(7, sample_message)]) \<and> \<not> ur_path s'"
proof -
  let ?s = "\<lparr>ur_ifd = -1, ur_stopfds = (4, 5), ur_run = True, ur_thread = True, ur_sinks = [7 :: nat], ur_path = False\<rparr>"
  have d: "list_all2 (\<lambda>m d. length d \<le> 1500 \<and> (\<exists>r. d = Message_enc sample_io m @ r)) [sample_message] [Message_enc sample_io sample_message @ ''rest'']"
    by (simp add: sample_message_length)
  have "\<forall>m\<in>set [sample_message]. message_ok m" by (simp add: sample_message_ok)
  from unix_receiver_takes_first[OF sample_io_ok this d, of 3 ?s] show ?thesis by (simp add: deliver_def) blast
qed

end
