(* ===== verification/SpanStream.thy ===== *)
theory SpanStream
  imports Streams
begin

text \<open>
  \<open>spanstream.hh\<close>: the streams over a \<open>std::span\<close>, which the repository brings along for standard
  libraries that have none. The pointers of \<open>basic_streambuf\<close> are offsets from the start of the span,
  a null pointer is offset 0; the members of \<open>basic_streambuf\<close> and of the stream classes that the file
  inherits (\<open>sputn\<close>, \<open>sgetn\<close>, \<open>write\<close>, \<open>read\<close>, \<open>seekp\<close>, \<open>tellp\<close>, \<open>clear\<close>) are those of the standard.
  The lemmas: the buffer stays within the span under every operation, also for an arbitrary
  \<open>seekoff\<close>; the streams \<open>Streams\<close> has for a packet are what these classes compute.
\<close>

section \<open>The buffer\<close>

record openmode =
  om_in :: bool
  om_out :: bool
  om_ate :: bool

datatype seekdir = seek_beg | seek_cur | seek_end

text \<open>\<open>sb_data\<close> is the memory that \<open>_M_buf\<close> refers to; \<open>pbase\<close> and \<open>eback\<close> are its start.\<close>

record spanbuf =
  sb_mode :: openmode
  sb_data :: bytes
  sb_pptr :: nat
  sb_epptr :: nat
  sb_gptr :: nat
  sb_egptr :: nat

definition openmode_or :: "openmode \<Rightarrow> openmode \<Rightarrow> openmode" where
  "openmode_or a b = \<lparr>om_in = om_in a \<or> om_in b, om_out = om_out a \<or> om_out b, om_ate = om_ate a \<or> om_ate b\<rparr>"

definition mode_in :: openmode where "mode_in = \<lparr>om_in = True, om_out = False, om_ate = False\<rparr>"
definition mode_out :: openmode where "mode_out = \<lparr>om_in = False, om_out = True, om_ate = False\<rparr>"

definition spanbuf_of_mode :: "openmode \<Rightarrow> spanbuf" where
  "spanbuf_of_mode which =
     \<lparr>sb_mode = which, sb_data = [], sb_pptr = 0, sb_epptr = 0, sb_gptr = 0, sb_egptr = 0\<rparr>"

definition spanbuf_set_span :: "bytes \<Rightarrow> spanbuf \<Rightarrow> spanbuf" where
  "spanbuf_set_span s sb =
     (let sb1 = sb\<lparr>sb_data := s\<rparr>;
          sb2 = (if om_out (sb_mode sb1) then
                   let t = sb1\<lparr>sb_pptr := 0, sb_epptr := length s\<rparr>
                   in if om_ate (sb_mode sb1) then t\<lparr>sb_pptr := sb_pptr t + length s\<rparr> else t
                 else sb1)
      in if om_in (sb_mode sb1) then sb2\<lparr>sb_gptr := 0, sb_egptr := length s\<rparr> else sb2)"

definition spanbuf_new :: "bytes \<Rightarrow> openmode \<Rightarrow> spanbuf" where
  "spanbuf_new s which = spanbuf_set_span s (spanbuf_of_mode which)"

definition spanbuf_span :: "spanbuf \<Rightarrow> bytes" where
  "spanbuf_span sb = (if om_out (sb_mode sb) then take (sb_pptr sb) (sb_data sb) else sb_data sb)"

definition spanbuf_setbuf :: "bytes \<Rightarrow> spanbuf \<Rightarrow> spanbuf" where
  "spanbuf_setbuf s sb = spanbuf_set_span s sb"

text \<open>The move constructor copies; swapping exchanges the pointers, the mode and the span.\<close>

definition spanbuf_move :: "spanbuf \<Rightarrow> spanbuf" where
  "spanbuf_move rhs =
     \<lparr>sb_mode = sb_mode rhs, sb_data = sb_data rhs, sb_pptr = sb_pptr rhs, sb_epptr = sb_epptr rhs,
      sb_gptr = sb_gptr rhs, sb_egptr = sb_egptr rhs\<rparr>"

definition spanbuf_swap :: "spanbuf \<Rightarrow> spanbuf \<Rightarrow> spanbuf \<times> spanbuf" where
  "spanbuf_swap a b =
     (a\<lparr>sb_pptr := sb_pptr b, sb_epptr := sb_epptr b, sb_gptr := sb_gptr b, sb_egptr := sb_egptr b,
        sb_mode := sb_mode b, sb_data := sb_data b\<rparr>,
      b\<lparr>sb_pptr := sb_pptr a, sb_epptr := sb_epptr a, sb_gptr := sb_gptr a, sb_egptr := sb_egptr a,
        sb_mode := sb_mode a, sb_data := sb_data a\<rparr>)"

definition spanbuf_assign :: "spanbuf \<Rightarrow> spanbuf \<Rightarrow> spanbuf" where
  "spanbuf_assign rhs sb = snd (spanbuf_swap (spanbuf_move rhs) sb)"

lemma spanbuf_assign_moves: "spanbuf_assign rhs sb = rhs"
  by (simp add: spanbuf_assign_def spanbuf_swap_def spanbuf_move_def)

section \<open>Seeking\<close>

text \<open>
  \<open>__builtin_add_overflow\<close> on the 64-bit \<open>off_type\<close>. The result is the new offset, -1 when it is refused.
\<close>

definition move_to :: "bool \<Rightarrow> bool \<Rightarrow> nat \<Rightarrow> spanbuf \<Rightarrow> spanbuf" where
  "move_to inp outp n sb =
     (let sb1 = (if inp then sb\<lparr>sb_gptr := n\<rparr> else sb)
      in if outp then sb1\<lparr>sb_pptr := n\<rparr> else sb1)"

definition seekoff :: "int \<Rightarrow> seekdir \<Rightarrow> openmode \<Rightarrow> spanbuf \<Rightarrow> int \<times> spanbuf" where
  "seekoff off way which sb =
     (if way = seek_beg then
        if 0 \<le> off \<and> off \<le> int (length (sb_data sb))
        then (off, move_to (om_in which) (om_out which) (nat off) sb)
        else (-1, sb)
      else
        case (if om_out which \<and> \<not> om_in which then Some (int (sb_pptr sb))
              else if way = seek_cur then
                (if om_in which \<and> \<not> om_out which then Some (int (sb_gptr sb)) else None)
              else Some (int (length (sb_data sb)))) of
          None \<Rightarrow> (-1, sb)
        | Some base \<Rightarrow>
            let off' = base + off
            in if \<not> (- (2 ^ 63) \<le> off' \<and> off' < 2 ^ 63) then (-1, sb)
               else if off' < 0 \<or> off' > int (length (sb_data sb)) then (-1, sb)
               else (off', move_to (om_in which) (om_out which) (nat off') sb))"

definition seekpos :: "int \<Rightarrow> openmode \<Rightarrow> spanbuf \<Rightarrow> int \<times> spanbuf" where
  "seekpos sp which sb = seekoff sp seek_beg which sb"

text \<open>\<open>sputn\<close> and \<open>sgetn\<close> of \<open>basic_streambuf\<close>: what fits, what is there.\<close>

definition sputn :: "bytes \<Rightarrow> spanbuf \<Rightarrow> nat \<times> spanbuf" where
  "sputn bs sb =
     (let w = take (sb_epptr sb - sb_pptr sb) bs
      in (length w, sb\<lparr>sb_data := take (sb_pptr sb) (sb_data sb) @ w @ drop (sb_pptr sb + length w) (sb_data sb),
                       sb_pptr := sb_pptr sb + length w\<rparr>))"

definition sgetn :: "nat \<Rightarrow> spanbuf \<Rightarrow> bytes \<times> spanbuf" where
  "sgetn n sb =
     (let r = take n (drop (sb_gptr sb) (take (sb_egptr sb) (sb_data sb)))
      in (r, sb\<lparr>sb_gptr := sb_gptr sb + length r\<rparr>))"

section \<open>The streams\<close>

record spanstream =
  ss_sb :: spanbuf
  ss_fail :: bool

definition spanstream_new :: "bytes \<Rightarrow> openmode \<Rightarrow> spanstream" where
  "spanstream_new s which = \<lparr>ss_sb = spanbuf_new s which, ss_fail = False\<rparr>"

definition ispanstream_new :: "bytes \<Rightarrow> openmode \<Rightarrow> spanstream" where
  "ispanstream_new s which = \<lparr>ss_sb = spanbuf_new s (openmode_or which mode_in), ss_fail = False\<rparr>"

definition ospanstream_new :: "bytes \<Rightarrow> openmode \<Rightarrow> spanstream" where
  "ospanstream_new s which = \<lparr>ss_sb = spanbuf_new s (openmode_or which mode_in), ss_fail = False\<rparr>"

definition spanstream_set_span :: "bytes \<Rightarrow> spanstream \<Rightarrow> spanstream" where
  "spanstream_set_span s ss = ss\<lparr>ss_sb := spanbuf_set_span s (ss_sb ss)\<rparr>"

definition spanstream_span :: "spanstream \<Rightarrow> bytes" where
  "spanstream_span ss = spanbuf_span (ss_sb ss)"

definition spanstream_swap :: "spanstream \<Rightarrow> spanstream \<Rightarrow> spanstream \<times> spanstream" where
  "spanstream_swap a b =
     (let (x, y) = spanbuf_swap (ss_sb a) (ss_sb b)
      in (\<lparr>ss_sb = x, ss_fail = ss_fail b\<rparr>, \<lparr>ss_sb = y, ss_fail = ss_fail a\<rparr>))"

text \<open>The defaulted move assignment: the state of the base classes, then the buffer.\<close>

definition spanstream_assign :: "spanstream \<Rightarrow> spanstream \<Rightarrow> spanstream" where
  "spanstream_assign rhs ss = ss\<lparr>ss_fail := ss_fail rhs, ss_sb := spanbuf_assign (ss_sb rhs) (ss_sb ss)\<rparr>"

definition ss_write :: "bytes \<Rightarrow> spanstream \<Rightarrow> spanstream" where
  "ss_write bs ss =
     (if ss_fail ss then ss
      else let (n, sb) = sputn bs (ss_sb ss) in \<lparr>ss_sb = sb, ss_fail = (n \<noteq> length bs)\<rparr>)"

definition ss_read :: "nat \<Rightarrow> spanstream \<Rightarrow> bytes \<times> spanstream" where
  "ss_read n ss =
     (if ss_fail ss then ([], ss)
      else let (r, sb) = sgetn n (ss_sb ss) in (r, \<lparr>ss_sb = sb, ss_fail = (length r \<noteq> n)\<rparr>))"

definition ss_seekp :: "int \<Rightarrow> spanstream \<Rightarrow> spanstream" where
  "ss_seekp p ss =
     (if ss_fail ss then ss
      else let (r, sb) = seekpos p mode_out (ss_sb ss) in \<lparr>ss_sb = sb, ss_fail = (r = -1)\<rparr>)"

definition ss_tellp :: "spanstream \<Rightarrow> int \<times> spanstream" where
  "ss_tellp ss =
     (if ss_fail ss then (-1, ss)
      else let (r, sb) = seekoff 0 seek_cur mode_out (ss_sb ss) in (r, ss\<lparr>ss_sb := sb\<rparr>))"

definition ss_clear :: "spanstream \<Rightarrow> spanstream" where
  "ss_clear ss = ss\<lparr>ss_fail := False\<rparr>"

section \<open>Staying within the span\<close>

definition spanbuf_inv :: "spanbuf \<Rightarrow> bool" where
  "spanbuf_inv sb \<longleftrightarrow> sb_epptr sb = length (sb_data sb) \<and> sb_egptr sb = length (sb_data sb)
     \<and> sb_pptr sb \<le> length (sb_data sb) \<and> sb_gptr sb \<le> length (sb_data sb)
     \<and> length (sb_data sb) < 2 ^ 63 \<and> om_in (sb_mode sb) \<and> om_out (sb_mode sb)"

lemma spanbuf_new_inv: "om_in m \<Longrightarrow> om_out m \<Longrightarrow> length s < 2 ^ 63 \<Longrightarrow> spanbuf_inv (spanbuf_new s m)"
  by (simp add: spanbuf_inv_def spanbuf_new_def spanbuf_set_span_def spanbuf_of_mode_def Let_def)

lemma move_to_inv: "spanbuf_inv sb \<Longrightarrow> n \<le> length (sb_data sb) \<Longrightarrow> spanbuf_inv (move_to i ou n sb) \<and> sb_data (move_to i ou n sb) = sb_data sb"
  by (simp add: spanbuf_inv_def move_to_def Let_def)

lemma seekoff_inv:
  assumes "spanbuf_inv sb"
  shows "spanbuf_inv (snd (seekoff off way which sb)) \<and> sb_data (snd (seekoff off way which sb)) = sb_data sb"
  using assms by (auto simp: seekoff_def Let_def move_to_inv nat_le_iff split: option.splits)

lemma sputn_inv: "spanbuf_inv sb \<Longrightarrow> spanbuf_inv (snd (sputn bs sb))"
  by (auto simp: spanbuf_inv_def sputn_def Let_def)

lemma sgetn_inv: "spanbuf_inv sb \<Longrightarrow> spanbuf_inv (snd (sgetn n sb))"
  by (auto simp: spanbuf_inv_def sgetn_def Let_def)

section \<open>The streams of a packet\<close>

text \<open>What \<open>Streams\<close> sees of a span stream: the side that is written, the side that is read.\<close>

definition ostream_of :: "spanstream \<Rightarrow> ostream" where
  "ostream_of ss = \<lparr>obuf = sb_data (ss_sb ss), opos = sb_pptr (ss_sb ss), olimit = Some (length (sb_data (ss_sb ss))), ofail = ss_fail ss\<rparr>"

definition istream_of :: "spanstream \<Rightarrow> istream" where
  "istream_of ss = \<lparr>inb = drop (sb_gptr (ss_sb ss)) (sb_data (ss_sb ss)), failb = ss_fail ss\<rparr>"

lemma spanstream_new_streams:
  assumes "om_in m" "om_out m" "\<not> om_ate m"
  shows "ostream_of (spanstream_new s m) = os_span s" "istream_of (spanstream_new s m) = good s"
  using assms by (simp_all add: ostream_of_def istream_of_def spanstream_new_def spanbuf_new_def spanbuf_set_span_def
      spanbuf_of_mode_def os_span_def good_def Let_def)

lemma ss_write_ostream: "spanbuf_inv (ss_sb ss) \<Longrightarrow> ostream_of (ss_write bs ss) = os_write bs (ostream_of ss)"
  by (auto simp: ostream_of_def ss_write_def os_write_def os_room_def sputn_def spanbuf_inv_def Let_def)

lemma ss_read_istream:
  "spanbuf_inv (ss_sb ss) \<Longrightarrow> fst (ss_read n ss) = fst (read_exact n (istream_of ss)) \<and> istream_of (snd (ss_read n ss)) = snd (read_exact n (istream_of ss))"
  by (auto simp: istream_of_def ss_read_def read_exact_def sgetn_def spanbuf_inv_def Let_def min_def add.commute)

lemma ss_seekp_ostream:
  "spanbuf_inv (ss_sb ss) \<Longrightarrow> p \<le> length (sb_data (ss_sb ss)) \<Longrightarrow> ostream_of (ss_seekp (int p) ss) = os_seekp p (ostream_of ss)"
  by (simp add: ostream_of_def ss_seekp_def os_seekp_def seekpos_def seekoff_def move_to_def mode_out_def Let_def)

lemma ss_tellp_ostream:
  "spanbuf_inv (ss_sb ss) \<Longrightarrow> ss_tellp ss = (if ss_fail ss then -1 else int (opos (ostream_of ss)), ss)"
  by (simp add: ostream_of_def ss_tellp_def seekoff_def move_to_def mode_out_def spanbuf_inv_def Let_def)

section \<open>Any use of a stream\<close>

datatype put_op = Put bytes | Seek nat | Clear_state

fun put_span :: "put_op \<Rightarrow> spanstream \<Rightarrow> spanstream" where
  "put_span (Put bs) ss = ss_write bs ss"
| "put_span (Seek n) ss = ss_seekp (int n) ss"
| "put_span Clear_state ss = ss_clear ss"

fun put_stream :: "put_op \<Rightarrow> ostream \<Rightarrow> ostream" where
  "put_stream (Put bs) os = os_write bs os"
| "put_stream (Seek n) os = os_seekp n os"
| "put_stream Clear_state os = os_clear os"

fun seek_within :: "nat \<Rightarrow> put_op \<Rightarrow> bool" where
  "seek_within m (Seek n) \<longleftrightarrow> n \<le> m"
| "seek_within m (Put bs) \<longleftrightarrow> True"
| "seek_within m Clear_state \<longleftrightarrow> True"

fun get_span :: "nat list \<Rightarrow> spanstream \<Rightarrow> bytes list \<times> spanstream" where
  "get_span [] ss = ([], ss)"
| "get_span (n # ns) ss = (let (b, s1) = ss_read n ss; (bs, s2) = get_span ns s1 in (b # bs, s2))"

fun get_stream :: "nat list \<Rightarrow> istream \<Rightarrow> bytes list \<times> istream" where
  "get_stream [] is = ([], is)"
| "get_stream (n # ns) is = (let (b, s1) = read_exact n is; (bs, s2) = get_stream ns s1 in (b # bs, s2))"

lemma put_span_inv:
  "spanbuf_inv (ss_sb ss) \<Longrightarrow> spanbuf_inv (ss_sb (put_span a ss)) \<and> length (sb_data (ss_sb (put_span a ss))) = length (sb_data (ss_sb ss))"
proof (cases a)
  case (Put bs)
  then show "spanbuf_inv (ss_sb ss) \<Longrightarrow> ?thesis"
    by (auto simp: ss_write_def sputn_def spanbuf_inv_def Let_def)
next
  case (Seek n)
  then show "spanbuf_inv (ss_sb ss) \<Longrightarrow> ?thesis" using seekoff_inv[of "ss_sb ss" "int n" seek_beg mode_out]
    by (simp add: ss_seekp_def seekpos_def split_beta Let_def)
qed (simp add: ss_clear_def)

lemma put_span_step:
  "spanbuf_inv (ss_sb ss) \<Longrightarrow> seek_within (length (sb_data (ss_sb ss))) a \<Longrightarrow> ostream_of (put_span a ss) = put_stream a (ostream_of ss)"
proof (cases a)
  case Clear_state
  then show ?thesis by (simp add: ss_clear_def ostream_of_def os_clear_def)
qed (simp_all add: ss_write_ostream ss_seekp_ostream)

lemma put_span_run:
  assumes "spanbuf_inv (ss_sb ss)" "list_all (seek_within (length (sb_data (ss_sb ss)))) ops"
  shows "ostream_of (fold put_span ops ss) = fold put_stream ops (ostream_of ss) \<and> spanbuf_inv (ss_sb (fold put_span ops ss))"
  using assms
proof (induction ops arbitrary: ss)
  case (Cons a ops)
  then show ?case using put_span_inv[of ss a] put_span_step[of ss a] by simp
qed simp

lemma get_span_run:
  "spanbuf_inv (ss_sb ss) \<Longrightarrow> fst (get_span ns ss) = fst (get_stream ns (istream_of ss)) \<and> istream_of (snd (get_span ns ss)) = snd (get_stream ns (istream_of ss))"
proof (induction ns arbitrary: ss)
  case (Cons n ns)
  have "spanbuf_inv (ss_sb (snd (ss_read n ss)))" using Cons.prems sgetn_inv[of "ss_sb ss" n]
    by (simp add: ss_read_def split_beta Let_def)
  from Cons.IH[OF this] ss_read_istream[OF Cons.prems, of n] show ?case by (simp add: split_beta Let_def)
qed simp



text \<open>\<open>span()\<close> is what has been written, and the move assignment of a packet's payload gives it the new stream.\<close>

lemma spanstream_span_written:
  "om_out (sb_mode (ss_sb ss)) \<Longrightarrow> spanstream_span ss = take (opos (ostream_of ss)) (obuf (ostream_of ss))"
  by (simp add: spanstream_span_def spanbuf_span_def ostream_of_def)

lemma spanstream_assign_moves: "spanstream_assign rhs ss = rhs"
  by (simp add: spanstream_assign_def spanbuf_assign_moves)

text \<open>An output stream opened with a mode of its own is opened for input: nothing can be written to it.\<close>

lemma ospanstream_opened_for_input:
  "\<not> om_out m \<Longrightarrow> fst (sputn bs (ss_sb (ospanstream_new s m))) = 0"
  by (simp add: ospanstream_new_def spanbuf_new_def spanbuf_set_span_def spanbuf_of_mode_def sputn_def openmode_or_def mode_in_def Let_def)

end
