(* ===== verification/KeyBootstrap.thy ===== *)
theory KeyBootstrap
  imports MulticastSource KeyRequestListener
begin

text \<open>
  How a receiver comes to the key: \<open>MulticastSource::QueryForKey\<close> (\<open>MulticastSource\<close>,
  \<open>KeyRequester\<close>) on one host talks to the \<open>KeyRequestListener\<close> of the sender on the other,
  which serves other peers between the two packets of this one. The lemmas: what other peers send
  leaves the state kept for this one alone, unless it aborts the process; the query ends with the
  sender's key; and the packets that waited for it are delivered.
\<close>

section \<open>The listener among other peers\<close>

abbreviation to_peer :: "'a UdpEndpoint \<Rightarrow> 'a sends \<Rightarrow> 'a sends" where
  "to_peer r out \<equiv> filter (\<lambda>x. fst x = r) out"

text \<open>
  What a descriptor may have for the listener without touching \<open>r\<close>: a datagram of someone else,
  and not one of the 40 bytes on which \<open>MessagePacket\<close> aborts.
\<close>

definition calm :: "'a UdpEndpoint \<Rightarrow> ('a, 'k) received \<Rightarrow> bool" where
  "calm r x \<longleftrightarrow> (case x of Not_set \<Rightarrow> True | Recv_error \<Rightarrow> False | Received src d e kp \<Rightarrow> src \<noteq> r \<and> length d \<noteq> k_minPacketLen)"

definition calm_turn :: "'a UdpEndpoint \<Rightarrow> ('a, 'k) listen_turn \<Rightarrow> bool" where
  "calm_turn r t \<longleftrightarrow> \<not> lt_stop t \<and> calm r (lt_fd t) \<and> calm r (lt_fd6 t)"

text \<open>The turn in which \<open>d\<close> comes from \<open>r\<close> on the socket of its address family.\<close>

definition arrival :: "bool \<Rightarrow> 'a UdpEndpoint \<Rightarrow> bytes \<Rightarrow> 'a kx_env \<Rightarrow> 'k \<Rightarrow> ('a, 'k) listen_turn \<Rightarrow> ('a, 'k) listen_turn" where
  "arrival v4 r d e kp t =
     (if v4 then t\<lparr>lt_selected := True, lt_fd := Received r d e kp\<rparr> else t\<lparr>lt_selected := True, lt_fd6 := Received r d e kp\<rparr>)"

text \<open>Several turns, as \<open>Listener_Run\<close> makes them.\<close>

fun listener_turns :: "'k credence \<Rightarrow> ('a, 'k) listen_turn list \<Rightarrow> ('a, 'k) KeyRequestListener
     \<Rightarrow> (('a, 'k) KeyRequestListener \<times> 'a sends) result" where
  "listener_turns cr [] s = Inr (s, [])"
| "listener_turns cr (t # ts) s =
     (case Listener_turn cr t s of
        Inl ex \<Rightarrow> Inl ex
      | Inr (go, s', out) \<Rightarrow> if go then map_sum (\<lambda>x. x) (apsnd ((@) out)) (listener_turns cr ts s') else Inr (s', out))"

text \<open>What a turn leaves alone: all but the two lists of clients.\<close>

abbreviation wiring :: "('a, 'k) KeyRequestListener \<Rightarrow> string option \<times> bytes option \<times> int \<times> int \<times> bool" where
  "wiring s \<equiv> (kl_keyDir s, kl_mcastKey s, kl_fd s, kl_fd6 s, kl_run s)"

lemma handle_request_frame:
  "handle_request cr src d e kp s = Inr (s', out) \<Longrightarrow>
     wiring s' = wiring s \<and> (\<forall>r. r \<noteq> src \<longrightarrow> kl_clients s' r = kl_clients s r)"
  by (auto simp: handle_request_def Let_def split: sum.splits if_splits)

lemma handle_fd_frame:
  "handle_fd cr x s = Inr (s', out) \<Longrightarrow> wiring s' = wiring s"
  "handle_fd6 cr x s = Inr (s', out) \<Longrightarrow> wiring s' = wiring s"
  by (auto simp: handle_fd_def handle_fd6_def split: if_splits received.splits dest!: handle_request_frame)

lemma ClearExpired_frame:
  "wiring (Listener_ClearExpired now s) = wiring s"
  "kl_clients (Listener_ClearExpired now s) r = (case kl_clients s r of
      Some c \<Rightarrow> if cl_lastStateChangeTime c < now - 5 then None else Some c | None \<Rightarrow> None)"
  by (simp_all add: Listener_ClearExpired_def Let_def)

lemma Listener_turn_frame:
  assumes "Listener_turn cr t s = Inr (go, s', out)"
  shows "wiring s' = wiring s"
proof (cases "lt_selected t \<and> \<not> lt_stop t")
  case True
  with assms obtain s1 o1 s2 o2 where "handle_fd cr (lt_fd t) s = Inr (s1, o1)" "handle_fd6 cr (lt_fd6 t) s1 = Inr (s2, o2)"
    "s' = Listener_ClearExpired (lt_now t) s2"
    by (auto simp: Listener_turn_def split: sum.splits)
  then show ?thesis by (metis handle_fd_frame ClearExpired_frame(1))
qed (use assms in \<open>auto simp: Listener_turn_def Listener_ClearExpired_def Let_def split: if_splits\<close>)

lemma Listener_Run_turns:
  assumes "Listener_Listen s" "kl_run s" "lt_selected stop" "lt_stop stop" "\<forall>t\<in>set ts. \<not> lt_stop t"
  shows "Listener_Run cr (ts @ [stop]) s = Some (listener_turns cr ts s)"
  using assms(1,2,5)
proof (induction ts arbitrary: s)
  case Nil
  then show ?case using assms(3,4) by (subst Listener_Run.simps) (simp add: Listener_turn_def)
next
  case (Cons t ts)
  show ?case
  proof (cases "Listener_turn cr t s")
    case (Inl ex)
    with Cons.prems show ?thesis by (subst Listener_Run.simps) simp
  next
    case (Inr x)
    obtain go s' out where x: "x = (go, s', out)" by (cases x)
    have "Listener_Run cr (ts @ [stop]) s' = Some (listener_turns cr ts s')"
      using Cons Listener_turn_frame[of cr t s go s' out] Inr x by (auto simp: Listener_Listen_def)
    with Cons.prems Inr x show ?thesis by (subst Listener_Run.simps) (cases go; simp)
  qed
qed

lemma client_packet_returns:
  "length d \<noteq> k_minPacketLen \<Longrightarrow> \<exists>x. client_ProcessPacket cr e src d c = Inr x"
  by (cases "cl_state c")
     (auto simp: client_ProcessPacket_def client_KXKeySent_def read_id_and_sig_def MessagePacket_new_def k_lens Let_def
       simp del: split_paired_Ex split: sum.split id_and_sig.split prod.split)

lemma send_id_and_sig_to: "send_id_and_sig cr e dir txt k dst = (ok, out) \<Longrightarrow> \<forall>x\<in>set out. fst x = dst"
  by (auto simp: send_id_and_sig_def SendTo_secret_def Let_def split: option.splits sum.splits prod.splits if_splits)

lemma client_sends_to:
  "client_ProcessPacket cr e src d c = Inr (rc, c', out) \<Longrightarrow> \<forall>x\<in>set out. fst x = src"
  by (auto simp: client_ProcessPacket_def client_Initial_def client_KXKeySent_def client_SendIdAndSig_def Let_def
      split: client_state.splits sum.splits id_and_sig.splits prod.splits if_splits dest!: send_id_and_sig_to)

lemma calm_request:
  assumes "src \<noteq> r" "length d \<noteq> k_minPacketLen"
  shows "\<exists>s' out. handle_request cr src d e kp s = Inr (s', out) \<and> wiring s' = wiring s
    \<and> kl_clients s' r = kl_clients s r \<and> to_peer r out = []"
proof -
  define c where "c = (case kl_clients s src of Some c \<Rightarrow> c
    | None \<Rightarrow> KeyRequestClientState_new (kx_now e) kp (the (kl_keyDir s)) (the (kl_mcastKey s)))"
  obtain rc c' out where k: "client_ProcessPacket cr e src d c = Inr (rc, c', out)"
    using client_packet_returns[OF assms(2)] by (metis prod_cases3)
  then have "to_peer r out = []" using client_sends_to[OF k] assms(1) by (auto simp: filter_empty_conv)
  moreover have "\<exists>s'. handle_request cr src d e kp s = Inr (s', out)"
    using k by (simp add: handle_request_def Let_def flip: c_def)
  then obtain s' where h: "handle_request cr src d e kp s = Inr (s', out)" by blast
  ultimately show ?thesis using handle_request_frame[OF h] assms(1) by auto
qed

lemma calm_fd:
  assumes "calm r x"
  shows "\<exists>s' out. handle_fd cr x s = Inr (s', out) \<and> wiring s' = wiring s \<and> kl_clients s' r = kl_clients s r \<and> to_peer r out = []"
    and "\<exists>s' out. handle_fd6 cr x s = Inr (s', out) \<and> wiring s' = wiring s \<and> kl_clients s' r = kl_clients s r \<and> to_peer r out = []"
proof -
  have "\<exists>s' out. handle_request cr src (take 1500 d) e kp s = Inr (s', out) \<and> wiring s' = wiring s
      \<and> kl_clients s' r = kl_clients s r \<and> to_peer r out = []" if "x = Received src d e kp" for src d e kp
    using assms that by (intro calm_request) (auto simp: calm_def k_lens)
  then show "\<exists>s' out. handle_fd cr x s = Inr (s', out) \<and> wiring s' = wiring s \<and> kl_clients s' r = kl_clients s r \<and> to_peer r out = []"
    "\<exists>s' out. handle_fd6 cr x s = Inr (s', out) \<and> wiring s' = wiring s \<and> kl_clients s' r = kl_clients s r \<and> to_peer r out = []"
    using assms by (cases x; simp add: handle_fd_def handle_fd6_def calm_def)+
qed

text \<open>The clock of a turn does not take the client of \<open>r\<close> away.\<close>

definition in_time :: "'a UdpEndpoint \<Rightarrow> ('a, 'k) KeyRequestListener \<Rightarrow> ('a, 'k) listen_turn \<Rightarrow> bool" where
  "in_time r s t \<longleftrightarrow> (\<forall>c. kl_clients s r = Some c \<longrightarrow> lt_now t - 5 \<le> cl_lastStateChangeTime c)"

lemma calm_turn_frame:
  assumes "calm_turn r t" "in_time r s t"
  shows "\<exists>s' out. Listener_turn cr t s = Inr (True, s', out) \<and> wiring s' = wiring s \<and> kl_clients s' r = kl_clients s r
    \<and> to_peer r out = []"
proof (cases "lt_selected t")
  case True
  obtain s1 o1 where 1: "handle_fd cr (lt_fd t) s = Inr (s1, o1)" "wiring s1 = wiring s" "kl_clients s1 r = kl_clients s r"
    "to_peer r o1 = []" using calm_fd(1)[of r "lt_fd t" cr s] assms(1) by (auto simp: calm_turn_def)
  obtain s2 o2 where 2: "handle_fd6 cr (lt_fd6 t) s1 = Inr (s2, o2)" "wiring s2 = wiring s1" "kl_clients s2 r = kl_clients s1 r"
    "to_peer r o2 = []" using calm_fd(2)[of r "lt_fd6 t" cr s1] assms(1) by (auto simp: calm_turn_def)
  have "Listener_turn cr t s = Inr (True, Listener_ClearExpired (lt_now t) s2, o1 @ o2)"
    using True 1(1) 2(1) assms(1) by (simp add: Listener_turn_def calm_turn_def)
  moreover have "kl_clients (Listener_ClearExpired (lt_now t) s2) r = kl_clients s r"
    using 1(3) 2(3) assms(2) by (auto simp: ClearExpired_frame(2) in_time_def split: option.split)
  ultimately show ?thesis using 1 2 ClearExpired_frame(1)[of "lt_now t" s2] by auto
next
  case False
  have "kl_clients (Listener_ClearExpired (lt_now t) s) r = kl_clients s r"
    using assms(2) by (auto simp: ClearExpired_frame(2) in_time_def split: option.split)
  with False show ?thesis using ClearExpired_frame(1)[of "lt_now t" s] by (auto simp: Listener_turn_def)
qed

lemma calm_turns_frame:
  assumes "\<forall>t\<in>set ts. calm_turn r t \<and> in_time r s t"
  shows "\<exists>s' out. (\<forall>ts'. listener_turns cr (ts @ ts') s = map_sum (\<lambda>x. x) (apsnd ((@) out)) (listener_turns cr ts' s'))
    \<and> wiring s' = wiring s \<and> kl_clients s' r = kl_clients s r \<and> to_peer r out = []"
  using assms
proof (induction ts arbitrary: s)
  case Nil
  have "listener_turns cr ts' s = map_sum (\<lambda>x. x) (apsnd ((@) [])) (listener_turns cr ts' s)" for ts'
    by (cases "listener_turns cr ts' s") (auto simp: apsnd_def map_prod_def)
  then show ?case by (metis append_Nil filter.simps(1))
next
  case (Cons t ts)
  obtain s1 o1 where 1: "Listener_turn cr t s = Inr (True, s1, o1)" "wiring s1 = wiring s" "kl_clients s1 r = kl_clients s r"
    "to_peer r o1 = []" using calm_turn_frame[of r t s cr] Cons.prems by auto
  then have "\<forall>t\<in>set ts. calm_turn r t \<and> in_time r s1 t" using Cons.prems by (simp add: in_time_def)
  then obtain s' o2 where 2: "\<And>ts'. listener_turns cr (ts @ ts') s1 = map_sum (\<lambda>x. x) (apsnd ((@) o2)) (listener_turns cr ts' s')"
    "wiring s' = wiring s1" "kl_clients s' r = kl_clients s1 r" "to_peer r o2 = []" using Cons.IH[of s1] by blast
  have "listener_turns cr ((t # ts) @ ts') s = map_sum (\<lambda>x. x) (apsnd ((@) (o1 @ o2))) (listener_turns cr ts' s')" for ts'
    using 1(1) 2(1) by (cases "listener_turns cr ts' s'") (auto simp: apsnd_def map_prod_def)
  moreover have "to_peer r (o1 @ o2) = []" using 1(4) 2(4) by simp
  ultimately show ?case using 1(2,3) 2(2,3) by metis
qed

text \<open>The turn that brings a packet of \<open>r\<close>.\<close>

abbreviation client_for ::
    "'a UdpEndpoint \<Rightarrow> 'a kx_env \<Rightarrow> 'k \<Rightarrow> ('a, 'k) KeyRequestListener \<Rightarrow> 'k KeyRequestClientState" where
  "client_for r e kp s \<equiv> (case kl_clients s r of Some c \<Rightarrow> c
     | None \<Rightarrow> KeyRequestClientState_new (kx_now e) kp (the (kl_keyDir s)) (the (kl_mcastKey s)))"

lemma peer_request:
  assumes "client_ProcessPacket cr e r d (client_for r e kp s) = Inr (True, c', out)"
  shows "\<exists>s'. handle_request cr r d e kp s = Inr (s', out) \<and> wiring s' = wiring s
    \<and> kl_clients s' r = (if client_Success c' then None else Some c')"
  using assms by (auto simp: handle_request_def Let_def)

lemma arrival_turn:
  assumes fd: "0 \<le> (if v4 then kl_fd s else kl_fd6 s)" and d: "d \<noteq> []" "length d \<le> 1500" and t: "calm_turn r t"
    and k: "client_ProcessPacket cr e r d (client_for r e kp s) = Inr (True, c', out)"
    and now: "client_Success c' \<or> lt_now t - 5 \<le> cl_lastStateChangeTime c'"
  shows "\<exists>s' out'. Listener_turn cr (arrival v4 r d e kp t) s = Inr (True, s', out') \<and> wiring s' = wiring s
    \<and> kl_clients s' r = (if client_Success c' then None else Some c') \<and> to_peer r out' = out"
proof -
  let ?now = "lt_now t"
  have out: "to_peer r out = out" using client_sends_to[OF k] by (simp add: filter_id_conv)
  have clear: "kl_clients (Listener_ClearExpired ?now s2) r = kl_clients s2 r"
    if "kl_clients s2 r = (if client_Success c' then None else Some c')" for s2 :: "('a, 'b) KeyRequestListener"
    using that now by (auto simp: ClearExpired_frame(2))
  show ?thesis
  proof (cases v4)
    case True
    obtain s1 where 1: "handle_request cr r d e kp s = Inr (s1, out)" "wiring s1 = wiring s"
      "kl_clients s1 r = (if client_Success c' then None else Some c')" using peer_request[OF k] by blast
    obtain s2 o2 where 2: "handle_fd6 cr (lt_fd6 t) s1 = Inr (s2, o2)" "wiring s2 = wiring s1" "kl_clients s2 r = kl_clients s1 r"
      "to_peer r o2 = []" using calm_fd(2)[of r "lt_fd6 t" cr s1] t by (auto simp: calm_turn_def)
    have "Listener_turn cr (arrival v4 r d e kp t) s = Inr (True, Listener_ClearExpired ?now s2, out @ o2)"
      using True fd d t 1(1) 2(1) by (simp add: Listener_turn_def arrival_def handle_fd_def calm_turn_def)
    then show ?thesis using 1 2 clear[of s2] out ClearExpired_frame(1)[of ?now s2] by simp
  next
    case False
    obtain s1 o1 where 1: "handle_fd cr (lt_fd t) s = Inr (s1, o1)" "wiring s1 = wiring s" "kl_clients s1 r = kl_clients s r"
      "to_peer r o1 = []" using calm_fd(1)[of r "lt_fd t" cr s] t by (auto simp: calm_turn_def)
    then have "client_ProcessPacket cr e r d (client_for r e kp s1) = Inr (True, c', out)" using k by (simp cong: option.case_cong)
    from peer_request[OF this] obtain s2 where 2: "handle_request cr r d e kp s1 = Inr (s2, out)" "wiring s2 = wiring s1"
      "kl_clients s2 r = (if client_Success c' then None else Some c')" by blast
    have "Listener_turn cr (arrival v4 r d e kp t) s = Inr (True, Listener_ClearExpired ?now s2, o1 @ out)"
      using False fd d t 1(1,2) 2(1) by (simp add: Listener_turn_def arrival_def handle_fd6_def calm_turn_def)
    then show ?thesis using 1 2 clear[of s2] out ClearExpired_frame(1)[of ?now s2] by simp
  qed
qed

section \<open>The query\<close>

text \<open>A host that gets a socket and whose packet is sent.\<close>

definition query_delivers :: "'a request_env \<Rightarrow> bool" where
  "query_delivers e \<longleftrightarrow> 0 \<le> re_socket e \<and> re_sendto e = (\<lambda>d _. int (length d))"

lemma request_packet_sent:
  assumes "length (enc_short (cr_io cr) 255 (cr_public cr kR)) \<le> 1500"
  shows "request_packet cr kR = (enc_short (cr_io cr) 255 (cr_public cr kR), int (length (enc_short (cr_io cr) 255 (cr_public cr kR))))"
  using os_write_fits[OF os_wf_span, of "replicate 1500 CHR 0x00" 1500 "enc_short (cr_io cr) 255 (cr_public cr kR)"] assms
  by (simp add: request_packet_def os_span_def Let_def)

lemma honest_query:
  fixes ep :: "'a UdpEndpoint"
  assumes e: "query_delivers qe" and l: "length (enc_short (cr_io cr) 255 (cr_public cr kR)) \<le> 1500"
    and d: "d1 \<noteq> []" "length d1 \<le> 1500" "d3 \<noteq> []" "length d3 \<le> 1500"
    and 1: "requester_ProcessPacket cr e2 ep d1 (requesting now kR (Port ep) dirR) = Inr (True, q1, [(ep, d2)])" "rq_state q1 = R_IDSent"
    and 2: "requester_ProcessPacket cr e4 ep d3 q1 = Inr (True, q2, [])" "rq_state q2 = R_Success"
    and ep: "ms_endpoint s = ep"
  shows "\<exists>s'. QueryForKey ip cr now kR fd6 dirR qe [Datagram ep d1 e2, Datagram ep d3 e4] s
      = Some (Inr (s', [(ep, enc_short (cr_io cr) 255 (cr_public cr kR)), (ep, d2)]))
    \<and> sk_value (ms_key s') = rq_mcastKey q2 \<and> ms_backlog s' = ms_backlog s \<and> ms_queryDone s'"
proof -
  have "request_loop cr ([] :: 'a request_event list) q2 = Some (Inr (q2, []))" using 2(2) by (subst request_loop.simps) simp
  then have "request_loop cr [Datagram ep d3 e4] q1 = Some (Inr (q2, []))"
    using 1(2) 2(1) d(3,4) by (subst request_loop.simps) simp
  then have "request_loop cr [Datagram ep d1 e2, Datagram ep d3 e4] (requesting now kR (Port ep) dirR) = Some (Inr (q2, [(ep, d2)]))"
    using 1(1) d(1,2) by (subst request_loop.simps) (simp add: requester_ChangeState_def)
  then show ?thesis using e request_packet_sent[OF l] 2(2) ep
    by (simp add: QueryForKey_def GetKey_def GetKey4_def GetKey6_def KeyRequester_new_def KeyRequesterState_new_def
        query_delivers_def request_result_def source_set_Key_def source_key_defs Let_def)
qed

section \<open>Both together\<close>

text \<open>
  The turns between which \<open>r\<close> sends its two packets: nobody else's packet comes from \<open>r\<close> or aborts, and
  the second packet comes within five seconds of the answer to the first.
\<close>

definition undisturbed ::
    "'a UdpEndpoint \<Rightarrow> int \<Rightarrow> ('a, 'k) listen_turn list \<Rightarrow> ('a, 'k) listen_turn \<Rightarrow> ('a, 'k) listen_turn list
     \<Rightarrow> ('a, 'k) listen_turn \<Rightarrow> bool" where
  "undisturbed r now before t1 between t2 \<longleftrightarrow>
     (\<forall>t\<in>set (before @ t1 # between @ [t2]). calm_turn r t) \<and> (\<forall>t\<in>set (t1 # between). lt_now t \<le> now + 5)"

lemma honest_listening:
  assumes aq: "acquainted cr kR kS dirR idR skR dirS idS skS mk" and e: "env_delivers e1" "env_delivers e3"
    and l: "length (enc_short (cr_io cr) 255 (cr_public cr kR)) \<le> 1500"
    and s0: "Listener_Start pfds fd fd6 dirS mk KeyRequestListener_new = Inr (True, s0)" "0 \<le> (if v4 then fd else fd6)"
    and u: "undisturbed r (kx_now e1) before t1 between t2" and stop: "lt_selected stop" "lt_stop stop"
    and d2: "vouches cr (cr_shared cr kS (cr_public cr kR)) dirS idR (cr_public cr kS) d2"
  shows "\<exists>s out d3. Listener_Run cr (before @ arrival v4 r (enc_short (cr_io cr) 255 (cr_public cr kR)) e1 kS t1
        # between @ [arrival v4 r d2 e3 kX t2, stop]) s0 = Some (Inr (s, out))
    \<and> to_peer r out = [(r, enc_short (cr_io cr) 255 (cr_public cr kS)), (r, d3)]
    \<and> vouches cr (cr_shared cr kS (cr_public cr kR)) dirR idS (cr_public cr kR @ mk) d3"
proof -
  let ?pR = "enc_short (cr_io cr) 255 (cr_public cr kR)" and ?pS = "enc_short (cr_io cr) 255 (cr_public cr kS)"
  let ?c1 = "keyed_client cr kR kS dirS mk (kx_now e1)"
  let ?a1 = "arrival v4 r ?pR e1 kS t1" and ?a2 = "arrival v4 r d2 e3 kX t2"
  have w0: "wiring s0 = (Some dirS, Some mk, fd, fd6, True)" "kl_clients s0 r = None"
    using s0(1) by (auto simp: Listener_Start_def KeyRequestListener_new_def Let_def split: if_splits option.splits)
  have ct: "\<forall>t\<in>set before. calm_turn r t" "calm_turn r t1" "\<forall>t\<in>set between. calm_turn r t" "calm_turn r t2"
    "lt_now t1 \<le> kx_now e1 + 5" "\<forall>t\<in>set between. lt_now t \<le> kx_now e1 + 5"
    using u by (auto simp: undisturbed_def)
  obtain s1 o1 where 1: "\<And>ts. listener_turns cr (before @ ts) s0 = map_sum (\<lambda>x. x) (apsnd ((@) o1)) (listener_turns cr ts s1)"
    "wiring s1 = wiring s0" "kl_clients s1 r = None" "to_peer r o1 = []"
    using calm_turns_frame[of before r s0 cr] ct(1) w0(2) by (auto simp: in_time_def)
  have "client_ProcessPacket cr e1 r ?pR (client_for r e1 kS s1) = Inr (True, ?c1, [(r, ?pS)])"
    using client_answers_request[OF aq e(1)] 1(2,3) w0(1) by simp
  from arrival_turn[OF _ public_key_read(2)[OF acquaintedD(1,3)[OF aq]] l ct(2) this, of v4] ct(5) 1(2) w0(1) s0(2)
  obtain s2 o2 where 2: "Listener_turn cr ?a1 s1 = Inr (True, s2, o2)" "wiring s2 = wiring s1" "kl_clients s2 r = Some ?c1"
    "to_peer r o2 = [(r, ?pS)]" by (auto simp: client_Success_def)
  have "\<forall>t\<in>set between. calm_turn r t \<and> in_time r s2 t" using ct(3,6) 2(3) by (auto simp: in_time_def)
  from calm_turns_frame[OF this, of cr] obtain s3 o3 where 3: "\<And>ts. listener_turns cr (between @ ts) s2 = map_sum (\<lambda>x. x) (apsnd ((@) o3)) (listener_turns cr ts s3)"
    "wiring s3 = wiring s2" "kl_clients s3 r = Some ?c1" "to_peer r o3 = []"
    unfolding 2(3) by blast
  obtain d3 c2 where d3: "client_ProcessPacket cr e3 r d2 ?c1 = Inr (True, c2, [(r, d3)])" "client_Success c2"
    "vouches cr (cr_shared cr kS (cr_public cr kR)) dirR idS (cr_public cr kR @ mk) d3"
    using client_answers_id[OF aq e(2) d2] by blast
  have "client_ProcessPacket cr e3 r d2 (client_for r e3 kX s3) = Inr (True, c2, [(r, d3)])" using d3(1) 3(3) by simp
  moreover have "0 \<le> (if v4 then kl_fd s3 else kl_fd6 s3)" using 1(2) 2(2) 3(2) w0(1) s0(2) by (cases v4) simp_all
  moreover have "d2 \<noteq> []" "length d2 \<le> 1500" using d2 by (auto simp: vouches_def)
  ultimately obtain s4 o4 where 4: "Listener_turn cr ?a2 s3 = Inr (True, s4, o4)" "to_peer r o4 = [(r, d3)]"
    using arrival_turn[of v4 s3 d2 r t2 cr e3 kX c2 "[(r, d3)]"] ct(4) d3(2) by blast
  have "listener_turns cr (before @ ?a1 # between @ [?a2]) s0 = Inr (s4, o1 @ o2 @ o3 @ o4)"
    by (simp add: 1(1) 2(1) 3(1) 4(1))
  moreover have "\<forall>t\<in>set (before @ ?a1 # between @ [?a2]). \<not> lt_stop t"
    using ct by (auto simp: calm_turn_def arrival_def)
  moreover have "Listener_Listen s0" "kl_run s0" using w0(1) s0(2) by (auto simp: Listener_Listen_def split: if_splits)
  ultimately have "Listener_Run cr ((before @ ?a1 # between @ [?a2]) @ [stop]) s0 = Some (Inr (s4, o1 @ o2 @ o3 @ o4))"
    using Listener_Run_turns[OF _ _ stop] by metis
  then show ?thesis using 1(4) 2(4) 3(4) 4(2) d3(3) by auto
qed

text \<open>
  C3. A receiver that starts to hear a sender gets its key and loses nothing: the packets that come
  before the key (at most 100, none waiting for five seconds) are kept and set off a query; if the
  two hosts know each other and their packets arrive, the query asks the listener of the sender,
  which answers both packets, the second coming within five seconds of the first, although it serves
  any number of others before and in between, as long as none of these sends the packet of 40 bytes
  that aborts the process; each side receives what the other sent; and the next packet
  delivers the messages of all the packets, in order, to every sink.
\<close>

theorem key_bootstrap:
  assumes "source_ctx_ok c" "aead_ok (sc_aead c)" "waits_for_key ps"
    and "list_all2 (\<lambda>p ms. carries c mk (snd p) ms) ps mss" "carries c mk d ms"
    and "acquainted cr kR kS dirR idR skR dirS idS skS mk" "length (enc_short (cr_io cr) 255 (cr_public cr kR)) \<le> 1500"
    and "query_delivers qe" "env_delivers e1" "env_delivers e2" "env_delivers e3"
    and "Listener_Start pfds fd fd6 dirS mk KeyRequestListener_new = Inr (True, l0)" "0 \<le> (if v4 then fd else fd6)"
    and "undisturbed r (kx_now e1) before t1 between t2" "lt_selected stop" "lt_stop stop"
  shows "\<exists>s1 s2 s3 l out req key d2 d3.
    source_packets c sinks ps (MulticastSource_new (sc_backlog c) ep) = Some (Inr (s1, [])) \<and> (ps = [] \<or> \<not> ms_queryDone s1)
    \<and> QueryForKey ip cr now kR fd6' dirR qe [Datagram ep key e2, Datagram ep d3 e4] s1 = Some (Inr (s2, [(ep, req), (ep, d2)]))
    \<and> Listener_Run cr (before @ arrival v4 r req e1 kS t1 # between @ [arrival v4 r d2 e3 kX t2, stop]) l0 = Some (Inr (l, out))
    \<and> to_peer r out = [(r, key), (r, d3)]
    \<and> Source_ProcessPacket c sinks e d s2 = Some (Inr (True, s3, deliver sinks (concat mss @ ms)))
    \<and> bl_items (sc_backlog c) (ms_backlog s3) = []"
proof -
  let ?req = "enc_short (cr_io cr) 255 (cr_public cr kR)" and ?key = "enc_short (cr_io cr) 255 (cr_public cr kS)"
  note aq = assms(6)
  obtain s1 where s1: "source_packets c sinks ps (MulticastSource_new (sc_backlog c) ep) = Some (Inr (s1, []))"
    "bl_items (sc_backlog c) (ms_backlog s1) = map entry_of ps" "ms_endpoint s1 = ep" "ps = [] \<or> \<not> ms_queryDone s1"
    using backlog_kept[OF assms(1-4), of sinks ep] by blast
  obtain d2 where d2: "requester_ProcessPacket cr e2 ep ?key (requesting now kR (Port ep) dirR)
      = Inr (True, keyed_requester cr kR kS now (Port ep) dirR, [(ep, d2)])"
    "vouches cr (cr_shared cr kS (cr_public cr kR)) dirS idR (cr_public cr kS) d2"
    using requester_answers_key[OF aq assms(10)] by blast
  obtain l out d3 where l: "Listener_Run cr (before @ arrival v4 r ?req e1 kS t1 # between @ [arrival v4 r d2 e3 kX t2, stop]) l0
      = Some (Inr (l, out))" "to_peer r out = [(r, ?key), (r, d3)]"
    "vouches cr (cr_shared cr kS (cr_public cr kR)) dirR idS (cr_public cr kR @ mk) d3"
    using honest_listening[OF aq assms(9,11,7,12-16) d2(2)] by blast
  obtain q where q: "requester_ProcessPacket cr e4 ep d3 (keyed_requester cr kR kS now (Port ep) dirR) = Inr (True, q, [])"
    "rq_state q = R_Success" "rq_mcastKey q = mk" using requester_takes_key[OF aq l(3)] by blast
  have key: "?key \<noteq> []" "length ?key \<le> 1500" using public_key_read(2)[OF acquaintedD(1,4)[OF aq]] acquaintedD(6)[OF aq] assms(7) by auto
  have "d3 \<noteq> []" "length d3 \<le> 1500" using l(3) by (auto simp: vouches_def)
  from honest_query[OF assms(8,7) key this d2(1) _ q(1,2) s1(3)] obtain s2 where
    s2: "QueryForKey ip cr now kR fd6' dirR qe [Datagram ep ?key e2, Datagram ep d3 e4] s1 = Some (Inr (s2, [(ep, ?req), (ep, d2)]))"
    "sk_value (ms_key s2) = mk" "ms_backlog s2 = ms_backlog s1" using q(3) by auto
  have "mk \<noteq> []" using acquaintedD(5)[OF aq] by auto
  then obtain s3 where "Source_ProcessPacket c sinks e d s2 = Some (Inr (True, s3, deliver sinks (concat mss @ ms)))"
    "bl_items (sc_backlog c) (ms_backlog s3) = []"
    using backlog_flushed[OF assms(1,2), of s2 ps mss d ms sinks e] s1(2) s2(2,3) assms(4,5) by auto
  with s1(1,4) s2(1) l(1,2) show ?thesis by blast
qed

section \<open>A concrete exchange\<close>

type_synonym host = "u32 + u128"

definition sample_wire :: "host kx_env" where
  "sample_wire = \<lparr>kx_now = 0, kx_nonce = replicate 24 CHR ''n'', kx_sendto = (\<lambda>d _. int (length d))\<rparr>"

definition sample_query :: "host request_env" where
  "sample_query = \<lparr>re_requested = 5, re_socket = 3, re_sendto = (\<lambda>d _. int (length d)), re_updated = 6\<rparr>"

definition sample_turn :: "(host, nat) received \<Rightarrow> int \<Rightarrow> (host, nat) listen_turn" where
  "sample_turn x now = \<lparr>lt_selected = True, lt_stop = False, lt_fd = x, lt_fd6 = Not_set, lt_now = now\<rparr>"

abbreviation requesting_host :: "host UdpEndpoint" where
  "requesting_host \<equiv> UdpEndpoint (Inl 1) 1024"

abbreviation serving_host :: "host UdpEndpoint" where
  "serving_host \<equiv> UdpEndpoint (Inl 2) 3737"

abbreviation another_peer :: "(host, nat) received" where
  "another_peer \<equiv> Received (UdpEndpoint (Inl 9) 9) ''x'' sample_wire 1"

lemma sample_undisturbed:
  "undisturbed requesting_host (kx_now sample_wire) [sample_turn another_peer 1] (sample_turn Not_set 2)
     [sample_turn another_peer 3, sample_turn Not_set 4] (sample_turn Not_set 5)"
  by (simp add: undisturbed_def calm_turn_def calm_def sample_turn_def sample_wire_def k_lens)

lemma sample_delivers: "env_delivers sample_wire" "query_delivers sample_query"
  by (simp_all add: env_delivers_def query_delivers_def sample_wire_def sample_query_def k_lens)

lemma sample_request_fits: "length (enc_short (cr_io sample_cr) 255 (cr_public sample_cr 0)) \<le> 1500"
  using show_nat_short[of 32] by (simp add: sample_cr_def sample_io_def sample_enc_str_def sample_enc_def)

lemma key_bootstrap_witness:
  "\<exists>s1 s2 s3 d3 out key.
    source_packets sample_ctx (Some [3 :: nat]) [(sample_env 100, sample_datagram)] (MulticastSource_new sample_backlog serving_host)
      = Some (Inr (s1, []))
    \<and> QueryForKey sample_ip sample_cr 5 0 9 ''r'' sample_query
        [Datagram serving_host key sample_wire, Datagram serving_host d3 sample_wire] s1 = Some (Inr (s2, out))
    \<and> Source_ProcessPacket sample_ctx (Some [3 :: nat]) (sample_env 103) sample_datagram s2
        = Some (Inr (True, s3, [(3, sample_message), (3, sample_message)]))"
proof -
  define l0 :: "(host, nat) KeyRequestListener"
    where "l0 = snd (projr (Listener_Start (Some (5, 6)) 3 (-1) ''s'' (replicate 32 CHR ''m'') KeyRequestListener_new))"
  have l0: "Listener_Start (Some (5, 6)) 3 (-1) ''s'' (replicate 32 CHR ''m'') KeyRequestListener_new = Inr (True, l0)"
    by (simp add: l0_def Listener_Start_def KeyRequestListener_new_def aead_KEYBYTES_def Let_def)
  have a: "aead_ok (sc_aead sample_ctx)" by (simp add: sample_ctx_def sample_aead_ok)
  have w: "waits_for_key [(sample_env 100, sample_datagram)]" by (simp add: waits_for_key_def sample_env_def seconds_def)
  have p: "list_all2 (\<lambda>p ms. carries sample_ctx (replicate 32 CHR ''m'') (snd p) ms) [(sample_env 100, sample_datagram)] [[sample_message]]"
    by (simp add: sample_carries)
  have v: "0 \<le> (if True then 3 else - 1 :: int)" by simp
  have stop: "lt_selected ((sample_turn Not_set 6)\<lparr>lt_stop := True\<rparr>)" "lt_stop ((sample_turn Not_set 6)\<lparr>lt_stop := True\<rparr>)"
    by (simp_all add: sample_turn_def)
  have b: "sc_backlog sample_ctx = sample_backlog" and d: "deliver (Some [3 :: nat]) (concat [[sample_message]] @ [sample_message])
      = [(3, sample_message), (3, sample_message)]" by (simp_all add: sample_ctx_def deliver_def)
  show ?thesis
    using key_bootstrap[OF sample_ctx_ok a w p sample_carries sample_acquainted sample_request_fits sample_delivers(2,1,1,1) l0 v
      sample_undisturbed stop, of "Some [3 :: nat]" serving_host sample_ip 5 9 sample_wire 1 "sample_env 103"]
    unfolding b d by blast
qed

end
