(* ===== verification/Spec2Isabelle.thy ===== *)
theory Spec2Isabelle
  imports LogContents Mclog Mclogd UnixReceiver SpanStream KeyBootstrap
begin

text \<open>
  A model of mclog, a system that logs the messages of a host's applications and shares them
  over the network by multicast.

  \<^bold>\<open>The program.\<close> An application calls \<open>Logger\<close>, whose sinks are the standard error stream, syslog and
  a \<open>LoopbackSender\<close>; the command \<open>mclogger\<close> does the same for one message. The daemon \<open>mclogd\<close> gets the
  packets of the local applications with its \<open>LoopbackReceiver\<close>, hands each message to its \<open>FileLogger\<close>, which
  writes it to the log files whose filter accepts it, and to its \<open>MulticastSender\<close>, which encrypts it
  and sends it to the multicast groups. A \<open>MulticastReceiver\<close>, in another \<open>mclogd\<close> or in the command \<open>mclog\<close>,
  keeps a \<open>MulticastSource\<close> for each sender it hears; the source asks the sender for its key by a
  \<open>KeyRequester\<close>, which the sender's \<open>KeyRequestListener\<close> answers to the peers it knows, and holds packets back
  until it has the key. A configuration file says what is sent, received and written; SIGHUP reads it again.

  \<^bold>\<open>The theories\<close>, with their sources in \<open>src/classes\<close> (\<open>include/DwmMclog<X>.hh\<close>, \<open>src/DwmMclog<X>.cc\<close>) and
  \<open>src/apps\<close>. A theory, its record of the state and its definitions bear the names of the class and its members;
  \<open>X_f\<close> is the member \<open>f\<close> of the class \<open>X\<close> where a bare \<open>f\<close> would be ambiguous.
  \<^item> \<open>Prelude\<close>: words, C++ exceptions as values (\<open>result\<close> is \<open>exn + 'a\<close>), decimal numbers, and the locales
    \<open>name_table\<close>, \<open>event_machine\<close> and \<open>sink_registry\<close>. \<open>Streams\<close>: \<open>std::istream\<close>, \<open>std::ostream\<close> and the locale
    \<open>stream_codec\<close> of the classes with a binary form. \<open>SpanStream\<close>: \<open>include/spanstream.hh\<close>, the streams of a packet.
  \<^item> \<open>Wire\<close>: the primitives of libDwm and libCredence the binary format is made of, as parameters.
    \<open>CTime\<close>: the calendar of the C library.
  \<^item> The data: \<open>SeverityFacility\<close>, \<open>Timestamp\<close>, \<open>MessageOrigin\<close>, \<open>Message\<close> (with \<open>MessageHeader\<close>), \<open>UdpEndpoint\<close>,
    \<open>MessagePacket\<close>.
  \<^item> \<open>MessageFilter\<close>: scanner, grammar and driver of the filter expressions (\<open>MessageFilterLex.lex\<close>,
    \<open>MessageFilterParse.y\<close>, \<open>MessageFilterDriver\<close>).
  \<^item> The files: \<open>RollInterval\<close> (with \<open>RollPeriod\<close>), \<open>LogFile\<close>, \<open>LogFiles\<close>, \<open>FileLogger\<close>; \<open>LogContents\<close> is the
    specification the last three refine together, a map from paths to contents.
  \<^item> The configuration: \<open>Config\<close> (\<open>Config.hh\<close> and the code behind the grammar), \<open>ConfigParse\<close> (\<open>ConfigLex.lex\<close>,
    \<open>ConfigParse.y\<close>).
  \<^item> Sending: \<open>PacketSender\<close> is what \<open>LoopbackSender\<close> and \<open>MulticastSender\<close> share.
  \<^item> The keys: \<open>KeyExchange\<close> (\<open>KeyRequesterState\<close>, \<open>KeyRequestClientState\<close>), \<open>KeyRequester\<close> (with
    \<open>MulticastSourceKey\<close>), \<open>KeyRequestListener\<close>; \<open>KeyBootstrap\<close> runs the two sides against each other.
  \<^item> Receiving: \<open>MulticastSource\<close> (with \<open>MulticastSources\<close>), \<open>MulticastReceiver\<close>, \<open>LoopbackReceiver\<close>
    and \<open>UnixReceiver\<close> (\<open>apps/mclogd\<close>).
  \<^item> \<open>Logger\<close>, with the sinks \<open>MessageSink\<close>, \<open>OstreamSink\<close> and \<open>SyslogSink\<close>.
  \<^item> The programs: \<open>Mclogger\<close>, \<open>Mclog\<close>, \<open>Mclogd\<close>. This theory holds the properties of several of them together.

  \<^bold>\<open>How the code is rendered.\<close> An object is a record, a member function a function on it that returns the
  changed record. Integers have their width; file descriptors and results of system calls are integers. An
  exception, a failed \<open>assert\<close> or \<open>std::terminate\<close> is the \<open>Inl\<close> of a \<open>result\<close>. A thread is a machine that makes one
  step per event (a call from another thread, a wake-up, a \<open>select\<close> with what \<open>recvfrom\<close> gave); a run is a list of
  events, so that a property of all lists covers every interleaving of whole steps. A mutex of the code makes such a
  step indivisible and has no other trace in the model. What the system, the clock or
  a random generator answers is an argument of the operation that asks. A loop whose end
  is not apparent is a \<open>partial_function\<close>, whose value is \<open>None\<close> while it still runs; where the code is to come to
  an end, that it does is a theorem. No fuel is used.

  \<^bold>\<open>What is assumed.\<close> Code outside the repository is a parameter with the laws the code relies on:
  \<open>io_ok\<close> (a value written is read back; \<open>Wire\<close>), \<open>aead_ok\<close> (what libsodium seals it opens; \<open>MessagePacket\<close>),
  \<open>queue_ok\<close> and \<open>backlog_ok\<close> (the bounded queues of libDwm; \<open>PacketSender\<close>, \<open>MulticastSource\<close>), \<open>ip_ok\<close> (addresses;
  \<open>UdpEndpoint\<close>), and the conditions on key exchange and signatures of libCredence in \<open>KeyExchange\<close>. The engines of regular
  expressions, the account and service databases, and the compression libraries have no law or only one that is stated with
  the property. Each law is met by a concrete instance (\<open>sample_...\<close>) on which the witnesses run.

  \<^bold>\<open>Bounds\<close>, all taken from the code: 1500 characters of text in a message, 255 in a name; buffers of 1500
  bytes on receiving and 1200 on sending, of which 24 are the nonce and 16 the tag, 1024 in \<open>mclogger\<close> (984 for the
  message); 1000 messages in the queues of \<open>MulticastSender\<close> and \<open>FileLogger\<close>, 100 packets in the backlog of a source.

  \<^bold>\<open>What is shown.\<close>
  \<^item> Data: binary and printed forms read back, readers validate what they read, lengths announced are lengths
    written; a packet takes a message whole or not at all, and no receive leaves its buffer.
  \<^item> Filters: the parser accepts the grammar's language and evaluates by its precedences; a filter once
    constructed never fails.
  \<^item> Files: every message a log file accepts is in the active file or an archive until the limit on
    archives drops it, oldest first; a message goes once to each file whose filter accepts it; while
    nothing is due to be rolled, the contents of all files are those of the specification.
  \<^item> Threads: what a sender has accepted is sent, packed or queued, in the order accepted, in every reachable
    state; a source holds packets back in order and its sinks get them once the key arrives; receivers
    survive any datagram, or exactly which one ends them is said.
  \<^item> Keys: only a known peer gets the key, only a signed key is accepted, every request ends; between hosts
    that know each other it ends with the key, whoever else talks to the listener, and the packets that
    came before the key are delivered.
  \<^item> Configuration: what is printed in the language of the file is read back; what a refused file leaves behind.
  \<^item> Programs: what \<open>mclogger\<close> delivers and \<open>mclog\<close> prints; the daemon never sends on what it received
    from the network; what a restart leaves.
  \<^item> Here: messages logged on one host reach the sinks of another, and messages of an application those of
    the local daemon and the log files of the host, unchanged and in order.

  Some theorems state what the code does where that is not what it seems to mean:
  \<open>leading_zeros_stop_the_log\<close>, \<open>bad_datagrams\<close>, \<open>file_logger_stop_leaves_messages\<close>, \<open>config_parse_keeps_filters\<close>,
  \<open>restart_all_or_deaf\<close> and others.

  \<^bold>\<open>Not modelled.\<close> The order of memory accesses within a step, and so data races: the list of
  sinks that a source reads without the lock of its receiver is read in one piece. The lines the program logs about
  itself. The \<open>fork\<close> of libDwm, usage texts, the names of threads. Failing
  allocation. Formatting the text of a message, which happens in the caller. Tests and the examples of the manual.
\<close>

section \<open>The payload of a packet\<close>

text \<open>The stream a packet is created with, for writing and for reading, is one over the span of its payload.\<close>

lemma packet_payload_is_span_stream:
  assumes "MessagePacket_new buf = Inr pk" "om_in m" "om_out m" "\<not> om_ate m"
  shows "payload_os pk = ostream_of (spanstream_new (take (length buf - k_minPacketLen) (drop k_nonceLen buf)) m)"
    "Payload pk = istream_of (spanstream_new (take (length buf - k_minPacketLen) (drop k_nonceLen buf)) m)"
proof -
  have pk: "pk = \<lparr>pk_buf = buf, pk_off = k_nonceLen, pk_len = length buf - (k_nonceLen + k_macLen), pk_pos = 0,
      pk_fail = False, pk_payloadLength = 0\<rparr>" "k_minPacketLen < length buf"
    using assms(1) by (auto simp: MessagePacket_new_def split: if_splits)
  show "payload_os pk = ostream_of (spanstream_new (take (length buf - k_minPacketLen) (drop k_nonceLen buf)) m)"
    "Payload pk = istream_of (spanstream_new (take (length buf - k_minPacketLen) (drop k_nonceLen buf)) m)"
    using pk(2) by (simp_all add: pk(1) spanstream_new_streams[OF assms(2-4)] payload_os_def Payload_def os_span_def k_lens)
qed

section \<open>From the sender of one host to the sinks of another\<close>

text \<open>The datagram of one \<open>SendPacket\<close> that a receiver gets: the first one sent.\<close>

definition first_datagram :: "'a sends \<Rightarrow> bytes" where
  "first_datagram out = snd (hd out)"

text \<open>What a sender has sealed is what a receiver with the same key can open, and fits its buffer.\<close>

lemma sealed_carries:
  assumes "source_ctx_ok k" "aead_ok (sc_aead k)" "ms \<noteq> []" "\<forall>m\<in>set ms. message_ok m"
    "sealed_payload (sc_aead k) key out = concat (map (Message_enc (sc_io k)) ms)"
    "length (sealed_payload (sc_aead k) key out) \<le> 1160"
  shows "carries k key (first_datagram out) ms \<and> length (first_datagram out) \<le> 1500"
proof -
  let ?x = "concat (map (Message_enc (sc_io k)) ms)"
  have "io_ok (sc_io k)" using assms(1) by (simp add: source_ctx_ok_def)
  then have x: "?x \<noteq> []"
    using assms(3,4) message_codec.wr_nonempty[of "sc_io k"] by (cases ms) auto
  obtain dst d rest where out: "out = (dst, d) # rest"
    "aead_dec (sc_aead k) (take k_nonceLen d) key (drop k_nonceLen d) = Some ?x"
    using x assms(5) by (auto simp: sealed_payload_def split: list.splits option.splits)
  then have "length (drop k_nonceLen d) = length ?x + 16" using assms(2) unfolding aead_ok_def by blast
  moreover have "length ?x \<le> 1160" using assms(5,6) by metis
  ultimately have "length d \<le> 1500" by (simp add: k_lens)
  then show ?thesis using assms(3,4) out by (simp add: carries_def first_datagram_def)
qed

lemma sent_carries:
  assumes "source_ctx_ok k" "aead_ok (sc_aead k)"
    "map (sealed_payload (sc_aead k) key) outs = map (\<lambda>ms. concat (map (Message_enc (sc_io k)) ms)) gs"
    "[] \<notin> set gs" "\<forall>m\<in>set (concat gs). message_ok m"
    "\<forall>out\<in>set outs. length (sealed_payload (sc_aead k) key out) \<le> 1160" "map fst xs = map first_datagram outs"
  shows "list_all2 (\<lambda>x ms. carries k key (fst x) ms \<and> length (fst x) \<le> 1500) xs gs"
  using assms(3-7)
proof (induction outs arbitrary: gs xs rule: list.induct)
  case (Cons out outs)
  obtain g gs' where g: "gs = g # gs'" "sealed_payload (sc_aead k) key out = concat (map (Message_enc (sc_io k)) g)"
    "map (sealed_payload (sc_aead k) key) outs = map (\<lambda>ms. concat (map (Message_enc (sc_io k)) ms)) gs'"
    using Cons.prems(1) by (cases gs) auto
  obtain x xs' where x: "xs = x # xs'" "fst x = first_datagram out" "map fst xs' = map first_datagram outs"
    using Cons.prems(5) by (cases xs) auto
  have "carries k key (fst x) g \<and> length (fst x) \<le> 1500"
    unfolding x(2) using Cons.prems g(1,2) by (intro sealed_carries[OF assms(1,2)]) auto
  moreover have "list_all2 (\<lambda>x ms. carries k key (fst x) ms \<and> length (fst x) \<le> 1500) xs' gs'"
    using Cons.prems g x by (intro Cons.IH) auto
  ultimately show ?case by (simp add: g(1) x(1))
qed simp


section \<open>From an application to the sinks of the local daemon\<close>

lemma plain_carries:
  assumes "io_ok io" "ms \<noteq> []" "\<forall>m\<in>set ms. message_ok m"
    "plain_payload out = concat (map (Message_enc io) ms)" "length (plain_payload out) \<le> 1160"
  shows "carries_plain io (first_datagram out) ms"
proof -
  have "concat (map (Message_enc io) ms) \<noteq> []"
    using assms(1-3) message_codec.wr_nonempty[of io] by (cases ms) auto
  then obtain dst d rest where out: "out = (dst, d) # rest" and x: "take (length d - k_minPacketLen) (drop k_nonceLen d) = concat (map (Message_enc io) ms)"
      "take (length d - k_minPacketLen) (drop k_nonceLen d) \<noteq> []"
    using assms(4) by (auto simp: plain_payload_def split: list.splits)
  have l: "k_minPacketLen < length d" using x(2) by (cases "length d \<le> k_minPacketLen") simp_all
  moreover have "length d \<le> 1500" using assms(5) l by (simp add: out plain_payload_def k_lens)
  ultimately show ?thesis using assms(3) x(1) by (simp add: carries_plain_def first_datagram_def out)
qed

lemma plain_sent_carries:
  assumes "io_ok io" "map plain_payload outs = map (\<lambda>ms. concat (map (Message_enc io) ms)) gs" "[] \<notin> set gs"
    "\<forall>m\<in>set (concat gs). message_ok m" "\<forall>out\<in>set outs. length (plain_payload out) \<le> 1160"
  shows "list_all2 (carries_plain io) (map first_datagram outs) gs"
  using assms(2-5)
proof (induction outs arbitrary: gs)
  case (Cons out outs)
  then obtain g gs' where g: "gs = g # gs'" by (cases gs) auto
  have "carries_plain io (first_datagram out) g" using Cons.prems by (intro plain_carries[OF assms(1)]) (auto simp: g)
  moreover have "list_all2 (carries_plain io) (map first_datagram outs) gs'" using Cons.prems by (intro Cons.IH) (auto simp: g)
  ultimately show ?case by (simp add: g)
qed simp

lemma loopback_chain:
  assumes laws: "queue_ok qo" "io_ok io"
    and sender: "0 \<le> sock" "list_all (event_fits io (\<lambda>_. True)) evs"
      "s = run_events (LoopbackSender_Run qo io lo) (lps_thread (LoopbackSender_new qo sock)) evs"
      "th_pc s = AtTop" "th_run s" "\<forall>m\<in>set (th_accepted s). message_ok m"
    and drain: "s' = run_events (LoopbackSender_Run qo io lo) s (drain_schedule (length (q_items qo (th_queue s))) sendto)"
    and receiver: "0 \<le> lr_ifd r" "length (lv_buf v) = 1500"
  shows "LoopbackReceiver_loop io r (map (ipv4_turn src) (map first_datagram (th_sent s')) @ [loopback_stop]) v
    = Some (Inr (deliver (Some (lr_sinks r)) (th_accepted s)))"
proof -
  have "thread_inv qo io plain_payload (lps_thread (LoopbackSender_new qo sock))"
    using loopback_started_inv[OF laws(1)] by (simp add: loopback_start_new sender(1))
  with laws(1) have i: "queue_ok qo \<and> thread_inv qo io plain_payload s"
    unfolding sender(3) by (intro loopback_run.inv_run[OF _ sender(2)]) simp
  from loopback.drain_empties[OF laws(1) conjunct2[OF i] sender(4,5) _ laws(2) sender(6) drain[unfolded LoopbackSender_Run_def]]
  obtain gs where g: "packed qo io plain_payload s' gs []" "concat gs = th_accepted s" by auto
  have "list_all2 (carries_plain io) (map first_datagram (th_sent s')) gs"
    using g sender(6) by (intro plain_sent_carries[OF laws(2)]) (auto simp: packed_def)
  from loopback_delivers[OF laws(2) receiver this] show ?thesis by (simp add: g(2))
qed


section \<open>From an application to the log files\<close>

fun log_calls :: "file_event list \<Rightarrow> Message list" where
  "log_calls [] = []"
| "log_calls (Log_call m # evs) = m # log_calls evs"
| "log_calls (_ # evs) = log_calls evs"

lemma delivered_to:
  assumes "distinct sinks" "k \<in> set sinks"
  shows "map snd (filter (\<lambda>d. fst d = k) (deliver (Some sinks) ms)) = ms"
proof -
  have "filter (\<lambda>x. x = k) sinks = [k]" using assms by (induction sinks) (auto simp: filter_empty_conv)
  then have "map snd (filter (\<lambda>d. fst d = k) (map (\<lambda>x. (x, m)) sinks)) = [m]" for m :: Message
    by (simp add: filter_map comp_def)
  then show ?thesis by (induction ms) (simp_all add: deliver_def)
qed


section \<open>Witnesses\<close>

definition sample_receiver :: "(nat, nat, nat, nat, nat \<times> BacklogEntry list) MulticastReceiver" where
  "sample_receiver =
     (MulticastReceiver_new sample_receiver_config)\<lparr>mr_fd := 3, mr_run := True, mr_sinks := [3, 4],
       mr_sources := [UdpEndpoint 7 3737 \<mapsto>
         source_set_Key (MulticastSourceKey_new sample_key) (MulticastSource_new sample_backlog (UdpEndpoint 7 3737))]\<rparr>"

definition sample_sent :: "(nat, nat, nat, nat \<times> Message list, nat) MulticastSender" where
  "sample_sent = run_events (multicast_step sample_sender_ctx)
     (run_events (multicast_step sample_sender_ctx) sample_sender [Process_call sample_message]) (drain_schedule 1 sample_nonce)"


definition sample_loopback_sent :: "(nat \<times> Message list, (nat UdpEndpoint \<times> bytes) list) sender_thread" where
  "sample_loopback_sent = run_events (LoopbackSender_Run sample_queue sample_io 0)
     (run_events (LoopbackSender_Run sample_queue sample_io 0) (lps_thread (LoopbackSender_new sample_queue 3)) [Process_call sample_message])
     (drain_schedule 1 sample_sendto)"

definition sample_local_receiver :: "(nat, nat, nat) LoopbackReceiver" where
  "sample_local_receiver = (LoopbackReceiver_new sample_receiver_config (0, 0))\<lparr>lr_ifd := 3, lr_sinks := [3, 4]\<rparr>"



end
